(* ===== verification/Prelude.thy ===== *)
theory Prelude
  imports Main "HOL-Library.Word" "HOL-Library.AList" "HOL-Library.Sublist"
begin

text \<open>
  Shared material of the development: Go's error values and \<open>errors.Is\<close>, the result type
  of a Go function that returns a value and an error, and the generic lemmas and lemma
  collections that the component theories use.
\<close>

section \<open>Lemma collections\<close>

named_theorems sentinel_defs \<open>definitions of the package-level sentinel errors\<close>
named_theorems cfg_simps \<open>equations of the option constructors\<close>

section \<open>Errors\<close>

text \<open>
  Operating system error numbers, as far as the code tells them apart.
\<close>

datatype errno =
    EPERM | ENOENT | ESRCH | EINTR | EIO | EBADF | EACCES | EEXIST | ENOTDIR | EISDIR
  | ENOSPC | EROFS | EWOULDBLOCK | ENOTEMPTY | ErrnoOther nat

text \<open>
  A Go error value: a package-level sentinel made by \<open>errors.New\<close> (identified by its
  message, which is different for every sentinel of the repository), an operating system
  error, a plain error message, or an error wrapped by \<open>fmt.Errorf\<close> with \<open>%w\<close>
  (and by \<open>os.PathError\<close>, which wraps the error number in the same way).
\<close>

datatype gerr =
    Sentinel string
  | Errno errno
  | ErrMsg string
  | Wrap string gerr

definition os_ErrExist :: gerr where
  "os_ErrExist = Sentinel ''file already exists''"

definition os_ErrNotExist :: gerr where
  "os_ErrNotExist = Sentinel ''file does not exist''"

definition context_Canceled :: gerr where
  "context_Canceled = Sentinel ''context canceled''"

declare os_ErrExist_def [sentinel_defs] os_ErrNotExist_def [sentinel_defs]
  context_Canceled_def [sentinel_defs]

text \<open>\<open>syscall.Errno.Is\<close>: which portable \<open>os\<close> errors an error number stands for.\<close>

fun errno_is :: "errno \<Rightarrow> gerr \<Rightarrow> bool" where
  "errno_is EEXIST t = (t = os_ErrExist)"
| "errno_is ENOTEMPTY t = (t = os_ErrExist)"
| "errno_is ENOENT t = (t = os_ErrNotExist)"
| "errno_is _ t = False"

text \<open>\<open>errors.Is\<close>: equal, or some error down the chain of wrapped errors is.\<close>

fun errors_is :: "gerr \<Rightarrow> gerr \<Rightarrow> bool" where
  "errors_is (Wrap m e) t = (Wrap m e = t \<or> errors_is e t)"
| "errors_is (Errno n) t = (Errno n = t \<or> errno_is n t)"
| "errors_is (Sentinel m) t = (Sentinel m = t)"
| "errors_is (ErrMsg m) t = (ErrMsg m = t)"

lemma errors_is_refl [simp]: "errors_is e e"
  by (cases e) auto

lemma errors_is_Wrap_Sentinel [simp]:
  "errors_is (Wrap m e) (Sentinel s) = errors_is e (Sentinel s)"
  by simp

declare errors_is.simps(1) [simp del]

type_synonym 'a res = "gerr + 'a"

text \<open>The error of a call that returns only an error: \<open>None\<close> is Go's \<open>nil\<close>.\<close>

type_synonym err = "gerr option"

section \<open>Generic lemmas\<close>

lemma isl_case_sum [simp]: "isl x \<Longrightarrow> (case x of Inl a \<Rightarrow> f a | Inr b \<Rightarrow> g b) = f (projl x)"
  by (cases x) auto

lemma map_of_update [simp]: "map_of (AList.update k v xs) = (map_of xs)(k \<mapsto> v)"
  by (simp add: update_conv')

lemma map_of_delete [simp]: "map_of (AList.delete k xs) = (map_of xs)(k := None)"
  by (simp add: delete_conv')

lemma takeWhile_notin [simp]: "c \<notin> set s \<Longrightarrow> takeWhile (\<lambda>x. x \<noteq> c) (s @ c # t) = s"
  by (induction s) auto

lemma dropWhile_notin [simp]: "c \<notin> set s \<Longrightarrow> dropWhile (\<lambda>x. x \<noteq> c) (s @ c # t) = c # t"
  by (induction s) auto

lemma int_div_less: "0 < k \<Longrightarrow> t < b * k \<Longrightarrow> t div k < (b :: int)"
  by (smt (verit) pos_mod_sign minus_mod_eq_mult_div mult.commute mult_less_cancel_right)

lemma length_filter_update:
  "h < length xs \<Longrightarrow> length (filter P (xs[h := y])) + (if P (xs ! h) then 1 else 0) =
     length (filter P xs) + (if P y then 1 else 0)"
proof (induction xs arbitrary: h)
  case (Cons x xs)
  then show ?case by (cases h) auto
qed simp

lemma filter_nonempty_length:
  "h < length xs \<Longrightarrow> P (xs ! h) \<Longrightarrow> 0 < length (filter P xs)"
  by (metis filter_empty_conv length_greater_0_conv nth_mem)

lemma count_list_remove1: "count_list (remove1 a xs) b = count_list xs b - (if b = a then 1 else 0)"
  by (induction xs) auto

lemma count_list_gt_0: "0 < count_list xs a \<longleftrightarrow> a \<in> set xs"
  using count_list_0_iff[of xs a] by auto

lemma fresh_number: "Suc (sum_list ns) \<notin> set ns"
  using member_le_sum_list[of "Suc (sum_list ns)" ns] by auto

end
