(* ===== verification/GoStrings.thy ===== *)
theory GoStrings
  imports Prelude
begin

text \<open>
  The part of Go's \<open>strings\<close>, \<open>strconv\<close> and \<open>bufio\<close> packages the locks use, over
  strings as byte lists: \<open>TrimSpace\<close>, \<open>Cut\<close>, the line scanner, decimal printing
  and \<open>Atoi\<close> and \<open>ParseUint\<close>, with the round trips the markers and fence files rest on.
\<close>

section \<open>Trimming white space\<close>

text \<open>
  The UTF-8 encodings of the code points \<open>unicode.IsSpace\<close> accepts.
\<close>

definition go_spaces :: "string list" where
  "go_spaces =
     [[CHR 0x09], [CHR 0x0A], [CHR 0x0B], [CHR 0x0C], [CHR 0x0D], '' '',
      [CHR 0xC2, CHR 0x85], [CHR 0xC2, CHR 0xA0], [CHR 0xE1, CHR 0x9A, CHR 0x80],
      [CHR 0xE2, CHR 0x80, CHR 0x80], [CHR 0xE2, CHR 0x80, CHR 0x81],
      [CHR 0xE2, CHR 0x80, CHR 0x82], [CHR 0xE2, CHR 0x80, CHR 0x83],
      [CHR 0xE2, CHR 0x80, CHR 0x84], [CHR 0xE2, CHR 0x80, CHR 0x85],
      [CHR 0xE2, CHR 0x80, CHR 0x86], [CHR 0xE2, CHR 0x80, CHR 0x87],
      [CHR 0xE2, CHR 0x80, CHR 0x88], [CHR 0xE2, CHR 0x80, CHR 0x89],
      [CHR 0xE2, CHR 0x80, CHR 0x8A], [CHR 0xE2, CHR 0x80, CHR 0xA8],
      [CHR 0xE2, CHR 0x80, CHR 0xA9], [CHR 0xE2, CHR 0x80, CHR 0xAF],
      [CHR 0xE2, CHR 0x81, CHR 0x9F], [CHR 0xE3, CHR 0x80, CHR 0x80]]"

text \<open>Drop leading occurrences of the (non-empty) prefixes \<open>ps\<close>.\<close>

function strip :: "string list \<Rightarrow> string \<Rightarrow> string" where
  "strip ps s =
     (case find (\<lambda>p. p \<noteq> [] \<and> prefix p s) ps of
        None \<Rightarrow> s
      | Some p \<Rightarrow> strip ps (drop (length p) s))"
  by pat_completeness auto
termination
proof (relation "measure (\<lambda>(ps, s). length s)")
  fix ps s p
  assume "find (\<lambda>p. p \<noteq> [] \<and> prefix p s) ps = Some p"
  then have "p \<noteq> []" "prefix p s" by (auto simp: find_Some_iff)
  then have "0 < length p" "length p \<le> length s" by (auto dest: prefix_length_le)
  then have "length s - length p < length s" by linarith
  then show "((ps, drop (length p) s), (ps, s)) \<in> measure (\<lambda>(ps, s). length s)" by simp
qed simp

declare strip.simps [simp del]

definition trim_left :: "string \<Rightarrow> string" where
  "trim_left s = strip go_spaces s"

definition trim_right :: "string \<Rightarrow> string" where
  "trim_right s = rev (strip (map rev go_spaces) (rev s))"

definition trim_space :: "string \<Rightarrow> string" where
  "trim_space s = trim_right (trim_left s)"

text \<open>A string with no white space at either end is left alone.\<close>

definition trimmed :: "string \<Rightarrow> bool" where
  "trimmed s \<longleftrightarrow> (\<forall>p \<in> set go_spaces. \<not> prefix p s \<and> \<not> suffix p s)"

lemma strip_id: "(\<And>p. p \<in> set ps \<Longrightarrow> \<not> prefix p s) \<Longrightarrow> strip ps s = s"
  by (subst strip.simps) (auto simp: find_Some_iff split: option.splits)

lemma trim_space_trimmed [simp]: "trimmed s \<Longrightarrow> trim_space s = s"
proof -
  assume t: "trimmed s"
  then have l: "trim_left s = s"
    unfolding trim_left_def by (intro strip_id) (auto simp: trimmed_def)
  have "strip (map rev go_spaces) (rev s) = rev s"
  proof (rule strip_id)
    fix p assume "p \<in> set (map rev go_spaces)"
    then obtain q where "q \<in> set go_spaces" "p = rev q" by auto
    with t show "\<not> prefix p (rev s)"
      by (auto simp: trimmed_def suffix_to_prefix)
  qed
  then show ?thesis by (simp add: trim_space_def trim_right_def l)
qed

lemma go_spaces_nonempty [simp]: "[] \<notin> set go_spaces"
  by (simp add: go_spaces_def)

lemma trimmed_Nil [simp]: "trimmed []"
  by (auto simp: trimmed_def prefix_def suffix_def go_spaces_def)

text \<open>
  Printable ASCII strings are trimmed: no encoding of white space starts or ends in a byte
  from \<open>!\<close> to \<open>~\<close>.
\<close>

definition graphic :: "char \<Rightarrow> bool" where
  "graphic c \<longleftrightarrow> 32 < (of_char c :: nat) \<and> (of_char c :: nat) < 127"

lemma go_spaces_not_graphic:
  "p \<in> set go_spaces \<Longrightarrow> c \<in> set p \<Longrightarrow> \<not> graphic c"
  by (auto simp: go_spaces_def graphic_def)

lemma trimmed_if_graphic_ends:
  assumes "s \<noteq> []" "graphic (hd s)" "graphic (last s)"
  shows "trimmed s"
  unfolding trimmed_def
proof (intro ballI conjI notI)
  fix p assume p: "p \<in> set go_spaces"
  then have ne: "p \<noteq> []" by auto
  { assume "prefix p s"
    with ne have "hd p = hd s" by (metis append_is_Nil_conv hd_append2 prefix_def)
    with go_spaces_not_graphic[OF p, of "hd p"] assms ne show False by (metis hd_in_set) }
  { assume "suffix p s"
    with ne have "last p = last s" by (metis last_appendR suffix_def)
    with go_spaces_not_graphic[OF p, of "last p"] assms ne show False by (metis last_in_set) }
qed

lemma trimmed_graphic: "(\<And>c. c \<in> set s \<Longrightarrow> graphic c) \<Longrightarrow> trimmed s"
  by (cases "s = []") (auto intro: trimmed_if_graphic_ends)

section \<open>Lines and key-value pairs\<close>

abbreviation NL :: char where "NL \<equiv> CHR 0x0A"

text \<open>\<open>bufio.ScanLines\<close>: one trailing carriage return is dropped from a line.\<close>

definition drop_cr :: "string \<Rightarrow> string" where
  "drop_cr s = (if s \<noteq> [] \<and> last s = CHR 0x0D then butlast s else s)"

fun raw_lines :: "string \<Rightarrow> string list" where
  "raw_lines [] = []"
| "raw_lines (c # s) =
     (if c = NL then [] # raw_lines s
      else (case raw_lines s of [] \<Rightarrow> [[c]] | l # ls \<Rightarrow>
              (if s \<noteq> [] then (c # l) # ls else [[c]])))"

lemma raw_lines_Cons_line:
  "NL \<notin> set l \<Longrightarrow> raw_lines (l @ NL # s) = l # raw_lines s"
  by (induction l) auto

text \<open>\<open>strings.Cut\<close> at a one-byte separator.\<close>

definition cut :: "char \<Rightarrow> string \<Rightarrow> (string \<times> string) option" where
  "cut c s = (if c \<in> set s
     then Some (takeWhile (\<lambda>x. x \<noteq> c) s, tl (dropWhile (\<lambda>x. x \<noteq> c) s)) else None)"

lemma cut_append [simp]: "c \<notin> set k \<Longrightarrow> cut c (k @ c # v) = Some (k, v)"
  by (simp add: cut_def)

lemma cut_None [simp]: "c \<notin> set s \<Longrightarrow> cut c s = None"
  by (simp add: cut_def)

section \<open>Decimal numbers\<close>

definition digit :: "nat \<Rightarrow> char" where
  "digit n = char_of (48 + n)"

definition is_digit :: "char \<Rightarrow> bool" where
  "is_digit c \<longleftrightarrow> 48 \<le> (of_char c :: nat) \<and> (of_char c :: nat) \<le> 57"

definition digit_val :: "char \<Rightarrow> nat" where
  "digit_val c = of_char c - 48"

lemma of_char_digit: "n < 10 \<Longrightarrow> (of_char (digit n) :: nat) = 48 + n"
  by (simp add: digit_def)

lemma is_digit_digit [simp]: "n < 10 \<Longrightarrow> is_digit (digit n)"
  by (simp add: is_digit_def of_char_digit)

lemma digit_val_digit [simp]: "n < 10 \<Longrightarrow> digit_val (digit n) = n"
  by (simp add: digit_val_def of_char_digit)

lemma is_digit_graphic: "is_digit c \<Longrightarrow> graphic c"
  by (auto simp: is_digit_def graphic_def)

lemma is_digit_neq [simp]:
  "is_digit c \<Longrightarrow> c \<noteq> CHR ''-''" "is_digit c \<Longrightarrow> c \<noteq> CHR ''+''" "is_digit c \<Longrightarrow> c \<noteq> NL"
  "is_digit c \<Longrightarrow> c \<noteq> CHR ''=''" "is_digit c \<Longrightarrow> c \<noteq> CHR ''#''" "is_digit c \<Longrightarrow> c \<noteq> CHR 0x0D"
  "is_digit c \<Longrightarrow> c \<noteq> CHR ''/''" "is_digit c \<Longrightarrow> c \<noteq> CHR ''.''" "is_digit c \<Longrightarrow> c \<noteq> CHR '':''"
  by (auto simp: is_digit_def)

text \<open>\<open>%d\<close> of an unsigned and of a signed integer.\<close>

fun dec :: "nat \<Rightarrow> string" where
  "dec n = (if n < 10 then [digit n] else dec (n div 10) @ [digit (n mod 10)])"

declare dec.simps [simp del]

definition itoa :: "int \<Rightarrow> string" where
  "itoa i = (if i < 0 then CHR ''-'' # dec (nat (- i)) else dec (nat i))"

text \<open>The value of a digit string: the accumulating loop of \<open>strconv\<close>.\<close>

definition digits_val :: "string \<Rightarrow> nat" where
  "digits_val s = foldl (\<lambda>a c. a * 10 + digit_val c) 0 s"

lemma dec_digits: "c \<in> set (dec n) \<Longrightarrow> is_digit c"
proof (induction n rule: dec.induct)
  case (1 n)
  then show ?case by (cases "n < 10") (auto simp: dec.simps[of n])
qed

lemma dec_nonempty [simp]: "dec n \<noteq> []"
  by (subst dec.simps) simp

lemma digits_val_dec [simp]: "digits_val (dec n) = n"
proof (induction n rule: dec.induct)
  case (1 n)
  then show ?case by (cases "n < 10") (auto simp: dec.simps[of n] digits_val_def)
qed

lemma list_all_dec [simp]: "list_all is_digit (dec n)"
  by (auto simp: list_all_iff dec_digits)

lemma dec_inject [simp]: "dec m = dec n \<longleftrightarrow> m = n"
  by (metis digits_val_dec)

text \<open>\<open>strconv.ParseUint(s, 10, 64)\<close>: \<open>None\<close> stands for a syntax or range error.\<close>

definition parse_uint64 :: "string \<Rightarrow> 64 word option" where
  "parse_uint64 s =
     (if s \<noteq> [] \<and> list_all is_digit s \<and> digits_val s < 2 ^ 64
      then Some (of_nat (digits_val s)) else None)"

lemma parse_uint64_dec [simp]: "parse_uint64 (dec (unat w)) = Some (w :: 64 word)"
proof -
  have "unat w < 2 ^ 64" using unsigned_less[of w] by simp
  then show ?thesis by (simp add: parse_uint64_def)
qed

lemma parse_uint64_Some:
  "parse_uint64 s = Some w \<Longrightarrow> unat w = digits_val s"
  by (auto simp: parse_uint64_def unat_of_nat split: if_splits)

text \<open>
  \<open>strconv.Atoi\<close> on a 64-bit platform: an optional sign, digits, and the range of
  \<open>int64\<close>; \<open>None\<close> stands for a syntax or range error.
\<close>

definition int64_range :: "int \<Rightarrow> bool" where
  "int64_range i \<longleftrightarrow> - (2 ^ 63) \<le> i \<and> i < 2 ^ 63"

definition parse_digits :: "string \<Rightarrow> int option" where
  "parse_digits s = (if s \<noteq> [] \<and> list_all is_digit s then Some (int (digits_val s)) else None)"

fun parse_signed :: "string \<Rightarrow> int option" where
  "parse_signed [] = None"
| "parse_signed (c # s) =
     (if c = CHR ''-'' then map_option uminus (parse_digits s)
      else if c = CHR ''+'' then parse_digits s
      else parse_digits (c # s))"

definition atoi :: "string \<Rightarrow> int option" where
  "atoi s = (case parse_signed s of
     Some i \<Rightarrow> if int64_range i then Some i else None
   | None \<Rightarrow> None)"

lemma parse_digits_dec [simp]: "parse_digits (dec n) = Some (int n)"
  by (simp add: parse_digits_def)

lemma parse_signed_dec: "parse_signed (dec n) = Some (int n)"
proof -
  obtain c s where cs: "dec n = c # s" by (cases "dec n") auto
  then have "is_digit c" by (metis dec_digits list.set_intros(1))
  then have "parse_signed (dec n) = parse_digits (dec n)" by (simp add: cs)
  then show ?thesis by simp
qed

lemma atoi_itoa [simp]: "int64_range i \<Longrightarrow> atoi (itoa i) = Some i"
  by (auto simp: atoi_def itoa_def parse_signed_dec)

lemma itoa_chars: "c \<in> set (itoa i) \<Longrightarrow> is_digit c \<or> c = CHR ''-''"
  by (auto simp: itoa_def dec_digits split: if_splits)

lemma itoa_graphic: "c \<in> set (itoa i) \<Longrightarrow> graphic c"
  using itoa_chars[of c i] is_digit_graphic[of c] by (auto simp: graphic_def)

lemma itoa_nonempty [simp]: "itoa i \<noteq> []"
  by (simp add: itoa_def)

lemma trimmed_itoa [simp]: "trimmed (itoa i)"
  by (intro trimmed_graphic itoa_graphic)

lemma itoa_inject_nonneg: "0 \<le> i \<Longrightarrow> 0 \<le> j \<Longrightarrow> itoa i = itoa j \<longleftrightarrow> i = j"
  by (simp add: itoa_def eq_nat_nat_iff)

text \<open>A number after a separator can be read back.\<close>

lemma itoa_after_inject:
  assumes "0 \<le> i" "0 \<le> j" "\<not> is_digit c" "c \<noteq> CHR ''-''"
  shows "xs @ c # itoa i = ys @ c # itoa j \<longleftrightarrow> xs = ys \<and> i = j"
proof -
  have n: "c \<notin> set (rev (itoa k))" for k using itoa_chars[of c k] assms(3,4) by auto
  have "xs @ c # itoa i = ys @ c # itoa j \<longleftrightarrow> rev (itoa i) @ c # rev xs = rev (itoa j) @ c # rev ys"
    by (metis append.assoc append_Cons append_Nil rev.simps(2) rev_append rev_rev_ident)
  also have "\<dots> \<longleftrightarrow> itoa i = itoa j \<and> xs = ys"
  proof
    assume e: "rev (itoa i) @ c # rev xs = rev (itoa j) @ c # rev ys"
    have t: "takeWhile (\<lambda>d. d \<noteq> c) (rev (itoa k) @ c # r) = rev (itoa k)" for k r
      using n[of k] by (subst takeWhile_append2) auto
    from e have "itoa i = itoa j" using t[of i "rev xs"] t[of j "rev ys"] by simp
    with e show "itoa i = itoa j \<and> xs = ys" by simp
  qed simp
  finally show ?thesis using itoa_inject_nonneg[OF assms(1,2)] by auto
qed

end
