(* ===== verification/GoPath.thy ===== *)
theory GoPath
  imports GoStrings
begin

text \<open>
  Go's \<open>path/filepath\<close> on Unix: \<open>Clean\<close>, \<open>Join\<close> of two elements and \<open>Dir\<close>.
  The main fact is that joining a directory with a plain file name is injective in the name,
  which keeps the files of different locks apart.
\<close>

section \<open>Splitting and joining at slashes\<close>

fun segs :: "char \<Rightarrow> string \<Rightarrow> string list" where
  "segs c [] = [[]]"
| "segs c (x # s) =
     (if x = c then [] # segs c s
      else (case segs c s of [] \<Rightarrow> [[x]] | l # ls \<Rightarrow> (x # l) # ls))"

lemma segs_nonempty [simp]: "segs c s \<noteq> []"
  by (induction s) (auto split: list.splits)

lemma segs_append: "c \<notin> set n \<Longrightarrow> segs c (s @ c # n) = segs c s @ [n]"
proof -
  assume n: "c \<notin> set n"
  have base: "segs c n = [n]" using n by (induction n) auto
  show ?thesis
  proof (induction s)
    case (Cons x s)
    then show ?case by (auto split: list.splits)
  qed (simp add: base)
qed

lemma segs_single: "c \<notin> set n \<Longrightarrow> segs c n = [n]"
  by (induction n) auto

fun join_with :: "string \<Rightarrow> string list \<Rightarrow> string" where
  "join_with sep [] = []"
| "join_with sep [x] = x"
| "join_with sep (x # y # ys) = x @ sep @ join_with sep (y # ys)"

lemma join_with_snoc: "join_with sep (xs @ [n]) = concat (map (\<lambda>s. s @ sep) xs) @ n"
proof (induction xs)
  case (Cons x xs)
  then show ?case by (cases xs) auto
qed simp

section \<open>Clean, Join and Dir\<close>

definition clean_step :: "bool \<Rightarrow> string list \<Rightarrow> string \<Rightarrow> string list" where
  "clean_step rooted st s =
     (if s = [] \<or> s = ''.'' then st
      else if s = ''..'' then
        (case st of
           [] \<Rightarrow> (if rooted then [] else [''..''])
         | t # ts \<Rightarrow> (if t = ''..'' then ''..'' # st else ts))
      else s # st)"

definition rooted :: "string \<Rightarrow> bool" where
  "rooted p \<longleftrightarrow> p \<noteq> [] \<and> hd p = CHR ''/''"

definition clean_stack :: "string \<Rightarrow> string list" where
  "clean_stack p = foldl (clean_step (rooted p)) [] (segs (CHR ''/'') p)"

definition path_clean :: "string \<Rightarrow> string" where
  "path_clean p =
     (let out = join_with ''/'' (rev (clean_stack p)) in
        if rooted p then CHR ''/'' # out else if out = [] then ''.'' else out)"

definition path_join :: "string \<Rightarrow> string \<Rightarrow> string" where
  "path_join dir name =
     (if dir = [] then (if name = [] then [] else path_clean name)
      else if name = [] then path_clean dir
      else path_clean (dir @ CHR ''/'' # name))"

definition path_dir :: "string \<Rightarrow> string" where
  "path_dir p = path_clean (rev (dropWhile (\<lambda>c. c \<noteq> CHR ''/'') (rev p)))"

text \<open>A plain file name: one path element that is neither \<open>.\<close> nor \<open>..\<close>.\<close>

definition plain_name :: "string \<Rightarrow> bool" where
  "plain_name n \<longleftrightarrow> n \<noteq> [] \<and> CHR ''/'' \<notin> set n \<and> n \<noteq> ''.'' \<and> n \<noteq> ''..''"

text \<open>What \<open>path_join\<close> puts in front of a plain name.\<close>

definition join_prefix :: "string \<Rightarrow> string" where
  "join_prefix dir =
     (if dir = [] then []
      else (if rooted dir then ''/'' else []) @ concat (map (\<lambda>s. s @ ''/'') (rev (clean_stack dir))))"

lemma path_join_plain:
  assumes "plain_name n"
  shows "path_join dir n = join_prefix dir @ n"
proof (cases "dir = []")
  case True
  have "\<not> rooted n" using assms by (cases n) (auto simp: plain_name_def rooted_def)
  then have "path_clean n = n"
    using assms by (simp add: path_clean_def clean_stack_def plain_name_def segs_single clean_step_def)
  then show ?thesis using True assms by (simp add: path_join_def join_prefix_def plain_name_def)
next
  case False
  let ?p = "dir @ CHR ''/'' # n"
  have r: "rooted ?p = rooted dir" using False by (cases dir) (auto simp: rooted_def)
  have "clean_stack ?p = n # clean_stack dir"
    using assms by (simp add: clean_stack_def r segs_append plain_name_def clean_step_def)
  then have "path_clean ?p = join_prefix dir @ n"
    using False assms by (simp add: path_clean_def r join_with_snoc join_prefix_def plain_name_def)
  then show ?thesis using False assms by (simp add: path_join_def plain_name_def)
qed

lemma path_join_inject:
  "plain_name n \<Longrightarrow> plain_name m \<Longrightarrow> path_join dir n = path_join dir m \<longleftrightarrow> n = m"
  by (simp add: path_join_plain)

section \<open>The directory of a joined path\<close>

fun ok_stack :: "bool \<Rightarrow> string list \<Rightarrow> bool" where
  "ok_stack r [] = True"
| "ok_stack r (s # ts) = (s \<noteq> [] \<and> s \<noteq> ''.'' \<and> CHR ''/'' \<notin> set s \<and> ok_stack r ts \<and>
     (s = ''..'' \<longrightarrow> \<not> r \<and> (\<forall>t \<in> set ts. t = ''..'')))"

lemma ok_stack_step: "ok_stack r st \<Longrightarrow> CHR ''/'' \<notin> set s \<Longrightarrow> ok_stack r (clean_step r st s)"
  by (cases st) (auto simp: clean_step_def)

lemma ok_stack_fold:
  "ok_stack r st \<Longrightarrow> \<forall>s \<in> set ss. CHR ''/'' \<notin> set s \<Longrightarrow> ok_stack r (foldl (clean_step r) st ss)"
  by (induction ss arbitrary: st) (auto simp: ok_stack_step)

lemma segs_no_sep: "s \<in> set (segs c p) \<Longrightarrow> c \<notin> set s"
proof (induction p arbitrary: s)
  case (Cons x p)
  obtain l ls where l: "segs c p = l # ls" using segs_nonempty[of c p] by (meson neq_Nil_conv)
  then have "c \<notin> set l" "\<forall>q \<in> set ls. c \<notin> set q" using Cons.IH by auto
  with l Cons.prems show ?case by (simp split: if_splits) auto
qed simp

lemma ok_clean_stack: "ok_stack (rooted p) (clean_stack p)"
  unfolding clean_stack_def using segs_no_sep by (intro ok_stack_fold) auto

lemma clean_fold_ok: "ok_stack r st \<Longrightarrow> foldl (clean_step r) [] (rev st) = st"
proof (induction st)
  case (Cons s ts)
  then have ok: "s \<noteq> []" "s \<noteq> ''.''" "s = ''..'' \<Longrightarrow> \<not> r" "s = ''..'' \<Longrightarrow> \<forall>t \<in> set ts. t = ''..''" by simp_all
  have "clean_step r ts s = s # ts"
  proof (cases "s = ''..''")
    case True
    then show ?thesis using ok(3,4) by (cases ts) (simp_all add: clean_step_def)
  next
    case False
    then show ?thesis using ok(1,2) by (simp add: clean_step_def)
  qed
  then show ?case using Cons by simp
qed simp

lemma ok_stack_no_sep: "ok_stack r st \<Longrightarrow> s \<in> set st \<Longrightarrow> CHR ''/'' \<notin> set s \<and> s \<noteq> []"
  by (induction st) auto

lemma segs_Cons_sep: "CHR ''/'' \<notin> set n \<Longrightarrow> segs (CHR ''/'') (n @ ''/'' @ s) = n # segs (CHR ''/'') s"
  by (induction n) (auto split: list.splits)

lemma segs_concat:
  "\<forall>s \<in> set xs. CHR ''/'' \<notin> set s \<Longrightarrow>
     segs (CHR ''/'') (concat (map (\<lambda>s. s @ ''/'') xs)) = xs @ [[]]"
proof (induction xs)
  case (Cons x xs)
  then show ?case using segs_Cons_sep[of x "concat (map (\<lambda>s. s @ ''/'') xs)"] by simp
qed simp

lemma clean_join_prefix:
  assumes "d \<noteq> []"
  shows "path_clean (join_prefix d) = path_clean d"
proof -
  let ?st = "clean_stack d"
  let ?c = "concat (map (\<lambda>s. s @ ''/'') (rev ?st))"
  have ns: "\<forall>s \<in> set (rev ?st). CHR ''/'' \<notin> set s" "\<forall>s \<in> set (rev ?st). s \<noteq> []"
    using ok_stack_no_sep[OF ok_clean_stack] by auto
  have jp: "join_prefix d = (if rooted d then ''/'' else []) @ ?c" using assms by (simp add: join_prefix_def)
  have nr: "\<not> rooted ?c"
  proof (cases "rev ?st")
    case (Cons s ts)
    with ns have "s \<noteq> []" "CHR ''/'' \<notin> set s" by auto
    then have "hd s \<noteq> CHR ''/''" by (metis hd_in_set)
    with Cons \<open>s \<noteq> []\<close> show ?thesis by (simp add: rooted_def)
  qed (simp add: rooted_def)
  have r: "rooted (join_prefix d) = rooted d" using nr by (auto simp: jp rooted_def)
  have sg: "segs (CHR ''/'') (join_prefix d) = (if rooted d then [[]] else []) @ rev ?st @ [[]]"
    using segs_concat[OF ns(1)] by (simp add: jp)
  have cs: "clean_step q st [] = st" for q st by (simp add: clean_step_def)
  have "clean_stack (join_prefix d) = ?st"
    using clean_fold_ok[OF ok_clean_stack[of d]]
    by (cases "rooted d") (simp_all add: clean_stack_def[of "join_prefix d"] r sg cs)
  then show ?thesis by (simp add: path_clean_def r)
qed

lemma path_dir_join:
  assumes "d \<noteq> []" "plain_name n"
  shows "path_dir (path_join d n) = path_clean d"
proof -
  have n: "CHR ''/'' \<notin> set n" using assms(2) by (simp add: plain_name_def)
  have dw: "dropWhile (\<lambda>c. c \<noteq> CHR ''/'') (rev n @ t) = dropWhile (\<lambda>c. c \<noteq> CHR ''/'') t" for t
    using n by (subst dropWhile_append2) auto
  have "dropWhile (\<lambda>c. c \<noteq> CHR ''/'') (rev (join_prefix d)) = rev (join_prefix d)"
  proof (cases "clean_stack d")
    case Nil
    then show ?thesis by (simp add: join_prefix_def)
  next
    case (Cons s ts)
    then show ?thesis using assms(1) by (simp add: join_prefix_def)
  qed
  then show ?thesis
    by (simp add: path_join_plain[OF assms(2)] path_dir_def dw clean_join_prefix[OF assms(1)])
qed

end
