(* ===== verification/GoTime.thy ===== *)
theory GoTime
  imports GoStrings
begin

text \<open>
  The part of Go's \<open>time\<close> package the locks use.  A \<open>time.Time\<close> is the number of
  nanoseconds since January 1 of year 1, 00:00:00 UTC, so that the zero \<open>Time\<close> is \<open>0\<close>;
  a \<open>time.Duration\<close> is a number of nanoseconds in the range of \<open>int64\<close>.  Formatting and
  parsing follow the layout \<open>RFC3339Nano\<close>.
\<close>

type_synonym gtime = int
type_synonym duration = int

definition isZero :: "gtime \<Rightarrow> bool" where "isZero t \<longleftrightarrow> t = 0"

definition nanosecond :: duration where "nanosecond = 1"
definition microsecond :: duration where "microsecond = 1000"
definition millisecond :: duration where "millisecond = 1000000"
definition second :: duration where "second = 1000000000"

lemmas duration_units = nanosecond_def microsecond_def millisecond_def second_def

section \<open>Arithmetic\<close>

text \<open>\<open>Time.Sub\<close> saturates at the ends of the range of \<open>Duration\<close>.\<close>

definition min_duration :: duration where "min_duration = - (2 ^ 63)"
definition max_duration :: duration where "max_duration = 2 ^ 63 - 1"

definition time_sub :: "gtime \<Rightarrow> gtime \<Rightarrow> duration" where
  "time_sub t u = max min_duration (min max_duration (t - u))"

lemma time_sub_exact: "int64_range (t - u) \<Longrightarrow> time_sub t u = t - u"
  by (auto simp: time_sub_def min_duration_def max_duration_def int64_range_def)

lemma time_sub_mono: "t \<le> t' \<Longrightarrow> time_sub t u \<le> time_sub t' u"
  by (auto simp: time_sub_def)

text \<open>Nanoseconds of \<open>time.Unix(secs, 0)\<close>.\<close>

definition unix_epoch_secs :: int where "unix_epoch_secs = 62135596800"

definition time_unix :: "int \<Rightarrow> gtime" where
  "time_unix secs = (secs + unix_epoch_secs) * second"

section \<open>The calendar\<close>

definition leap :: "int \<Rightarrow> bool" where
  "leap y \<longleftrightarrow> y mod 4 = 0 \<and> (y mod 100 \<noteq> 0 \<or> y mod 400 = 0)"

definition year_len :: "int \<Rightarrow> int" where
  "year_len y = (if leap y then 366 else 365)"

definition month_len :: "int \<Rightarrow> int \<Rightarrow> int" where
  "month_len y m =
     (if m = 2 then (if leap y then 29 else 28)
      else if m \<in> {4, 6, 9, 11} then 30 else 31)"

text \<open>Days from January 1 of year 1 to January 1 of year \<open>y\<close>.\<close>

definition days_before_year :: "int \<Rightarrow> int" where
  "days_before_year y = (let p = y - 1 in 365 * p + p div 4 - p div 100 + p div 400)"

function days_before_month :: "int \<Rightarrow> int \<Rightarrow> int" where
  "days_before_month y m =
     (if m \<le> 1 then 0 else days_before_month y (m - 1) + month_len y (m - 1))"
  by pat_completeness auto
termination
  by (relation "measure (\<lambda>(y, m). nat m)") auto

declare days_before_month.simps [simp del]

definition days_of_civil :: "int \<Rightarrow> int \<Rightarrow> int \<Rightarrow> int" where
  "days_of_civil y m d = days_before_year y + days_before_month y m + (d - 1)"

lemma year_len_pos [simp]: "0 < year_len y"
  by (simp add: year_len_def)

lemma month_len_pos [simp]: "0 < month_len y m"
  by (simp add: month_len_def)

function find_year :: "int \<Rightarrow> int \<Rightarrow> int \<times> int" where
  "find_year y d = (if d < year_len y then (y, d) else find_year (y + 1) (d - year_len y))"
  by pat_completeness auto
termination
proof (relation "measure (\<lambda>(y, d). nat d)")
  fix y d :: int
  assume "\<not> d < year_len y"
  then show "((y + 1, d - year_len y), (y, d)) \<in> measure (\<lambda>(y, d). nat d)"
    using year_len_pos[of y] by (simp del: year_len_pos)
qed simp

declare find_year.simps [simp del]

function find_month :: "int \<Rightarrow> int \<Rightarrow> int \<Rightarrow> int \<times> int" where
  "find_month y m d =
     (if d < month_len y m \<or> 12 \<le> m then (m, d) else find_month y (m + 1) (d - month_len y m))"
  by pat_completeness auto
termination
  by (relation "measure (\<lambda>(y, m, d). nat (12 - m))") auto

declare find_month.simps [simp del]

text \<open>Year, month and day of a day number; whole periods of 400 years are skipped first.\<close>

definition civil_of_days :: "int \<Rightarrow> int \<times> int \<times> int" where
  "civil_of_days n =
     (case find_year (1 + 400 * (n div 146097)) (n mod 146097) of (y, r) \<Rightarrow>
        (case find_month y 1 r of (m, d) \<Rightarrow> (y, m, d + 1)))"

lemma days_before_year_Suc: "days_before_year (y + 1) = days_before_year y + year_len y"
proof -
  have *: "y div k = (y - 1) div k + (if y mod k = 0 then 1 else 0)" if "0 < k" for k :: int
  proof (cases "(y - 1) mod k + 1 < k")
    case True
    have "y = k * ((y - 1) div k) + ((y - 1) mod k + 1)" by simp
    moreover have "0 \<le> (y - 1) mod k" using that by simp
    ultimately have "y div k = (y - 1) div k" "y mod k = (y - 1) mod k + 1"
      using True
      by (metis add_nonneg_nonneg int_div_pos_eq zero_le_one, metis add_nonneg_nonneg int_mod_pos_eq zero_le_one)
    then show ?thesis using \<open>0 \<le> (y - 1) mod k\<close> by simp
  next
    case False
    have "(y - 1) mod k < k" using that by simp
    with False have "(y - 1) mod k + 1 = k" by simp
    then have "y = k * ((y - 1) div k) + k"
      using mult_div_mod_eq[of k "y - 1"] by linarith
    then have "y = k * ((y - 1) div k + 1) + 0"
      by (simp add: distrib_left)
    then have "y div k = (y - 1) div k + 1" "y mod k = 0"
      using that by (metis int_div_pos_eq order_refl, metis int_mod_pos_eq order_refl)
    then show ?thesis by simp
  qed
  have dvds: "y mod 400 = 0 \<Longrightarrow> y mod 100 = 0" "y mod 100 = 0 \<Longrightarrow> y mod 4 = 0"
    by (simp_all only: mod_eq_0_iff_dvd) (rule dvd_trans[rotated], assumption, simp)+
  have days: "days_before_year (y + 1) = 365 * y + y div 4 - y div 100 + y div 400"
    "days_before_year y = 365 * (y - 1) + (y - 1) div 4 - (y - 1) div 100 + (y - 1) div 400"
    by (simp_all only: days_before_year_def Let_def add_diff_cancel_right')
  have count: "365 * y + a' - b' + c' =
      365 * (y - 1) + a - b + c + (if p \<and> (\<not> q \<or> r) then 366 else 365)"
    if "a' = a + (if p then 1 else 0)" "b' = b + (if q then 1 else 0)"
      "c' = c + (if r then 1 else 0)" "r \<Longrightarrow> q" "q \<Longrightarrow> p" for a a' b b' c c' :: int and p q r
    using that by (cases p; cases q; cases r) auto
  show ?thesis
    unfolding days year_len_def leap_def
    by (rule count) (rule *[of 4] *[of 100] *[of 400] dvds; simp)+
qed

lemma days_before_year_era: "days_before_year (y + 400 * e) = days_before_year y + 146097 * e"
proof -
  have "y + 400 * e - 1 = (y - 1) + (100 * e) * 4" "y + 400 * e - 1 = (y - 1) + (4 * e) * 100"
    "y + 400 * e - 1 = (y - 1) + e * 400"
    by simp_all
  then have "(y + 400 * e - 1) div 4 = (y - 1) div 4 + 100 * e"
    "(y + 400 * e - 1) div 100 = (y - 1) div 100 + 4 * e"
    "(y + 400 * e - 1) div 400 = (y - 1) div 400 + e"
    by (metis div_mult_self1 add.commute zero_neq_numeral)+
  then show ?thesis by (simp add: days_before_year_def Let_def)
qed

lemma find_year_spec:
  assumes "find_year y d = (y', r)" "0 \<le> d"
  shows "days_before_year y' + r = days_before_year y + d \<and> 0 \<le> r \<and> r < year_len y' \<and> y \<le> y'"
  using assms
proof (induction y d rule: find_year.induct)
  case (1 y d)
  show ?case
  proof (cases "d < year_len y")
    case True
    with "1.prems" show ?thesis by (simp add: find_year.simps[of y d])
  next
    case False
    with "1.prems" have "find_year (y + 1) (d - year_len y) = (y', r)" "0 \<le> d - year_len y"
      by (simp_all add: find_year.simps[of y d])
    from "1.IH"[OF False this] show ?thesis by (simp add: days_before_year_Suc)
  qed
qed

lemma days_before_month_Suc:
  "1 \<le> m \<Longrightarrow> days_before_month y (m + 1) = days_before_month y m + month_len y m"
  by (subst days_before_month.simps) simp

lemma days_before_month_1 [simp]: "days_before_month y 1 = 0"
  by (subst days_before_month.simps) simp

lemma find_month_spec:
  assumes "find_month y m d = (m', r)" "0 \<le> d" "1 \<le> m" "m \<le> 12"
    and "days_before_month y m + d < year_len y"
  shows "days_before_month y m' + r = days_before_month y m + d \<and> 0 \<le> r \<and> m \<le> m' \<and> m' \<le> 12
    \<and> r < month_len y m'"
  using assms
proof (induction y m d rule: find_month.induct)
  case (1 y m d)
  have dec: "days_before_month y 12 + 31 = year_len y"
    by (simp add: days_before_month.simps month_len_def year_len_def)
  show ?case
  proof (cases "d < month_len y m \<or> 12 \<le> m")
    case True
    with "1.prems" have "m' = m" "r = d" by (simp_all add: find_month.simps[of y m d])
    moreover have "d < month_len y m"
      using True "1.prems" dec by (auto simp: month_len_def)
    ultimately show ?thesis using "1.prems" by simp
  next
    case False
    with "1.prems" have "find_month y (m + 1) (d - month_len y m) = (m', r)"
      by (simp add: find_month.simps[of y m d])
    from "1.IH"[OF False this] False "1.prems" show ?thesis
      by (simp add: days_before_month_Suc)
  qed
qed

lemma civil_of_days_spec:
  assumes "civil_of_days n = (y, m, d)"
  shows "days_of_civil y m d = n \<and> 1 \<le> m \<and> m \<le> 12 \<and> 1 \<le> d \<and> d \<le> month_len y m"
proof -
  obtain r where fy: "find_year (1 + 400 * (n div 146097)) (n mod 146097) = (y, r)"
    and fm: "find_month y 1 r = (m, d - 1)"
    using assms by (auto simp: civil_of_days_def split: prod.splits)
  have y: "days_before_year y + r = days_before_year (1 + 400 * (n div 146097)) + n mod 146097"
    "0 \<le> r" "r < year_len y"
    using find_year_spec[OF fy] by simp_all
  have "days_before_year (1 + 400 * (n div 146097)) = 146097 * (n div 146097)"
    by (subst days_before_year_era) (simp add: days_before_year_def)
  with y(1) have "days_before_year y + r = n" by simp
  with find_month_spec[OF fm y(2)] y(3) show ?thesis
    by (simp add: days_of_civil_def)
qed

section \<open>Formatting\<close>

text \<open>A number in exactly \<open>k\<close> decimal digits, and a decimal fraction without trailing zeros.\<close>

fun pad :: "nat \<Rightarrow> nat \<Rightarrow> string" where
  "pad 0 n = []"
| "pad (Suc k) n = pad k (n div 10) @ [digit (n mod 10)]"

definition rtrim0 :: "string \<Rightarrow> string" where
  "rtrim0 s = rev (dropWhile (\<lambda>c. c = CHR ''0'') (rev s))"

definition frac_str :: "nat \<Rightarrow> nat \<Rightarrow> string" where
  "frac_str k n = (if n = 0 then [] else CHR ''.'' # rtrim0 (pad k n))"

definition day_nanos :: int where "day_nanos = 86400000000000"

definition format_year :: "int \<Rightarrow> string" where
  "format_year y = (if y < 10000 then pad 4 (nat y) else dec (nat y))"

text \<open>
  \<open>t.UTC().Format(time.RFC3339Nano)\<close> for a time in year 1 or later.
\<close>

definition format_rfc3339nano :: "gtime \<Rightarrow> string" where
  "format_rfc3339nano t =
     (case civil_of_days (t div day_nanos) of (y, m, d) \<Rightarrow>
        let secs = nat ((t mod day_nanos) div second); ns = nat (t mod second) in
          format_year y @ ''-'' @ pad 2 (nat m) @ ''-'' @ pad 2 (nat d) @ ''T'' @
          pad 2 (secs div 3600) @ '':'' @ pad 2 (secs div 60 mod 60) @ '':'' @
          pad 2 (secs mod 60) @ frac_str 9 ns @ ''Z'')"

text \<open>\<open>Duration.String\<close>.\<close>

definition dur_abs :: "nat \<Rightarrow> string" where
  "dur_abs u =
     (if u < 1000 then dec u @ ''ns''
      else if u < 1000000 then dec (u div 1000) @ frac_str 3 (u mod 1000) @ [CHR 0xC2, CHR 0xB5] @ ''s''
      else if u < 1000000000 then dec (u div 1000000) @ frac_str 6 (u mod 1000000) @ ''ms''
      else
        let secs = u div 1000000000; mins = secs div 60; hours = mins div 60 in
          (if hours > 0 then dec hours @ ''h'' else []) @
          (if mins > 0 then dec (mins mod 60) @ ''m'' else []) @
          dec (secs mod 60) @ frac_str 9 (u mod 1000000000) @ ''s'')"

definition dur_string :: "duration \<Rightarrow> string" where
  "dur_string d =
     (if d = 0 then ''0s'' else if d < 0 then CHR ''-'' # dur_abs (nat (- d)) else dur_abs (nat d))"

section \<open>Parsing\<close>

text \<open>
  \<open>time.Parse(time.RFC3339Nano, s)\<close> on the strings RFC 3339 allows (the parser's fast
  path): every field is range checked, a fraction is cut to nine digits and a zone offset
  is subtracted.  The few strings outside RFC 3339 that \<open>time.Parse\<close> tolerates (an hour of
  one digit, a comma before the fraction) are errors here.
\<close>

definition slice :: "nat \<Rightarrow> nat \<Rightarrow> string \<Rightarrow> string" where
  "slice i j s = take (j - i) (drop i s)"

definition parse_field :: "string \<Rightarrow> int \<Rightarrow> int \<Rightarrow> int option" where
  "parse_field s lo hi =
     (if list_all is_digit s \<and> lo \<le> int (digits_val s) \<and> int (digits_val s) \<le> hi
      then Some (int (digits_val s)) else None)"

definition parse_nanos :: "string \<Rightarrow> int" where
  "parse_nanos ds = (let ds' = take 9 ds in int (digits_val ds' * 10 ^ (9 - length ds')))"

definition parse_frac :: "string \<Rightarrow> int \<times> string" where
  "parse_frac s =
     (if length s \<ge> 2 \<and> s ! 0 = CHR ''.'' \<and> is_digit (s ! 1)
      then (parse_nanos (takeWhile is_digit (tl s)), dropWhile is_digit (tl s)) else (0, s))"

definition parse_zone :: "string \<Rightarrow> int option" where
  "parse_zone s =
     (if s = ''Z'' then Some 0
      else if length s = 6 \<and> s ! 0 \<in> {CHR ''-'', CHR ''+''} \<and> s ! 3 = CHR '':''
      then (case (parse_field (slice 1 3 s) 0 23, parse_field (slice 4 6 s) 0 59) of
              (Some hh, Some mm) \<Rightarrow>
                Some ((if s ! 0 = CHR ''-'' then - 1 else 1) * ((hh * 60 + mm) * 60))
            | _ \<Rightarrow> None)
      else None)"

definition parse_date :: "string \<Rightarrow> int option" where
  "parse_date s =
     (case (parse_field (slice 0 4 s) 0 9999, parse_field (slice 5 7 s) 1 12) of
        (Some y, Some m) \<Rightarrow>
          (case parse_field (slice 8 10 s) 1 (month_len y m) of
             Some d \<Rightarrow> Some (days_of_civil y m d) | None \<Rightarrow> None)
      | _ \<Rightarrow> None)"

definition parse_clock :: "string \<Rightarrow> int option" where
  "parse_clock s =
     (case (parse_field (slice 11 13 s) 0 23, parse_field (slice 14 16 s) 0 59,
            parse_field (slice 17 19 s) 0 59) of
        (Some h, Some mi, Some se) \<Rightarrow> Some (h * 3600 + mi * 60 + se)
      | _ \<Rightarrow> None)"

definition parse_rfc3339nano :: "string \<Rightarrow> gtime option" where
  "parse_rfc3339nano s =
     (if length s < 19 \<or> s ! 4 \<noteq> CHR ''-'' \<or> s ! 7 \<noteq> CHR ''-'' \<or> s ! 10 \<noteq> CHR ''T'' \<or>
         s ! 13 \<noteq> CHR '':'' \<or> s ! 16 \<noteq> CHR '':'' then None
      else (case (parse_date s, parse_clock s) of
        (Some days, Some secs) \<Rightarrow>
          (case parse_frac (drop 19 s) of (ns, z) \<Rightarrow>
             (case parse_zone z of
                Some off \<Rightarrow> Some (days * day_nanos + (secs - off) * second + ns)
              | None \<Rightarrow> None))
      | _ \<Rightarrow> None))"

section \<open>Printing then parsing gives the time back\<close>

lemma length_pad [simp]: "length (pad k n) = k"
  by (induction k arbitrary: n) auto

lemma pad_digits [simp]: "list_all is_digit (pad k n)"
  by (induction k arbitrary: n) auto

lemma digits_val_snoc [simp]: "digits_val (s @ [c]) = digits_val s * 10 + digit_val c"
  by (simp add: digits_val_def)

lemma digits_val_Nil [simp]: "digits_val [] = 0"
  by (simp add: digits_val_def)

lemma digits_val_pad: "n < 10 ^ k \<Longrightarrow> digits_val (pad k n) = n"
proof (induction k arbitrary: n)
  case (Suc k)
  then have "n div 10 < 10 ^ k" by (simp add: less_mult_imp_div_less mult.commute)
  with Suc show ?case by simp
qed simp

lemma parse_field_pad:
  "n < 10 ^ k \<Longrightarrow> lo \<le> int n \<Longrightarrow> int n \<le> hi \<Longrightarrow> parse_field (pad k n) lo hi = Some (int n)"
  by (simp add: parse_field_def digits_val_pad)

lemma digits_val_zeros: "digits_val (s @ replicate k (CHR ''0'')) = digits_val s * 10 ^ k"
proof (induction k)
  case (Suc k)
  have "s @ replicate (Suc k) (CHR ''0'') = (s @ replicate k (CHR ''0'')) @ [CHR ''0'']"
    by (simp add: replicate_append_same)
  with Suc show ?case by (simp only: digits_val_snoc) (simp add: digit_val_def)
qed simp

lemma rtrim0_decomp: "\<exists>k. s = rtrim0 s @ replicate k (CHR ''0'')"
proof -
  have "rev s = takeWhile (\<lambda>c. c = CHR ''0'') (rev s) @ dropWhile (\<lambda>c. c = CHR ''0'') (rev s)"
    by simp
  then have "s = rtrim0 s @ rev (takeWhile (\<lambda>c. c = CHR ''0'') (rev s))"
    unfolding rtrim0_def by (metis rev_append rev_rev_ident)
  moreover have "takeWhile (\<lambda>c. c = CHR ''0'') (rev s) =
      replicate (length (takeWhile (\<lambda>c. c = CHR ''0'') (rev s))) (CHR ''0'')"
    by (rule replicate_length_same[symmetric]) (auto dest: set_takeWhileD)
  ultimately show ?thesis by (metis rev_replicate)
qed

lemma rtrim0_pad:
  assumes "n < 10 ^ k"
  shows "digits_val (rtrim0 (pad k n)) * 10 ^ (k - length (rtrim0 (pad k n))) = n"
    and "length (rtrim0 (pad k n)) \<le> k" and "list_all is_digit (rtrim0 (pad k n))"
    and "n \<noteq> 0 \<Longrightarrow> rtrim0 (pad k n) \<noteq> []"
proof -
  obtain j where j: "pad k n = rtrim0 (pad k n) @ replicate j (CHR ''0'')"
    using rtrim0_decomp by blast
  have len: "k = length (rtrim0 (pad k n)) + j"
    using arg_cong[OF j, of length] by simp
  have "digits_val (pad k n) = digits_val (rtrim0 (pad k n)) * 10 ^ j"
    by (subst j) (rule digits_val_zeros)
  with digits_val_pad[OF assms] len
  show v: "digits_val (rtrim0 (pad k n)) * 10 ^ (k - length (rtrim0 (pad k n))) = n"
    by (metis add_diff_cancel_left')
  show "length (rtrim0 (pad k n)) \<le> k" using len by simp
  show "list_all is_digit (rtrim0 (pad k n))"
    using pad_digits[of k n] by (subst (asm) j) simp
  show "rtrim0 (pad k n) \<noteq> []" if "n \<noteq> 0" using v that by auto
qed

lemma parse_frac_frac_str:
  assumes "n < 10 ^ 9"
  shows "parse_frac (frac_str 9 n @ ''Z'') = (int n, ''Z'')"
proof (cases "n = 0")
  case True
  then show ?thesis by (simp add: parse_frac_def frac_str_def)
next
  case False
  let ?r = "rtrim0 (pad 9 n)"
  note r = rtrim0_pad[OF assms]
  have all: "c \<in> set ?r \<Longrightarrow> is_digit c" for c using r(3) by (simp add: list_all_iff)
  have Z: "\<not> is_digit (CHR ''Z'')" by (simp add: is_digit_def)
  have tw: "takeWhile is_digit (?r @ ''Z'') = ?r" "dropWhile is_digit (?r @ ''Z'') = ''Z''"
    using all Z by (simp_all add: takeWhile_append2 dropWhile_append2)
  obtain c cs where c: "?r = c # cs" using r(4)[OF False] by (cases ?r) auto
  have "take 9 ?r = ?r" using r(2) by simp
  then have "parse_nanos ?r = int n"
    by (simp only: parse_nanos_def Let_def r(1))
  with tw all[of c] show ?thesis
    by (simp add: parse_frac_def frac_str_def False c)
qed

text \<open>The times whose year has four digits.\<close>

definition max_rfc3339 :: gtime where
  "max_rfc3339 = 315537897600 * second"

lemma max_rfc3339_eq: "max_rfc3339 = days_before_year 10000 * day_nanos"
  by (simp add: max_rfc3339_def days_before_year_def day_nanos_def second_def)

lemma days_before_year_less: "a < b \<Longrightarrow> days_before_year a < days_before_year b"
proof (induction "nat (b - a)" arbitrary: b)
  case (Suc n)
  have step: "days_before_year (b - 1) < days_before_year b"
    using days_before_year_Suc[of "b - 1"] year_len_pos[of "b - 1"] by simp
  show ?case
  proof (cases "a < b - 1")
    case True
    then have "days_before_year a < days_before_year (b - 1)"
      using Suc.hyps by (intro Suc.hyps(1)) auto
    with step show ?thesis by simp
  next
    case False
    with Suc.prems have "a = b - 1" by simp
    with step show ?thesis by simp
  qed
qed simp

lemma civil_year_range:
  assumes "0 \<le> n" "n < days_before_year 10000" "civil_of_days n = (y, m, d)"
  shows "0 \<le> y \<and> y < 10000"
proof -
  obtain r where "find_year (1 + 400 * (n div 146097)) (n mod 146097) = (y, r)"
    using assms(3) by (auto simp: civil_of_days_def split: prod.splits)
  then have "1 + 400 * (n div 146097) \<le> y" using find_year_spec by simp
  moreover have "0 \<le> n div 146097" using assms(1) by simp
  ultimately have y0: "0 \<le> y" by linarith
  have spec: "days_of_civil y m d = n" "1 \<le> m" "1 \<le> d"
    using civil_of_days_spec[OF assms(3)] by simp_all
  have "0 \<le> days_before_month y m"
  proof (induction y m rule: days_before_month.induct)
    case (1 y m)
    have "0 \<le> month_len y (m - 1)" by (simp add: less_imp_le)
    with 1 show ?case by (cases "m \<le> 1") (simp_all add: days_before_month.simps[of y m])
  qed
  with spec have le: "days_before_year y \<le> n" by (simp add: days_of_civil_def)
  have "\<not> 10000 \<le> y"
  proof
    assume "10000 \<le> y"
    then have "days_before_year 10000 \<le> days_before_year y"
      using days_before_year_less[of 10000 y] by (cases "y = 10000") auto
    with le assms(2) show False by simp
  qed
  with y0 show ?thesis by simp
qed

lemma time_of_day_split:
  assumes "secs = nat ((t mod day_nanos) div second)" "ns = nat (t mod second)"
  shows "t = t div day_nanos * day_nanos + int secs * second + int ns" "secs < 86400" "ns < 10 ^ 9"
proof -
  have dn: "0 < day_nanos" "day_nanos = 86400 * second" "0 < second"
    by (simp_all add: day_nanos_def second_def)
  have a: "0 \<le> t mod day_nanos" "t mod day_nanos < day_nanos" using dn by simp_all
  have b: "t mod day_nanos mod second = t mod second"
    by (rule mod_mod_cancel) (simp add: dn(2))
  have s: "int secs = (t mod day_nanos) div second" "int ns = t mod second"
    using a dn(3) by (simp_all add: assms pos_imp_zdiv_nonneg_iff)
  have "t mod day_nanos = int secs * second + int ns" unfolding s b[symmetric] by simp
  then show "t = t div day_nanos * day_nanos + int secs * second + int ns"
    using div_mult_mod_eq[of t day_nanos] by linarith
  have "int secs < 86400" unfolding s using a dn by (simp add: int_div_less)
  then show "secs < 86400" by simp
  have "int ns < second" unfolding s using dn(3) by simp
  then show "ns < 10 ^ 9" by (simp add: second_def)
qed

text \<open>Hours, minutes and seconds of a day, written with two digits each and read back.\<close>

lemma parse_clock_pad:
  assumes "secs < 86400" "slice 11 13 str = pad 2 (secs div 3600)" "slice 14 16 str = pad 2 (secs div 60 mod 60)"
    and "slice 17 19 str = pad 2 (secs mod 60)"
  shows "parse_clock str = Some (int secs)"
proof -
  define a b c where "a = secs div 3600" and "b = secs div 60 mod 60" and "c = secs mod 60"
  have rng: "a < 24" "b < 60" "c < 60"
    using assms(1) by (simp_all add: a_def b_def c_def div_less_iff_less_mult)
  have "secs div 3600 = secs div 60 div 60" by (simp add: div_mult2_eq[symmetric])
  then have "a * 60 + b = secs div 60" unfolding a_def b_def by (simp only: div_mult_mod_eq)
  then have "(a * 60 + b) * 60 + c = secs" unfolding c_def by (simp only: div_mult_mod_eq)
  then have "a * 3600 + b * 60 + c = secs" by (simp add: add_mult_distrib)
  from arg_cong[OF this, of int] have "int a * 3600 + int b * 60 + int c = int secs" by simp
  moreover have "parse_clock str = Some (int a * 3600 + int b * 60 + int c)"
    using rng unfolding parse_clock_def assms(2-4) a_def[symmetric] b_def[symmetric] c_def[symmetric]
    by (simp add: parse_field_pad)
  ultimately show ?thesis by simp
qed

text \<open>Where the parts of a formatted time are.\<close>

lemma rfc3339_slices:
  assumes "str = Y @ ''-'' @ M @ ''-'' @ D @ ''T'' @ H @ '':'' @ MI @ '':'' @ S @ rest"
    and "length Y = 4" "length M = 2" "length D = 2" "length H = 2" "length MI = 2" "length S = 2"
  shows "slice 0 4 str = Y" "slice 5 7 str = M" "slice 8 10 str = D" "slice 11 13 str = H"
    "slice 14 16 str = MI" "slice 17 19 str = S" "drop 19 str = rest"
    "str ! 4 = CHR ''-''" "str ! 7 = CHR ''-''" "str ! 10 = CHR ''T''" "str ! 13 = CHR '':''"
    "str ! 16 = CHR '':''" "\<not> length str < 19"
  unfolding assms(1) slice_def by (simp_all add: assms(2-) nth_append)

lemma parse_format_rfc3339nano:
  assumes "0 \<le> t" "t < max_rfc3339"
  shows "parse_rfc3339nano (format_rfc3339nano t) = Some t"
proof -
  obtain y m d where ymd: "civil_of_days (t div day_nanos) = (y, m, d)"
    by (cases "civil_of_days (t div day_nanos)") auto
  define secs where "secs = nat ((t mod day_nanos) div second)"
  define ns where "ns = nat (t mod second)"
  have dn: "0 < day_nanos" by (simp add: day_nanos_def second_def)
  have n: "0 \<le> t div day_nanos" "t div day_nanos < days_before_year 10000"
    using assms dn unfolding max_rfc3339_eq by (simp_all add: pos_imp_zdiv_nonneg_iff int_div_less)
  note yr = civil_year_range[OF n ymd] and spec = civil_of_days_spec[OF ymd]
    and t = time_of_day_split[OF secs_def ns_def]
  have m31: "month_len y m \<le> 31" by (simp add: month_len_def)
  define str where "str = pad 4 (nat y) @ ''-'' @ pad 2 (nat m) @ ''-'' @ pad 2 (nat d) @ ''T'' @
     pad 2 (secs div 3600) @ '':'' @ pad 2 (secs div 60 mod 60) @ '':'' @ pad 2 (secs mod 60) @ frac_str 9 ns @ ''Z''"
  have fmt: "format_rfc3339nano t = str"
    using yr by (simp add: format_rfc3339nano_def ymd format_year_def Let_def str_def secs_def ns_def)
  note slices = rfc3339_slices[OF str_def length_pad length_pad length_pad length_pad length_pad length_pad]
  have date: "parse_date str = Some (t div day_nanos)"
    using yr spec m31 by (simp add: parse_date_def slices parse_field_pad nat_less_iff)
  have clock: "parse_clock str = Some (int secs)" by (rule parse_clock_pad[OF t(2) slices(4-6)])
  show ?thesis
    unfolding fmt using t(1)
    by (simp add: parse_rfc3339nano_def slices date clock parse_frac_frac_str[OF t(3)] parse_zone_def)
qed

lemma pad_chars: "c \<in> set (pad k n) \<Longrightarrow> is_digit c"
  using pad_digits[of k n] by (simp add: list_all_iff)

end
