(* ===== verification/Kernel.thy ===== *)
theory Kernel
  imports GoPath GoTime
begin

text \<open>
  The operating system as the code sees it through Go's \<open>os\<close> and \<open>syscall\<close> packages:
  a state with names, inodes, open files, advisory locks, processes and a clock, and one
  function per system call.  Go code is a value of the datatype \<open>prog\<close>, a tree of system
  calls in the order the code issues them.  \<open>run\<close> executes a program alone against a
  schedule: before each call the environment (other processes, the clock) may change the
  state, and the call may be made to fail.  \<open>exec1\<close> executes one call, and is what an
  interleaving of several programs is made of.
\<close>

section \<open>State\<close>

datatype entry = DirEntry | FileEntry nat

record world =
  names :: "(string \<times> entry) list"          \<comment> \<open>path to directory or inode\<close>
  inodes :: "nat \<Rightarrow> string"                  \<comment> \<open>file contents\<close>
  next_ino :: nat
  fds :: "(nat \<times> (int \<times> nat)) list"          \<comment> \<open>open file to owning process and inode\<close>
  next_fd :: nat
  flocks :: "(nat \<times> nat) list"               \<comment> \<open>inode to the open file that locked it\<close>
  temp_seq :: nat                            \<comment> \<open>next candidate of \<open>os.CreateTemp\<close>\<close>
  clock :: gtime
  kill_res :: "int \<Rightarrow> errno option"          \<comment> \<open>what \<open>kill(pid, 0)\<close> reports\<close>
  host_res :: "gerr + string"                \<comment> \<open>what \<open>os.Hostname\<close> reports\<close>
  ctx_err :: "gerr option"                   \<comment> \<open>what \<open>ctx.Err()\<close> reports to the caller\<close>
  boot_cache :: "int \<Rightarrow> (gerr + gtime) option" \<comment> \<open>per process: the \<open>sync.Once\<close> of \<open>bootTime\<close>\<close>

type_synonym fault = "errno option"
type_synonym env = "((world \<Rightarrow> world) \<times> fault) list"

definition lookup :: "world \<Rightarrow> string \<Rightarrow> entry option" where
  "lookup w p = map_of (names w) p"

definition file_content :: "world \<Rightarrow> string \<Rightarrow> string option" where
  "file_content w p = (case lookup w p of Some (FileEntry i) \<Rightarrow> Some (inodes w i) | _ \<Rightarrow> None)"

definition is_dir :: "world \<Rightarrow> string \<Rightarrow> bool" where
  "is_dir w p \<longleftrightarrow> lookup w p = Some DirEntry"

section \<open>System calls\<close>

text \<open>Each takes the fault of the schedule and returns the new state and the response.\<close>

definition open_fd :: "int \<Rightarrow> nat \<Rightarrow> world \<Rightarrow> world \<times> (errno + nat)" where
  "open_fd me i w =
     (w\<lparr>fds := AList.update (next_fd w) (me, i) (fds w), next_fd := Suc (next_fd w)\<rparr>,
      Inr (next_fd w))"

definition new_file :: "int \<Rightarrow> string \<Rightarrow> world \<Rightarrow> world \<times> (errno + nat)" where
  "new_file me p w =
     open_fd me (next_ino w)
       (w\<lparr>names := AList.update p (FileEntry (next_ino w)) (names w),
          inodes := (inodes w)(next_ino w := []), next_ino := Suc (next_ino w)\<rparr>)"

definition sys_open_excl :: "int \<Rightarrow> string \<Rightarrow> fault \<Rightarrow> world \<Rightarrow> world \<times> (errno + nat)" where
  "sys_open_excl me p f w =
     (case f of Some e \<Rightarrow> (w, Inl e) | None \<Rightarrow>
        (case lookup w p of
           Some _ \<Rightarrow> (w, Inl EEXIST)
         | None \<Rightarrow> if is_dir w (path_dir p) then new_file me p w else (w, Inl ENOENT)))"

definition sys_open_rw :: "int \<Rightarrow> string \<Rightarrow> fault \<Rightarrow> world \<Rightarrow> world \<times> (errno + nat)" where
  "sys_open_rw me p f w =
     (case f of Some e \<Rightarrow> (w, Inl e) | None \<Rightarrow>
        (case lookup w p of
           Some (FileEntry i) \<Rightarrow> open_fd me i w
         | Some DirEntry \<Rightarrow> (w, Inl EISDIR)
         | None \<Rightarrow> if is_dir w (path_dir p) then new_file me p w else (w, Inl ENOENT)))"

text \<open>
  A directory can be opened for reading, and reading from it fails; it is opened as the
  inode \<open>0\<close>, which no file uses.
\<close>

definition sys_open_rd :: "int \<Rightarrow> string \<Rightarrow> fault \<Rightarrow> world \<Rightarrow> world \<times> (errno + nat)" where
  "sys_open_rd me p f w =
     (case f of Some e \<Rightarrow> (w, Inl e) | None \<Rightarrow>
        (case lookup w p of
           Some (FileEntry i) \<Rightarrow> open_fd me i w
         | Some DirEntry \<Rightarrow> open_fd me 0 w
         | None \<Rightarrow> (w, Inl ENOENT)))"

definition sys_read_all :: "nat \<Rightarrow> fault \<Rightarrow> world \<Rightarrow> world \<times> (errno + string)" where
  "sys_read_all fd f w =
     (case f of Some e \<Rightarrow> (w, Inl e) | None \<Rightarrow>
        (case map_of (fds w) fd of
           Some (_, i) \<Rightarrow> if i = 0 then (w, Inl EISDIR) else (w, Inr (inodes w i))
         | None \<Rightarrow> (w, Inl EBADF)))"

definition sys_write :: "nat \<Rightarrow> string \<Rightarrow> fault \<Rightarrow> world \<Rightarrow> world \<times> fault" where
  "sys_write fd s f w =
     (case f of Some e \<Rightarrow> (w, Some e) | None \<Rightarrow>
        (case map_of (fds w) fd of
           Some (_, i) \<Rightarrow> (w\<lparr>inodes := (inodes w)(i := inodes w i @ s)\<rparr>, None)
         | None \<Rightarrow> (w, Some EBADF)))"

text \<open>Closing a file drops the advisory lock it holds, also when \<open>close\<close> reports an error.\<close>

definition drop_fd :: "nat \<Rightarrow> world \<Rightarrow> world" where
  "drop_fd fd w = w\<lparr>fds := AList.delete fd (fds w),
     flocks := filter (\<lambda>(i, g). g \<noteq> fd) (flocks w)\<rparr>"

definition sys_close :: "nat \<Rightarrow> fault \<Rightarrow> world \<Rightarrow> world \<times> fault" where
  "sys_close fd f w =
     (case map_of (fds w) fd of
        None \<Rightarrow> (w, Some EBADF)
      | Some _ \<Rightarrow> (drop_fd fd w, f))"

definition dir_entries :: "world \<Rightarrow> string \<Rightarrow> (string \<times> entry) list" where
  "dir_entries w d = filter (\<lambda>(p, e). p \<noteq> d \<and> path_dir p = d) (names w)"

definition sys_remove :: "string \<Rightarrow> fault \<Rightarrow> world \<Rightarrow> world \<times> fault" where
  "sys_remove p f w =
     (case f of Some e \<Rightarrow> (w, Some e) | None \<Rightarrow>
        (case lookup w p of
           None \<Rightarrow> (w, Some ENOENT)
         | Some (FileEntry _) \<Rightarrow> (w\<lparr>names := AList.delete p (names w)\<rparr>, None)
         | Some DirEntry \<Rightarrow>
             if dir_entries w p = [] then (w\<lparr>names := AList.delete p (names w)\<rparr>, None)
             else (w, Some ENOTEMPTY)))"

text \<open>\<open>rename\<close> of a file: it replaces an existing file and fails on a directory.\<close>

definition sys_rename :: "string \<Rightarrow> string \<Rightarrow> fault \<Rightarrow> world \<Rightarrow> world \<times> fault" where
  "sys_rename p q f w =
     (case f of Some e \<Rightarrow> (w, Some e) | None \<Rightarrow>
        (case (lookup w p, lookup w q) of
           (Some (FileEntry i), Some DirEntry) \<Rightarrow> (w, Some EEXIST)
         | (Some (FileEntry i), _) \<Rightarrow>
             (w\<lparr>names := AList.update q (FileEntry i) (AList.delete p (names w))\<rparr>, None)
         | _ \<Rightarrow> (w, Some ENOENT)))"

fun try_temp :: "(string \<times> entry) list \<Rightarrow> string \<Rightarrow> nat \<Rightarrow> nat \<Rightarrow> nat option" where
  "try_temp ns pre s n =
     (if n = 0 then None
      else if map_of ns (pre @ dec s) = None then Some s
      else try_temp ns pre (Suc s) (n - 1))"

declare try_temp.simps [simp del]

text \<open>
  \<open>os.CreateTemp(dir, prefix*)\<close>: up to 10000 candidate names, each created exclusively.
\<close>

definition sys_create_temp ::
  "int \<Rightarrow> string \<Rightarrow> string \<Rightarrow> fault \<Rightarrow> world \<Rightarrow> world \<times> (errno + nat \<times> string)" where
  "sys_create_temp me dir pre f w =
     (case f of Some e \<Rightarrow> (w, Inl e) | None \<Rightarrow>
        if \<not> is_dir w dir then (w, Inl ENOENT)
        else (case try_temp (names w) (join_prefix dir @ pre) (temp_seq w) 10000 of
           None \<Rightarrow> (w, Inl EEXIST)
         | Some s \<Rightarrow>
             (case new_file me (join_prefix dir @ pre @ dec s) (w\<lparr>temp_seq := Suc s\<rparr>) of
                (w', Inr fd) \<Rightarrow> (w', Inr (fd, join_prefix dir @ pre @ dec s))
              | (w', Inl e) \<Rightarrow> (w', Inl e))))"

definition ancestors :: "string \<Rightarrow> string list" where
  "ancestors d =
     (let c = path_clean d; st = rev (clean_stack d) in
        (if rooted d then ''/'' else ''.'') #
        map (\<lambda>k. (if rooted d then ''/'' else []) @ join_with ''/'' (take (Suc k) st))
          [0..<length st])"

definition sys_mkdir_all :: "string \<Rightarrow> fault \<Rightarrow> world \<Rightarrow> world \<times> fault" where
  "sys_mkdir_all d f w =
     (case f of Some e \<Rightarrow> (w, Some e) | None \<Rightarrow>
        if d = [] then (w, Some ENOENT)
        else if is_dir w (path_clean d) then (w, None)
        else if list_ex (\<lambda>p. case lookup w p of Some (FileEntry _) \<Rightarrow> True | _ \<Rightarrow> False) (ancestors d)
        then (w, Some ENOTDIR)
        else (w\<lparr>names := fold (\<lambda>p. AList.update p DirEntry) (ancestors d) (names w)\<rparr>, None))"

definition sys_flock :: "nat \<Rightarrow> fault \<Rightarrow> world \<Rightarrow> world \<times> fault" where
  "sys_flock fd f w =
     (case f of Some e \<Rightarrow> (w, Some e) | None \<Rightarrow>
        (case map_of (fds w) fd of
           None \<Rightarrow> (w, Some EBADF)
         | Some (_, i) \<Rightarrow>
             (case map_of (flocks w) i of
                Some g \<Rightarrow> if g = fd then (w, None) else (w, Some EWOULDBLOCK)
              | None \<Rightarrow> (w\<lparr>flocks := (i, fd) # flocks w\<rparr>, None))))"

text \<open>\<open>os.ReadDir\<close>: the entries of a directory, by name, with their kind.\<close>

definition base_name :: "string \<Rightarrow> string" where
  "base_name p = rev (takeWhile (\<lambda>c. c \<noteq> CHR ''/'') (rev p))"

definition char_le :: "char \<Rightarrow> char \<Rightarrow> bool" where
  "char_le a b \<longleftrightarrow> (of_char a :: nat) \<le> of_char b"

fun str_le :: "string \<Rightarrow> string \<Rightarrow> bool" where
  "str_le [] t = True"
| "str_le (c # s) [] = False"
| "str_le (c # s) (d # t) = (if c = d then str_le s t else char_le c d)"

fun insert_entry :: "string \<times> bool \<Rightarrow> (string \<times> bool) list \<Rightarrow> (string \<times> bool) list" where
  "insert_entry x [] = [x]"
| "insert_entry x (y # ys) = (if str_le (fst x) (fst y) then x # y # ys else y # insert_entry x ys)"

definition sys_read_dir :: "string \<Rightarrow> fault \<Rightarrow> world \<Rightarrow> world \<times> (errno + (string \<times> bool) list)" where
  "sys_read_dir d f w =
     (case f of Some e \<Rightarrow> (w, Inl e) | None \<Rightarrow>
        (case lookup w (path_clean d) of
           None \<Rightarrow> (w, Inl ENOENT)
         | Some (FileEntry _) \<Rightarrow> (w, Inl ENOTDIR)
         | Some DirEntry \<Rightarrow>
             (w, Inr (foldr insert_entry
                (map (\<lambda>(p, e). (base_name p, e = DirEntry)) (dir_entries w (path_clean d))) []))))"

text \<open>
  \<open>kill(pid, 0)\<close>, or \<open>OpenProcess\<close> on Windows: the answer is the state's, which the
  environment sets; the schedule's fault does not change it.
\<close>

definition sys_kill :: "int \<Rightarrow> fault \<Rightarrow> world \<Rightarrow> world \<times> fault" where
  "sys_kill pid f w = (w, kill_res w pid)"

text \<open>The end of a process: the kernel closes its open files.\<close>

definition owned_fds :: "int \<Rightarrow> world \<Rightarrow> nat list" where
  "owned_fds me w = map fst (filter (\<lambda>(fd, (p, i)). p = me) (fds w))"

definition process_exit :: "int \<Rightarrow> world \<Rightarrow> world" where
  "process_exit me w =
     (fold drop_fd (owned_fds me w) w)\<lparr>kill_res := (kill_res w)(me := Some ESRCH)\<rparr>"

section \<open>Programs\<close>

datatype 'a prog =
    Ret 'a
  | Getpid "int \<Rightarrow> 'a prog"
  | CtxErr "err \<Rightarrow> 'a prog"
  | Now "gtime \<Rightarrow> 'a prog"
  | Hostname "gerr + string \<Rightarrow> 'a prog"
  | BootOnce "(gerr + gtime) option \<Rightarrow> 'a prog"
  | SetBoot "gerr + gtime" "'a prog"
  | Kill0 int "fault \<Rightarrow> 'a prog"
  | MkdirAll string "fault \<Rightarrow> 'a prog"
  | OpenExcl string "errno + nat \<Rightarrow> 'a prog"
  | OpenRW string "errno + nat \<Rightarrow> 'a prog"
  | OpenRd string "errno + nat \<Rightarrow> 'a prog"
  | CreateTemp string string "errno + nat \<times> string \<Rightarrow> 'a prog"
  | ReadAll nat "errno + string \<Rightarrow> 'a prog"
  | WriteFd nat string "fault \<Rightarrow> 'a prog"
  | CloseFd nat "fault \<Rightarrow> 'a prog"
  | RemovePath string "fault \<Rightarrow> 'a prog"
  | RenamePath string string "fault \<Rightarrow> 'a prog"
  | FlockNB nat "fault \<Rightarrow> 'a prog"
  | ReadDir string "errno + (string \<times> bool) list \<Rightarrow> 'a prog"

primrec exec1 :: "int \<Rightarrow> 'a prog \<Rightarrow> fault \<Rightarrow> world \<Rightarrow> world \<times> 'a prog" where
  "exec1 me (Ret a) f w = (w, Ret a)"
| "exec1 me (Getpid k) f w = (w, k me)"
| "exec1 me (CtxErr k) f w = (w, k (ctx_err w))"
| "exec1 me (Now k) f w = (w, k (clock w))"
| "exec1 me (Hostname k) f w =
     (w, k (case f of Some e \<Rightarrow> Inl (Errno e) | None \<Rightarrow> host_res w))"
| "exec1 me (BootOnce k) f w = (w, k (boot_cache w me))"
| "exec1 me (SetBoot r k) f w = (w\<lparr>boot_cache := (boot_cache w)(me := Some r)\<rparr>, k)"
| "exec1 me (Kill0 pid k) f w = map_prod id k (sys_kill pid f w)"
| "exec1 me (MkdirAll d k) f w = map_prod id k (sys_mkdir_all d f w)"
| "exec1 me (OpenExcl p k) f w = map_prod id k (sys_open_excl me p f w)"
| "exec1 me (OpenRW p k) f w = map_prod id k (sys_open_rw me p f w)"
| "exec1 me (OpenRd p k) f w = map_prod id k (sys_open_rd me p f w)"
| "exec1 me (CreateTemp d p k) f w = map_prod id k (sys_create_temp me d p f w)"
| "exec1 me (ReadAll fd k) f w = map_prod id k (sys_read_all fd f w)"
| "exec1 me (WriteFd fd s k) f w = map_prod id k (sys_write fd s f w)"
| "exec1 me (CloseFd fd k) f w = map_prod id k (sys_close fd f w)"
| "exec1 me (RemovePath p k) f w = map_prod id k (sys_remove p f w)"
| "exec1 me (RenamePath p q k) f w = map_prod id k (sys_rename p q f w)"
| "exec1 me (FlockNB fd k) f w = map_prod id k (sys_flock fd f w)"
| "exec1 me (ReadDir d k) f w = map_prod id k (sys_read_dir d f w)"

text \<open>
  The head of the schedule: the environment's change before the call, and the call's fault.
  An empty schedule is a quiet environment in which no call is made to fail.
\<close>

definition tick_env :: "env \<Rightarrow> world \<Rightarrow> world" where
  "tick_env es w = (case es of [] \<Rightarrow> w | (g, f) # es' \<Rightarrow> g w)"

definition tick_fault :: "env \<Rightarrow> fault" where
  "tick_fault es = (case es of [] \<Rightarrow> None | (g, f) # es' \<Rightarrow> f)"

definition tick_rest :: "env \<Rightarrow> env" where
  "tick_rest es = (case es of [] \<Rightarrow> [] | e # es' \<Rightarrow> es')"

lemmas tick_defs = tick_env_def tick_fault_def tick_rest_def

lemma tick_Nil [simp]: "tick_env [] w = w" "tick_fault [] = None" "tick_rest [] = []"
  by (simp_all add: tick_defs)

lemma tick_Cons [simp]:
  "tick_env ((g, f) # es) w = g w" "tick_fault ((g, f) # es) = f" "tick_rest ((g, f) # es) = es"
  by (simp_all add: tick_defs)

type_synonym 'a outcome = "'a \<times> env \<times> world"

definition resume :: "('r \<Rightarrow> env \<Rightarrow> world \<Rightarrow> 'b outcome) \<Rightarrow> env \<Rightarrow> world \<times> 'r \<Rightarrow> 'b outcome" where
  "resume k es p = k (snd p) (tick_rest es) (fst p)"

primrec run :: "int \<Rightarrow> 'a prog \<Rightarrow> env \<Rightarrow> world \<Rightarrow> 'a outcome" where
  "run me (Ret a) es w = (a, es, w)"
| "run me (Getpid k) es w = resume (\<lambda>r. run me (k r)) es (tick_env es w, me)"
| "run me (CtxErr k) es w =
     resume (\<lambda>r. run me (k r)) es (tick_env es w, ctx_err (tick_env es w))"
| "run me (Now k) es w =
     resume (\<lambda>r. run me (k r)) es (tick_env es w, clock (tick_env es w))"
| "run me (Hostname k) es w =
     resume (\<lambda>r. run me (k r)) es (tick_env es w,
       case tick_fault es of Some e \<Rightarrow> Inl (Errno e) | None \<Rightarrow> host_res (tick_env es w))"
| "run me (BootOnce k) es w =
     resume (\<lambda>r. run me (k r)) es (tick_env es w, boot_cache (tick_env es w) me)"
| "run me (SetBoot r k) es w =
     run me k (tick_rest es)
       ((tick_env es w)\<lparr>boot_cache := (boot_cache (tick_env es w))(me := Some r)\<rparr>)"
| "run me (Kill0 pid k) es w =
     resume (\<lambda>r. run me (k r)) es (sys_kill pid (tick_fault es) (tick_env es w))"
| "run me (MkdirAll d k) es w =
     resume (\<lambda>r. run me (k r)) es (sys_mkdir_all d (tick_fault es) (tick_env es w))"
| "run me (OpenExcl p k) es w =
     resume (\<lambda>r. run me (k r)) es (sys_open_excl me p (tick_fault es) (tick_env es w))"
| "run me (OpenRW p k) es w =
     resume (\<lambda>r. run me (k r)) es (sys_open_rw me p (tick_fault es) (tick_env es w))"
| "run me (OpenRd p k) es w =
     resume (\<lambda>r. run me (k r)) es (sys_open_rd me p (tick_fault es) (tick_env es w))"
| "run me (CreateTemp d p k) es w =
     resume (\<lambda>r. run me (k r)) es (sys_create_temp me d p (tick_fault es) (tick_env es w))"
| "run me (ReadAll fd k) es w =
     resume (\<lambda>r. run me (k r)) es (sys_read_all fd (tick_fault es) (tick_env es w))"
| "run me (WriteFd fd s k) es w =
     resume (\<lambda>r. run me (k r)) es (sys_write fd s (tick_fault es) (tick_env es w))"
| "run me (CloseFd fd k) es w =
     resume (\<lambda>r. run me (k r)) es (sys_close fd (tick_fault es) (tick_env es w))"
| "run me (RemovePath p k) es w =
     resume (\<lambda>r. run me (k r)) es (sys_remove p (tick_fault es) (tick_env es w))"
| "run me (RenamePath p q k) es w =
     resume (\<lambda>r. run me (k r)) es (sys_rename p q (tick_fault es) (tick_env es w))"
| "run me (FlockNB fd k) es w =
     resume (\<lambda>r. run me (k r)) es (sys_flock fd (tick_fault es) (tick_env es w))"
| "run me (ReadDir d k) es w =
     resume (\<lambda>r. run me (k r)) es (sys_read_dir d (tick_fault es) (tick_env es w))"

lemma resume_simp [simp]: "resume k es (w, r) = k r (tick_rest es) w"
  by (simp add: resume_def)

text \<open>Sequential composition.\<close>

primrec bind :: "'a prog \<Rightarrow> ('a \<Rightarrow> 'b prog) \<Rightarrow> 'b prog" where
  "bind (Ret a) c = c a"
| "bind (Getpid k) c = Getpid (\<lambda>r. bind (k r) c)"
| "bind (CtxErr k) c = CtxErr (\<lambda>r. bind (k r) c)"
| "bind (Now k) c = Now (\<lambda>r. bind (k r) c)"
| "bind (Hostname k) c = Hostname (\<lambda>r. bind (k r) c)"
| "bind (BootOnce k) c = BootOnce (\<lambda>r. bind (k r) c)"
| "bind (SetBoot x k) c = SetBoot x (bind k c)"
| "bind (Kill0 pid k) c = Kill0 pid (\<lambda>r. bind (k r) c)"
| "bind (MkdirAll d k) c = MkdirAll d (\<lambda>r. bind (k r) c)"
| "bind (OpenExcl p k) c = OpenExcl p (\<lambda>r. bind (k r) c)"
| "bind (OpenRW p k) c = OpenRW p (\<lambda>r. bind (k r) c)"
| "bind (OpenRd p k) c = OpenRd p (\<lambda>r. bind (k r) c)"
| "bind (CreateTemp d p k) c = CreateTemp d p (\<lambda>r. bind (k r) c)"
| "bind (ReadAll fd k) c = ReadAll fd (\<lambda>r. bind (k r) c)"
| "bind (WriteFd fd s k) c = WriteFd fd s (\<lambda>r. bind (k r) c)"
| "bind (CloseFd fd k) c = CloseFd fd (\<lambda>r. bind (k r) c)"
| "bind (RemovePath p k) c = RemovePath p (\<lambda>r. bind (k r) c)"
| "bind (RenamePath p q k) c = RenamePath p q (\<lambda>r. bind (k r) c)"
| "bind (FlockNB fd k) c = FlockNB fd (\<lambda>r. bind (k r) c)"
| "bind (ReadDir d k) c = ReadDir d (\<lambda>r. bind (k r) c)"

lemma run_bind [simp]:
  "run me (bind p c) es w = (case run me p es w of (a, es', w') \<Rightarrow> run me (c a) es' w')"
  by (induction p arbitrary: es w) (simp_all add: resume_def)

text \<open>One call and the rest: \<open>run\<close> iterates \<open>exec1\<close>.\<close>

definition is_ret :: "'a prog \<Rightarrow> bool" where
  "is_ret p = (case p of Ret a \<Rightarrow> True | _ \<Rightarrow> False)"

lemma run_exec1:
  "\<not> is_ret p \<Longrightarrow> run me p es w =
     (case exec1 me p (tick_fault es) (tick_env es w) of (w', p') \<Rightarrow> run me p' (tick_rest es) w')"
  by (cases p) (simp_all add: is_ret_def resume_def case_prod_beta)

end
