(* ===== verification/Kernel_Facts.thy ===== *)
theory Kernel_Facts
  imports Kernel
begin

text \<open>
  Facts about the operating system model: the well-formedness of a state, what the calls do to
  the files a path names, the states a finished create, read, rename or remove leaves, and the
  two ways programs are reasoned about: equations for \<open>run\<close> in a quiet environment, and a
  weakest-precondition calculus for every schedule whose interference stays within a given set.
\<close>

section \<open>Well-formed states\<close>

definition wf_world :: "world \<Rightarrow> bool" where
  "wf_world w \<longleftrightarrow>
     0 < next_ino w \<and>
     (\<forall>p i. lookup w p = Some (FileEntry i) \<longrightarrow> 0 < i \<and> i < next_ino w) \<and>
     (\<forall>p q i. lookup w p = Some (FileEntry i) \<longrightarrow> lookup w q = Some (FileEntry i) \<longrightarrow> p = q) \<and>
     (\<forall>fd \<in> fst ` set (fds w). fd < next_fd w) \<and>
     (\<forall>x \<in> set (flocks w). fst x < next_ino w \<and> snd x < next_fd w)"

text \<open>What the calls of a program that closes its files again leave alone.\<close>

definition same_env :: "world \<Rightarrow> world \<Rightarrow> bool" where
  "same_env w w' \<longleftrightarrow> clock w' = clock w \<and> kill_res w' = kill_res w \<and> host_res w' = host_res w \<and>
     ctx_err w' = ctx_err w \<and> fds w' = fds w \<and> flocks w' = flocks w"

lemma same_env_refl [simp]: "same_env w w"
  by (simp add: same_env_def)

lemma same_env_trans [trans]: "same_env w w' \<Longrightarrow> same_env w' w'' \<Longrightarrow> same_env w w''"
  by (simp add: same_env_def)

lemma is_dir_not_file: "is_dir w p \<Longrightarrow> file_content w p = None"
  by (simp add: is_dir_def file_content_def)

lemma lookup_None_iff: "lookup w p = None \<longleftrightarrow> file_content w p = None \<and> \<not> is_dir w p"
  by (auto simp: is_dir_def file_content_def split: option.splits entry.splits)

lemma file_content_Some: "file_content w p = Some s \<longleftrightarrow> (\<exists>i. lookup w p = Some (FileEntry i) \<and> inodes w i = s)"
  by (auto simp: file_content_def split: option.splits entry.splits)

section \<open>The state after a file is written, read, renamed, removed\<close>

definition bump_fd :: "world \<Rightarrow> world" where
  "bump_fd w = w\<lparr>next_fd := Suc (next_fd w)\<rparr>"

definition put_file :: "string \<Rightarrow> string \<Rightarrow> world \<Rightarrow> world" where
  "put_file p s w = w\<lparr>names := AList.update p (FileEntry (next_ino w)) (names w),
     inodes := (inodes w)(next_ino w := s), next_ino := Suc (next_ino w), next_fd := Suc (next_fd w)\<rparr>"

definition del_name :: "string \<Rightarrow> world \<Rightarrow> world" where
  "del_name p w = w\<lparr>names := AList.delete p (names w)\<rparr>"

definition move_name :: "string \<Rightarrow> string \<Rightarrow> world \<Rightarrow> world" where
  "move_name p q w = w\<lparr>names := AList.update q (the (lookup w p)) (AList.delete p (names w))\<rparr>"

definition bump_temp :: "nat \<Rightarrow> world \<Rightarrow> world" where
  "bump_temp s w = w\<lparr>temp_seq := s\<rparr>"

lemma lookup_states [simp]:
  "lookup (bump_fd w) = lookup w"
  "lookup (put_file p s w) = (lookup w)(p \<mapsto> FileEntry (next_ino w))"
  "lookup (del_name p w) = (lookup w)(p := None)"
  "lookup (move_name p q w) = (lookup w)(p := None, q \<mapsto> the (lookup w p))"
  "lookup (bump_temp t w) = lookup w"
  by (auto simp: lookup_def fun_eq_iff bump_fd_def put_file_def del_name_def move_name_def bump_temp_def)

lemma fields_states [simp]:
  "next_ino (bump_fd w) = next_ino w" "inodes (bump_fd w) = inodes w" "next_fd (bump_fd w) = Suc (next_fd w)"
  "next_ino (put_file p s w) = Suc (next_ino w)" "next_fd (put_file p s w) = Suc (next_fd w)"
  "inodes (put_file p s w) = (inodes w)(next_ino w := s)"
  "next_ino (del_name p w) = next_ino w" "next_fd (del_name p w) = next_fd w" "inodes (del_name p w) = inodes w"
  "next_ino (move_name p q w) = next_ino w" "next_fd (move_name p q w) = next_fd w"
  "inodes (move_name p q w) = inodes w"
  "next_ino (bump_temp t w) = next_ino w" "next_fd (bump_temp t w) = next_fd w" "inodes (bump_temp t w) = inodes w"
  by (simp_all add: bump_fd_def put_file_def del_name_def move_name_def bump_temp_def)

lemma env_states [simp]:
  "fds (bump_fd w) = fds w" "flocks (bump_fd w) = flocks w"
  "fds (put_file p s w) = fds w" "flocks (put_file p s w) = flocks w"
  "fds (del_name p w) = fds w" "flocks (del_name p w) = flocks w"
  "fds (move_name p q w) = fds w" "flocks (move_name p q w) = flocks w"
  "fds (bump_temp t w) = fds w" "flocks (bump_temp t w) = flocks w"
  by (simp_all add: bump_fd_def put_file_def del_name_def move_name_def bump_temp_def)

lemma same_env_states [simp]:
  "same_env w (bump_fd w)" "same_env w (put_file p s w)" "same_env w (del_name p w)"
  "same_env w (move_name p q w)" "same_env w (bump_temp t w)"
  by (simp_all add: same_env_def bump_fd_def put_file_def del_name_def move_name_def bump_temp_def)

lemma oracle_states [simp]:
  "clock (bump_fd w) = clock w" "clock (put_file p s w) = clock w" "clock (del_name p w) = clock w"
  "clock (move_name p q w) = clock w" "clock (bump_temp t w) = clock w"
  "host_res (bump_fd w) = host_res w" "host_res (put_file p s w) = host_res w" "host_res (del_name p w) = host_res w"
  "host_res (move_name p q w) = host_res w" "host_res (bump_temp t w) = host_res w"
  "kill_res (bump_fd w) = kill_res w" "kill_res (put_file p s w) = kill_res w" "kill_res (del_name p w) = kill_res w"
  "kill_res (move_name p q w) = kill_res w" "kill_res (bump_temp t w) = kill_res w"
  "ctx_err (bump_fd w) = ctx_err w" "ctx_err (put_file p s w) = ctx_err w" "ctx_err (del_name p w) = ctx_err w"
  "ctx_err (move_name p q w) = ctx_err w" "ctx_err (bump_temp t w) = ctx_err w"
  by (simp_all add: bump_fd_def put_file_def del_name_def move_name_def bump_temp_def)

lemma temp_seq_states [simp]:
  "temp_seq (bump_fd w) = temp_seq w" "temp_seq (put_file p s w) = temp_seq w"
  "temp_seq (del_name p w) = temp_seq w" "temp_seq (move_name p q w) = temp_seq w"
  "temp_seq (bump_temp t w) = t"
  by (simp_all add: bump_fd_def put_file_def del_name_def move_name_def bump_temp_def)

lemma cache_states [simp]:
  "boot_cache (bump_fd w) = boot_cache w" "boot_cache (put_file p s w) = boot_cache w"
  "boot_cache (del_name p w) = boot_cache w" "boot_cache (move_name p q w) = boot_cache w"
  "boot_cache (bump_temp t w) = boot_cache w"
  by (simp_all add: bump_fd_def put_file_def del_name_def move_name_def bump_temp_def)

lemma wf_states [simp]:
  "wf_world w \<Longrightarrow> wf_world (bump_fd w)"
  "wf_world w \<Longrightarrow> wf_world (put_file p s w)"
  "wf_world w \<Longrightarrow> wf_world (del_name p w)"
  "wf_world w \<Longrightarrow> wf_world (bump_temp t w)"
  by (auto simp: wf_world_def less_Suc_eq split: if_splits)

lemma wf_move_name [simp]:
  assumes "wf_world w" "lookup w p = Some (FileEntry i)"
  shows "wf_world (move_name p q w)"
  using assms unfolding wf_world_def lookup_states fields_states env_states by (auto split: if_splits)

lemma file_content_states [simp]:
  "file_content (bump_fd w) = file_content w"
  "wf_world w \<Longrightarrow> file_content (put_file p s w) = (file_content w)(p \<mapsto> s)"
  "file_content (del_name p w) = (file_content w)(p := None)"
  "file_content (bump_temp t w) = file_content w"
  by (auto simp: file_content_def fun_eq_iff wf_world_def split: option.splits entry.splits)

lemma file_content_move_name [simp]:
  "lookup w p = Some (FileEntry i) \<Longrightarrow>
     file_content (move_name p q w) = (file_content w)(p := None, q := file_content w p)"
  by (auto simp: file_content_def fun_eq_iff split: option.splits entry.splits)

lemma is_dir_states [simp]:
  "is_dir (bump_fd w) = is_dir w"
  "\<not> is_dir w p \<Longrightarrow> is_dir (put_file p s w) = is_dir w"
  "\<not> is_dir w p \<Longrightarrow> is_dir (del_name p w) = is_dir w"
  "is_dir (bump_temp t w) = is_dir w"
  by (auto simp: is_dir_def fun_eq_iff)

lemma is_dir_move_name [simp]:
  "lookup w p = Some (FileEntry i) \<Longrightarrow> \<not> is_dir w q \<Longrightarrow> is_dir (move_name p q w) = is_dir w"
  by (auto simp: is_dir_def fun_eq_iff)

section \<open>Calls in a quiet environment\<close>

lemma fresh_fd:
  assumes "wf_world w"
  shows "AList.delete (next_fd w) (fds w) = fds w"
    and "filter (\<lambda>(i, g). g \<noteq> next_fd w) (flocks w) = flocks w"
proof -
  have "next_fd w \<notin> fst ` set (fds w)" using assms by (auto simp: wf_world_def)
  then show "AList.delete (next_fd w) (fds w) = fds w"
    by (simp add: delete_id)
  show "filter (\<lambda>(i, g). g \<noteq> next_fd w) (flocks w) = flocks w"
    using assms by (fastforce simp: wf_world_def filter_id_conv)
qed

text \<open>The state with a file open that was there, and with a new file open and written to.\<close>

definition with_fd :: "int \<Rightarrow> nat \<Rightarrow> world \<Rightarrow> world" where
  "with_fd me i w = fst (open_fd me i w)"

definition open_file :: "int \<Rightarrow> string \<Rightarrow> string \<Rightarrow> world \<Rightarrow> world" where
  "open_file me p s w = with_fd me (next_ino w)
     (w\<lparr>names := AList.update p (FileEntry (next_ino w)) (names w),
        inodes := (inodes w)(next_ino w := s), next_ino := Suc (next_ino w)\<rparr>)"

lemma sys_open_rd_file [simp]:
  "lookup w p = Some (FileEntry i) \<Longrightarrow> sys_open_rd me p None w = (with_fd me i w, Inr (next_fd w))"
  by (simp add: sys_open_rd_def with_fd_def open_fd_def)

lemma sys_open_none [simp]:
  "lookup w p = None \<Longrightarrow> sys_open_rd me p None w = (w, Inl ENOENT)"
  "lookup w p = Some x \<Longrightarrow> sys_open_excl me p None w = (w, Inl EEXIST)"
  "lookup w p = None \<Longrightarrow> \<not> is_dir w (path_dir p) \<Longrightarrow> sys_open_excl me p None w = (w, Inl ENOENT)"
  by (simp_all add: sys_open_rd_def sys_open_excl_def)

lemma sys_read_with_fd [simp]:
  "i \<noteq> 0 \<Longrightarrow> sys_read_all (next_fd w) None (with_fd me i w) = (with_fd me i w, Inr (inodes w i))"
  by (simp add: sys_read_all_def with_fd_def open_fd_def)

lemma fds_with_fd [simp]: "map_of (fds (with_fd me i w)) (next_fd w) = Some (me, i)"
  by (simp add: with_fd_def open_fd_def)

lemma drop_with_fd: "wf_world w \<Longrightarrow> drop_fd (next_fd w) (with_fd me i w) = bump_fd w"
  unfolding drop_fd_def with_fd_def open_fd_def bump_fd_def
  by (simp add: delete_update_same fresh_fd)

lemma sys_close_with_fd [simp]:
  "wf_world w \<Longrightarrow> sys_close (next_fd w) f (with_fd me i w) = (bump_fd w, f)"
  by (simp add: sys_close_def drop_with_fd)

lemma sys_open_excl_new [simp]:
  "lookup w p = None \<Longrightarrow> is_dir w (path_dir p) \<Longrightarrow>
     sys_open_excl me p None w = (open_file me p [] w, Inr (next_fd w))"
  by (simp add: sys_open_excl_def new_file_def open_file_def with_fd_def open_fd_def)

lemma sys_open_rw_new [simp]:
  "lookup w p = None \<Longrightarrow> is_dir w (path_dir p) \<Longrightarrow>
     sys_open_rw me p None w = (open_file me p [] w, Inr (next_fd w))"
  by (simp add: sys_open_rw_def new_file_def open_file_def with_fd_def open_fd_def)

lemma sys_open_rw_file [simp]:
  "lookup w p = Some (FileEntry i) \<Longrightarrow> sys_open_rw me p None w = (with_fd me i w, Inr (next_fd w))"
  by (simp add: sys_open_rw_def with_fd_def open_fd_def)

lemma sys_write_open_file [simp]:
  "sys_write (next_fd w) t None (open_file me p s w) = (open_file me p (s @ t) w, None)"
  by (simp add: sys_write_def open_file_def with_fd_def open_fd_def)

lemma sys_close_open_file [simp]:
  assumes "wf_world w"
  shows "sys_close (next_fd w) f (open_file me p s w) = (put_file p s w, f)"
proof -
  let ?w = "w\<lparr>names := AList.update p (FileEntry (next_ino w)) (names w),
        inodes := (inodes w)(next_ino w := s), next_ino := Suc (next_ino w)\<rparr>"
  have b: "bump_fd ?w = put_file p s w" by (simp add: bump_fd_def put_file_def)
  have "bump_fd (w\<lparr>names := names ?w, inodes := inodes ?w, next_ino := next_ino ?w\<rparr>) = put_file p s w"
    by (simp add: b)
  moreover have "wf_world ?w"
  proof -
    have "wf_world (put_file p s w)" using assms by simp
    then have "wf_world (bump_fd ?w)" by (simp add: b)
    moreover have "\<forall>fd \<in> fst ` set (fds ?w). fd < next_fd ?w" "\<forall>x \<in> set (flocks ?w). fst x < next_ino ?w \<and> snd x < next_fd ?w"
      using assms by (auto simp: wf_world_def)
    ultimately show ?thesis by (simp add: wf_world_def)
  qed
  ultimately show ?thesis
    using sys_close_with_fd[of ?w f me "next_ino w"] by (simp add: open_file_def)
qed

lemma sys_remove_file [simp]:
  "lookup w p = Some (FileEntry i) \<Longrightarrow> sys_remove p None w = (del_name p w, None)"
  "lookup w p = None \<Longrightarrow> sys_remove p None w = (w, Some ENOENT)"
  by (simp_all add: sys_remove_def del_name_def)

lemma sys_rename_file [simp]:
  "lookup w p = Some (FileEntry i) \<Longrightarrow> \<not> is_dir w q \<Longrightarrow> sys_rename p q None w = (move_name p q w, None)"
  by (auto simp: sys_rename_def move_name_def is_dir_def split: option.splits entry.splits)

lemma sys_mkdir_ok [simp]: "d \<noteq> [] \<Longrightarrow> is_dir w (path_clean d) \<Longrightarrow> sys_mkdir_all d None w = (w, None)"
  by (simp add: sys_mkdir_all_def)

text \<open>
  \<open>os.CreateTemp\<close> finds a name no file has, when one of its ten thousand candidates is free.
\<close>

lemma try_temp_Some:
  "try_temp ns pre s n = Some k \<Longrightarrow> map_of ns (pre @ dec k) = None \<and> s \<le> k"
proof (induction ns pre s n rule: try_temp.induct)
  case (1 ns pre s n)
  then show ?case by (subst (asm) (2) try_temp.simps) (auto split: if_splits dest: Suc_leD)
qed

definition temp_free :: "string \<Rightarrow> world \<Rightarrow> nat option" where
  "temp_free pre w = try_temp (names w) pre (temp_seq w) 10000"

lemma temp_free_le: "temp_free pre w = Some s \<Longrightarrow> temp_seq w \<le> s"
  using try_temp_Some by (auto simp: temp_free_def)

lemma temp_free_first:
  "lookup w (pre @ dec (temp_seq w)) = None \<Longrightarrow> temp_free pre w = Some (temp_seq w)"
  unfolding temp_free_def lookup_def by (subst try_temp.simps) simp

lemma sys_create_temp_ok [simp]:
  assumes "is_dir w dir" "temp_free (join_prefix dir @ pre) w = Some s"
  shows "sys_create_temp me dir pre None w =
    (open_file me (join_prefix dir @ pre @ dec s) [] (bump_temp (Suc s) w),
     Inr (next_fd w, join_prefix dir @ pre @ dec s))"
  using assms by (simp add: sys_create_temp_def temp_free_def new_file_def open_file_def
      with_fd_def open_fd_def bump_temp_def)

lemma temp_free_lookup: "temp_free pre w = Some s \<Longrightarrow> lookup w (pre @ dec s) = None"
  using try_temp_Some by (auto simp: temp_free_def lookup_def)

lemma sys_errors [simp]:
  "sys_open_rd me p (Some e) w = (w, Inl e)" "sys_open_rw me p (Some e) w = (w, Inl e)"
  "sys_open_excl me p (Some e) w = (w, Inl e)" "sys_read_all fd (Some e) w = (w, Inl e)"
  "sys_write fd s (Some e) w = (w, Some e)" "sys_remove p (Some e) w = (w, Some e)"
  "sys_rename p q (Some e) w = (w, Some e)" "sys_create_temp me d s (Some e) w = (w, Inl e)"
  "sys_mkdir_all d (Some e) w = (w, Some e)" "sys_flock fd (Some e) w = (w, Some e)"
  "sys_read_dir d (Some e) w = (w, Inl e)"
  by (simp_all add: sys_open_rd_def sys_open_rw_def sys_open_excl_def sys_read_all_def sys_write_def
      sys_remove_def sys_rename_def sys_create_temp_def sys_mkdir_all_def sys_flock_def sys_read_dir_def)

text \<open>
  Descriptor numbers used up and the cache of \<open>bootTime\<close> filled: all that a program that only
  reads leaves behind.
\<close>

definition drift :: "nat \<Rightarrow> (int \<Rightarrow> (gerr + gtime) option) \<Rightarrow> world \<Rightarrow> world" where
  "drift k b w = w\<lparr>next_fd := k, boot_cache := b\<rparr>"

definition drifts :: "world \<Rightarrow> world \<Rightarrow> bool" where
  "drifts w w' \<longleftrightarrow> (\<exists>k b. next_fd w \<le> k \<and> w' = drift k b w)"

lemma drift_simps [simp]:
  "lookup (drift k b w) = lookup w" "file_content (drift k b w) = file_content w"
  "is_dir (drift k b w) = is_dir w" "names (drift k b w) = names w" "inodes (drift k b w) = inodes w"
  "next_ino (drift k b w) = next_ino w" "next_fd (drift k b w) = k" "fds (drift k b w) = fds w"
  "flocks (drift k b w) = flocks w" "clock (drift k b w) = clock w" "kill_res (drift k b w) = kill_res w"
  "host_res (drift k b w) = host_res w" "ctx_err (drift k b w) = ctx_err w" "temp_seq (drift k b w) = temp_seq w"
  "boot_cache (drift k b w) = b" "drift k b (drift k' b' w) = drift k b w" "same_env w (drift k b w)"
  by (simp_all add: drift_def lookup_def file_content_def is_dir_def fun_eq_iff same_env_def
      split: option.splits entry.splits)

lemma drift_self: "drift (next_fd w) (boot_cache w) w = w"
  by (simp add: drift_def)

lemma bump_fd_drift: "bump_fd w = drift (Suc (next_fd w)) (boot_cache w) w"
  by (simp add: drift_def bump_fd_def)

lemma drifts_refl [simp]: "drifts w w"
  unfolding drifts_def by (metis drift_self order_refl)

lemma drifts_bump [simp]: "drifts w (bump_fd w)"
  unfolding drifts_def by (metis bump_fd_drift le_SucI order_refl)

lemma drifts_boot [simp]: "drifts w (w\<lparr>boot_cache := b\<rparr>)"
  unfolding drifts_def by (rule exI[of _ "next_fd w"]) (auto simp: drift_def)

lemma drifts_trans [trans]: "drifts w w' \<Longrightarrow> drifts w' w'' \<Longrightarrow> drifts w w''"
proof -
  assume "drifts w w'" "drifts w' w''"
  then obtain k b k' b' where "next_fd w \<le> k" "w' = drift k b w" "k \<le> k'" "w'' = drift k' b' w"
    unfolding drifts_def by auto
  then show "drifts w w''" unfolding drifts_def by (intro exI[of _ k'] exI[of _ b']) simp
qed

lemma wf_drift [simp]: "wf_world w \<Longrightarrow> next_fd w \<le> k \<Longrightarrow> wf_world (drift k b w)"
  by (fastforce simp: wf_world_def)

lemma drifts_wf: "drifts w w' \<Longrightarrow> wf_world w \<Longrightarrow> wf_world w'"
  by (auto simp: drifts_def)

lemma drifts_eqs:
  assumes "drifts w w'"
  shows "lookup w' = lookup w" "file_content w' = file_content w" "is_dir w' = is_dir w"
    "names w' = names w" "temp_seq w' = temp_seq w" "fds w' = fds w" "flocks w' = flocks w"
    "clock w' = clock w" "kill_res w' = kill_res w" "host_res w' = host_res w" "ctx_err w' = ctx_err w"
    "same_env w w'" "next_ino w' = next_ino w" "inodes w' = inodes w"
  using assms by (auto simp: drifts_def)

lemma wf_open_file [simp]:
  assumes "wf_world w"
  shows "wf_world (open_file me p s w)"
proof -
  let ?o = "open_file me p s w" and ?q = "put_file p s w"
  have eqs: "lookup ?o = lookup ?q" "next_ino ?o = next_ino ?q" "next_fd ?o = next_fd ?q" "flocks ?o = flocks ?q"
    "fds ?o = AList.update (next_fd w) (me, next_ino w) (fds w)"
    by (simp_all add: open_file_def with_fd_def open_fd_def lookup_def fun_eq_iff put_file_def)
  have "\<forall>fd \<in> set (map fst (fds ?o)). fd < next_fd ?q"
    using assms unfolding eqs(5) update_keys by (auto simp: wf_world_def less_Suc_eq)
  then have fd: "\<forall>fd \<in> fst ` set (fds ?o). fd < next_fd ?q" by simp
  have "wf_world ?q" using assms by simp
  then show ?thesis
    using fd unfolding wf_world_def eqs(1-4) by (elim conjE) (intro conjI; assumption)
qed

lemma open_file_simps [simp]:
  "next_fd (open_file me p s w) = Suc (next_fd w)" "boot_cache (open_file me p s w) = boot_cache w"
  "clock (open_file me p s w) = clock w" "host_res (open_file me p s w) = host_res w"
  "kill_res (open_file me p s w) = kill_res w"
  "lookup (open_file me p s w) = (lookup w)(p \<mapsto> FileEntry (next_ino w))"
  by (simp_all add: open_file_def with_fd_def open_fd_def lookup_def fun_eq_iff)

lemma sys_write_drift [simp]:
  "sys_write (next_fd w) t None (drift k b (open_file me p s w)) = (drift k b (open_file me p (s @ t) w), None)"
  by (simp add: sys_write_def open_file_def with_fd_def open_fd_def drift_def)

lemma drift_open_fields:
  "map_of (fds (drift k b (open_file me p s w))) (next_fd w) = Some (me, next_ino w)"
  by (simp add: open_file_def with_fd_def open_fd_def)

lemma drop_drift: "drop_fd fd (drift k b w) = drift k b (drop_fd fd w)"
  by (simp add: drop_fd_def drift_def)

lemma sys_close_drift [simp]:
  assumes "wf_world w"
  shows "sys_close (next_fd w) f (drift k b (open_file me p s w)) = (drift k b (put_file p s w), f)"
proof -
  have "map_of (fds (open_file me p s w)) (next_fd w) = Some (me, next_ino w)"
    by (simp add: open_file_def with_fd_def open_fd_def)
  moreover have "sys_close (next_fd w) f (open_file me p s w) = (put_file p s w, f)" using assms by simp
  ultimately have "drop_fd (next_fd w) (open_file me p s w) = put_file p s w"
    by (simp add: sys_close_def)
  then show ?thesis
    by (simp only: sys_close_def drift_open_fields option.simps case_prod_conv drop_drift)
qed

section \<open>Schedules that begin quietly\<close>

primrec calm :: "nat \<Rightarrow> env \<Rightarrow> bool" where
  "calm 0 es = True"
| "calm (Suc k) es = (tick_env es = id \<and> tick_fault es = None \<and> calm k (tick_rest es))"

primrec skip :: "nat \<Rightarrow> env \<Rightarrow> env" where
  "skip 0 es = es"
| "skip (Suc k) es = skip k (tick_rest es)"

lemma tick_env_Nil_id [simp]: "tick_env [] = id"
  by (simp add: fun_eq_iff)

lemma calm_Nil [simp]: "calm k []" and skip_Nil [simp]: "skip k [] = []"
  by (induction k) simp_all

lemma tick_env_Cons_id [simp]: "tick_env ((g, f) # es) = g"
  by (simp add: fun_eq_iff)

lemma run_last_tick: "\<not> is_ret p \<Longrightarrow> run me p [(g, None)] w = run me p [] (g w)"
  by (simp add: run_exec1)

section \<open>Weakest preconditions\<close>

text \<open>
  \<open>wp E me p Q w\<close>: whatever the environment does before each call, as long as each of its
  steps is one of \<open>E\<close> or none at all, the program \<open>p\<close> run from \<open>w\<close> ends with a result and a
  state that satisfy \<open>Q\<close>.
\<close>

definition steps :: "((world \<Rightarrow> world) \<times> fault) set \<Rightarrow> ((world \<Rightarrow> world) \<times> fault) set" where
  "steps E = insert (id, None) E"

primrec wp :: "((world \<Rightarrow> world) \<times> fault) set \<Rightarrow> int \<Rightarrow> 'a prog \<Rightarrow> ('a \<Rightarrow> world \<Rightarrow> bool) \<Rightarrow> world \<Rightarrow> bool" where
  "wp E me (Ret a) Q w = Q a w"
| "wp E me (Getpid k) Q w = (\<forall>(g, f) \<in> steps E. wp E me (k me) Q (g w))"
| "wp E me (CtxErr k) Q w = (\<forall>(g, f) \<in> steps E. wp E me (k (ctx_err (g w))) Q (g w))"
| "wp E me (Now k) Q w = (\<forall>(g, f) \<in> steps E. wp E me (k (clock (g w))) Q (g w))"
| "wp E me (Hostname k) Q w = (\<forall>(g, f) \<in> steps E.
     wp E me (k (case f of Some e \<Rightarrow> Inl (Errno e) | None \<Rightarrow> host_res (g w))) Q (g w))"
| "wp E me (BootOnce k) Q w = (\<forall>(g, f) \<in> steps E. wp E me (k (boot_cache (g w) me)) Q (g w))"
| "wp E me (SetBoot r k) Q w = (\<forall>(g, f) \<in> steps E.
     wp E me k Q ((g w)\<lparr>boot_cache := (boot_cache (g w))(me := Some r)\<rparr>))"
| "wp E me (Kill0 pid k) Q w = (\<forall>(g, f) \<in> steps E.
     case sys_kill pid f (g w) of (w', r) \<Rightarrow> wp E me (k r) Q w')"
| "wp E me (MkdirAll d k) Q w = (\<forall>(g, f) \<in> steps E.
     case sys_mkdir_all d f (g w) of (w', r) \<Rightarrow> wp E me (k r) Q w')"
| "wp E me (OpenExcl p k) Q w = (\<forall>(g, f) \<in> steps E.
     case sys_open_excl me p f (g w) of (w', r) \<Rightarrow> wp E me (k r) Q w')"
| "wp E me (OpenRW p k) Q w = (\<forall>(g, f) \<in> steps E.
     case sys_open_rw me p f (g w) of (w', r) \<Rightarrow> wp E me (k r) Q w')"
| "wp E me (OpenRd p k) Q w = (\<forall>(g, f) \<in> steps E.
     case sys_open_rd me p f (g w) of (w', r) \<Rightarrow> wp E me (k r) Q w')"
| "wp E me (CreateTemp d p k) Q w = (\<forall>(g, f) \<in> steps E.
     case sys_create_temp me d p f (g w) of (w', r) \<Rightarrow> wp E me (k r) Q w')"
| "wp E me (ReadAll fd k) Q w = (\<forall>(g, f) \<in> steps E.
     case sys_read_all fd f (g w) of (w', r) \<Rightarrow> wp E me (k r) Q w')"
| "wp E me (WriteFd fd s k) Q w = (\<forall>(g, f) \<in> steps E.
     case sys_write fd s f (g w) of (w', r) \<Rightarrow> wp E me (k r) Q w')"
| "wp E me (CloseFd fd k) Q w = (\<forall>(g, f) \<in> steps E.
     case sys_close fd f (g w) of (w', r) \<Rightarrow> wp E me (k r) Q w')"
| "wp E me (RemovePath p k) Q w = (\<forall>(g, f) \<in> steps E.
     case sys_remove p f (g w) of (w', r) \<Rightarrow> wp E me (k r) Q w')"
| "wp E me (RenamePath p q k) Q w = (\<forall>(g, f) \<in> steps E.
     case sys_rename p q f (g w) of (w', r) \<Rightarrow> wp E me (k r) Q w')"
| "wp E me (FlockNB fd k) Q w = (\<forall>(g, f) \<in> steps E.
     case sys_flock fd f (g w) of (w', r) \<Rightarrow> wp E me (k r) Q w')"
| "wp E me (ReadDir d k) Q w = (\<forall>(g, f) \<in> steps E.
     case sys_read_dir d f (g w) of (w', r) \<Rightarrow> wp E me (k r) Q w')"

lemma wp_bind [simp]: "wp E me (bind p c) Q w = wp E me p (\<lambda>a. wp E me (c a) Q) w"
  by (induction p arbitrary: w) (simp_all add: case_prod_beta)

lemma wp_mono:
  "wp E me p Q w \<Longrightarrow> (\<And>a w. Q a w \<Longrightarrow> Q' a w) \<Longrightarrow> wp E me p Q' w"
  by (induction p arbitrary: w) (simp_all add: case_prod_beta)

lemma tick_rest_sub: "set es \<subseteq> E \<Longrightarrow> set (tick_rest es) \<subseteq> E"
  by (cases es) auto

lemma steps_tick: "\<forall>(g, f) \<in> steps E. P g f \<Longrightarrow> set es \<subseteq> E \<Longrightarrow> P (tick_env es) (tick_fault es)"
proof (cases es)
  case (Cons e es')
  then show "\<forall>(g, f) \<in> steps E. P g f \<Longrightarrow> set es \<subseteq> E \<Longrightarrow> ?thesis" by (cases e) (auto simp: steps_def)
qed (simp add: steps_def)

lemma wp_run:
  assumes "wp E me p Q w" "set es \<subseteq> E"
  shows "case run me p es w of (a, es', w') \<Rightarrow> Q a w'"
  using assms
proof (induction p arbitrary: es w)
  case (Ret a)
  then show ?case by simp
next
  case (SetBoot r k)
  from SetBoot.prems have "wp E me k Q ((tick_env es w)\<lparr>boot_cache := (boot_cache (tick_env es w))(me := Some r)\<rparr>)"
    by (simp only: wp.simps) (drule (1) steps_tick)
  from SetBoot.IH[OF this tick_rest_sub[OF SetBoot.prems(2)]] show ?case by simp
qed (simp_all only: wp.simps run.simps,
     (frule (1) steps_tick, drule tick_rest_sub, simp add: case_prod_beta resume_def)+)

text \<open>Making directories never replaces a file.\<close>

lemma mkdir_keeps_file:
  assumes "lookup w path = Some (FileEntry i)"
  shows "lookup (fst (sys_mkdir_all d f w)) path = Some (FileEntry i)"
proof (cases "path \<in> set (ancestors d)")
  case True
  then have "list_ex (\<lambda>p. case lookup w p of Some (FileEntry _) \<Rightarrow> True | _ \<Rightarrow> False) (ancestors d)"
    using assms by (force simp: list_ex_iff)
  then show ?thesis using assms by (simp add: sys_mkdir_all_def split: option.split)
next
  case False
  have "p \<notin> set ps \<Longrightarrow> map_of (fold (\<lambda>p. AList.update p DirEntry) ps ns) p = map_of ns p" for p :: string and ps and ns :: "(string \<times> entry) list"
    by (induction ps arbitrary: ns) auto
  with False assms show ?thesis by (auto simp: sys_mkdir_all_def lookup_def split: option.split)
qed

section \<open>Whatever the responses\<close>

text \<open>\<open>always p Q\<close>: whatever each call of \<open>p\<close> answers, its result satisfies \<open>Q\<close>.\<close>

primrec always :: "'a prog \<Rightarrow> ('a \<Rightarrow> bool) \<Rightarrow> bool" where
  "always (Ret a) Q = Q a"
| "always (Getpid k) Q = (\<forall>r. always (k r) Q)"
| "always (CtxErr k) Q = (\<forall>r. always (k r) Q)"
| "always (Now k) Q = (\<forall>r. always (k r) Q)"
| "always (Hostname k) Q = (\<forall>r. always (k r) Q)"
| "always (BootOnce k) Q = (\<forall>r. always (k r) Q)"
| "always (SetBoot x k) Q = always k Q"
| "always (Kill0 x k) Q = (\<forall>r. always (k r) Q)"
| "always (MkdirAll d k) Q = (\<forall>r. always (k r) Q)"
| "always (OpenExcl p k) Q = (\<forall>r. always (k r) Q)"
| "always (OpenRW p k) Q = (\<forall>r. always (k r) Q)"
| "always (OpenRd p k) Q = (\<forall>r. always (k r) Q)"
| "always (CreateTemp d p k) Q = (\<forall>r. always (k r) Q)"
| "always (ReadAll fd k) Q = (\<forall>r. always (k r) Q)"
| "always (WriteFd fd s k) Q = (\<forall>r. always (k r) Q)"
| "always (CloseFd fd k) Q = (\<forall>r. always (k r) Q)"
| "always (RemovePath p k) Q = (\<forall>r. always (k r) Q)"
| "always (RenamePath p q k) Q = (\<forall>r. always (k r) Q)"
| "always (FlockNB fd k) Q = (\<forall>r. always (k r) Q)"
| "always (ReadDir d k) Q = (\<forall>r. always (k r) Q)"

lemma always_bind [simp]: "always (bind p c) Q = always p (\<lambda>a. always (c a) Q)"
  by (induction p) simp_all

lemma always_mono: "always p Q \<Longrightarrow> (\<And>a. Q a \<Longrightarrow> Q' a) \<Longrightarrow> always p Q'"
  by (induction p) simp_all

lemma always_triv: "(\<And>a. Q a) \<Longrightarrow> always p Q"
  by (induction p) simp_all

lemma always_run: "always p Q \<Longrightarrow> Q (fst (run me p es w))"
  by (induction p arbitrary: es w) (simp_all add: resume_def)

section \<open>A concrete state\<close>

text \<open>
  A host \<open>web1\<close> with the directory \<open>/locks\<close> and the process 4242 running; the theorems about
  particular inputs start from it.
\<close>

definition host_world :: world where
  "host_world = \<lparr>names = [(''/'', DirEntry), (''/locks'', DirEntry)], inodes = (\<lambda>_. []), next_ino = 1,
     fds = [], next_fd = 3, flocks = [], temp_seq = 0, clock = 63900000000 * 1000000000,
     kill_res = (\<lambda>p. if p = 4242 then None else Some ESRCH), host_res = Inr ''web1'',
     ctx_err = None, boot_cache = (\<lambda>_. None)\<rparr>"

lemma host_world_simps [simp]:
  "wf_world host_world" "lookup host_world ''/locks'' = Some DirEntry" "is_dir host_world ''/locks''"
  "is_dir host_world ''/''" "clock host_world = 63900000000 * 1000000000"
  "host_res host_world = Inr ''web1''" "ctx_err host_world = None" "boot_cache host_world = (\<lambda>_. None)"
  "kill_res host_world q = (if q = 4242 then None else Some ESRCH)" "fds host_world = []" "flocks host_world = []"
  "temp_seq host_world = 0" "next_ino host_world = 1" "next_fd host_world = 3"
  "lookup host_world p = (if p = ''/'' \<or> p = ''/locks'' then Some DirEntry else None)"
  "file_content host_world p = None"
  by (simp_all add: host_world_def wf_world_def lookup_def is_dir_def file_content_def)

end
