(* ===== verification/LockApi.thy ===== *)
theory LockApi
  imports Kernel_Facts
begin

text \<open>
  The root package (\<open>lock.go\<close>, \<open>observe.go\<close>): the shared sentinel, the outcome strings,
  the observability hooks every backend carries and the events they produce; the loop over
  semaphore slots and the release-on-return protocol of \<open>WithLock\<close>, which every backend
  repeats; and the contract of a named lock as a locale, with the facts that follow from it.
\<close>

section \<open>The shared sentinel and outcomes\<close>

definition lock_ErrLocked :: gerr where
  "lock_ErrLocked = Sentinel ''lock: locked''"

declare lock_ErrLocked_def [sentinel_defs]

definition OutcomeAcquired :: string where "OutcomeAcquired = ''acquired''"
definition OutcomeErrLocked :: string where "OutcomeErrLocked = ''errlocked''"
definition OutcomeError :: string where "OutcomeError = ''error''"

lemmas outcome_defs = OutcomeAcquired_def OutcomeErrLocked_def OutcomeError_def

text \<open>A package's \<open>outcomeFor\<close>, given the package's own sentinel.\<close>

definition outcome_for :: "gerr \<Rightarrow> err \<Rightarrow> string" where
  "outcome_for sentinel e =
     (case e of
        None \<Rightarrow> OutcomeAcquired
      | Some x \<Rightarrow> if errors_is x sentinel then OutcomeErrLocked else OutcomeError)"

lemma outcome_for_acquired [simp]: "outcome_for s e = OutcomeAcquired \<longleftrightarrow> e = None"
  by (auto simp: outcome_for_def outcome_defs split: option.splits)

text \<open>The error of a result, Go's second return value.\<close>

definition err_of :: "'a res \<Rightarrow> err" where
  "err_of r = (case r of Inl e \<Rightarrow> Some e | Inr a \<Rightarrow> None)"

section \<open>Observability\<close>

text \<open>
  A context is what its \<open>Value\<close> method answers.  A recorder and a logger are identified by
  a number, \<open>None\<close> being Go's \<open>nil\<close>; a span starter maps the context and the operation to
  a new context; a trace extractor reads a string off the context.
\<close>

type_synonym ctx = "string \<Rightarrow> string option"

record observeOptions =
  metrics :: "nat option"
  span :: "(ctx \<Rightarrow> string \<Rightarrow> ctx) option"
  logger :: "nat option"
  traceID_ext :: "(ctx \<Rightarrow> string) option"

definition no_observe :: observeOptions where
  "no_observe = \<lparr>metrics = None, span = None, logger = None, traceID_ext = None\<rparr>"

text \<open>What reaches the hooks, in the order it reaches them.\<close>

datatype obs_event =
    SpanStarted string
  | SpanEnded err
  | AcquireAttempt nat string string duration
  | HoldDuration nat string duration
  | ActiveLocksDelta nat string int
  | LogAcquire nat string string string duration err "string option"
  | LogRelease nat string string duration

text \<open>The sum a gauge keeps for the recorder \<open>r\<close> and the lock name \<open>n\<close>.\<close>

definition gauge :: "nat \<Rightarrow> string \<Rightarrow> obs_event list \<Rightarrow> int" where
  "gauge r n evs =
     sum_list (map (\<lambda>e. case e of ActiveLocksDelta r' n' d \<Rightarrow> if r' = r \<and> n' = n then d else 0
                       | _ \<Rightarrow> 0) evs)"

lemma gauge_append [simp]: "gauge r n (xs @ ys) = gauge r n xs + gauge r n ys"
  by (simp add: gauge_def)

lemma gauge_Nil [simp]: "gauge r n [] = 0"
  by (simp add: gauge_def)

lemma gauge_Cons [simp]:
  "gauge r n (e # es) =
     (case e of ActiveLocksDelta r' n' d \<Rightarrow> if r' = r \<and> n' = n then d else 0 | _ \<Rightarrow> 0) + gauge r n es"
  by (simp add: gauge_def)

text \<open>The attempts that reach the recorder \<open>r\<close>.\<close>

definition attempts :: "nat \<Rightarrow> obs_event list \<Rightarrow> (string \<times> string) list" where
  "attempts r evs =
     concat (map (\<lambda>e. case e of AcquireAttempt r' n oc d \<Rightarrow> if r' = r then [(n, oc)] else []
                     | _ \<Rightarrow> []) evs)"

lemma attempts_append [simp]: "attempts r (xs @ ys) = attempts r xs @ attempts r ys"
  by (simp add: attempts_def)

lemma attempts_Nil [simp]: "attempts r [] = []"
  by (simp add: attempts_def)

lemma attempts_Cons [simp]:
  "attempts r (e # es) =
     (case e of AcquireAttempt r' n oc d \<Rightarrow> if r' = r then [(n, oc)] else [] | _ \<Rightarrow> [])
       @ attempts r es"
  by (simp add: attempts_def)

text \<open>
  The hooks of a backend whose log messages start with \<open>pkg\<close>.  All backends but filelock add
  the trace identifier to the acquire line when it is not empty.
\<close>

definition start_span :: "observeOptions \<Rightarrow> ctx \<Rightarrow> string \<Rightarrow> ctx \<times> obs_event list" where
  "start_span obs c op =
     (case span obs of None \<Rightarrow> (c, []) | Some s \<Rightarrow> (s c op, [SpanStarted op]))"

definition finish_span :: "observeOptions \<Rightarrow> err \<Rightarrow> obs_event list" where
  "finish_span obs e = (case span obs of None \<Rightarrow> [] | Some s \<Rightarrow> [SpanEnded e])"

definition metric_acquire :: "observeOptions \<Rightarrow> string \<Rightarrow> string \<Rightarrow> duration \<Rightarrow> obs_event list" where
  "metric_acquire obs n oc d = (case metrics obs of None \<Rightarrow> [] | Some r \<Rightarrow> [AcquireAttempt r n oc d])"

definition log_acquire ::
  "string \<Rightarrow> observeOptions \<Rightarrow> string \<Rightarrow> string \<Rightarrow> duration \<Rightarrow> string option \<Rightarrow> err \<Rightarrow> obs_event list" where
  "log_acquire pkg obs n oc d tr e =
     (case logger obs of None \<Rightarrow> []
      | Some l \<Rightarrow> [LogAcquire l (pkg @ '' acquire'') n oc d e tr])"

definition record_active :: "observeOptions \<Rightarrow> string \<Rightarrow> int \<Rightarrow> obs_event list" where
  "record_active obs n delta =
     (case metrics obs of None \<Rightarrow> [] | Some r \<Rightarrow> [ActiveLocksDelta r n delta])"

definition record_hold :: "string \<Rightarrow> observeOptions \<Rightarrow> string \<Rightarrow> duration \<Rightarrow> obs_event list" where
  "record_hold pkg obs n d =
     (case metrics obs of None \<Rightarrow> [] | Some r \<Rightarrow> [HoldDuration r n d]) @
     (case logger obs of None \<Rightarrow> [] | Some l \<Rightarrow> [LogRelease l (pkg @ '' release'') n d])"

definition extract_trace :: "observeOptions \<Rightarrow> ctx \<Rightarrow> string" where
  "extract_trace obs c = (case traceID_ext obs of None \<Rightarrow> [] | Some f \<Rightarrow> f c)"

lemma gauge_hooks [simp]:
  "gauge r n (finish_span obs e) = 0" "gauge r n (metric_acquire obs m oc d) = 0"
  "gauge r n (log_acquire pkg obs m oc d tr e) = 0" "gauge r n (record_hold pkg obs m d) = 0"
  "gauge r n (snd (start_span obs c op)) = 0"
  "gauge r n (record_active obs m k) = (if metrics obs = Some r \<and> m = n then k else 0)"
  by (simp_all add: finish_span_def metric_acquire_def log_acquire_def record_hold_def
      start_span_def record_active_def split: option.splits)

lemma attempts_hooks [simp]:
  "attempts r (finish_span obs e) = []" "attempts r (record_active obs m k) = []"
  "attempts r (log_acquire pkg obs m oc d tr e) = []" "attempts r (record_hold pkg obs m d) = []"
  "attempts r (snd (start_span obs c op)) = []"
  "attempts r (metric_acquire obs m oc d) = (if metrics obs = Some r then [(m, oc)] else [])"
  by (simp_all add: finish_span_def metric_acquire_def log_acquire_def record_hold_def
      start_span_def record_active_def split: option.splits)

section \<open>WithLock\<close>

text \<open>
  What the protected function does: it returns an error (or none), or it panics.  The
  deferred release runs either way; its error is reported only when the function returned
  none, and a panic goes on after the release.
\<close>

datatype fn_res = Returned err | Panicked string

definition merge_release :: "fn_res \<Rightarrow> err \<Rightarrow> fn_res" where
  "merge_release r rel =
     (case r of
        Returned None \<Rightarrow> Returned rel
      | Returned (Some e) \<Rightarrow> Returned (Some e)
      | Panicked m \<Rightarrow> Panicked m)"

text \<open>The protocol over an explicit state: acquire, run, release, merge.\<close>

definition with_lock_st ::
  "('s \<Rightarrow> (gerr + 'h) \<times> 's) \<Rightarrow> ('h \<Rightarrow> 's \<Rightarrow> err \<times> 's) \<Rightarrow> ('s \<Rightarrow> fn_res \<times> 's) \<Rightarrow> 's \<Rightarrow> fn_res \<times> 's" where
  "with_lock_st acq rel fn s =
     (case acq s of
        (Inl e, s1) \<Rightarrow> (Returned (Some e), s1)
      | (Inr h, s1) \<Rightarrow>
          (case fn s1 of (r, s2) \<Rightarrow>
             (case rel h s2 of (e, s3) \<Rightarrow> (merge_release r e, s3))))"

section \<open>The contract of a named lock\<close>

text \<open>
  What a backend promises: \<open>holders s n\<close> are the handles that hold the lock \<open>n\<close>, a
  successful \<open>Acquire\<close> adds a new one while there are fewer than \<open>limit\<close>, a failed one adds
  none, and \<open>Release\<close> removes the handle it is called on and no other.
\<close>

locale named_lock =
  fixes acquire :: "string \<Rightarrow> 's \<Rightarrow> (gerr + 'h) \<times> 's"
    and release :: "'h \<Rightarrow> 's \<Rightarrow> err \<times> 's"
    and holders :: "'s \<Rightarrow> string \<Rightarrow> 'h set"
    and inv :: "'s \<Rightarrow> bool"
    and limit :: nat
  assumes acquire_ok: "inv s \<Longrightarrow> acquire n s = (Inr h, s') \<Longrightarrow>
      inv s' \<and> card (holders s n) < limit \<and> h \<notin> holders s n
        \<and> holders s' = (holders s)(n := insert h (holders s n))"
    and acquire_err: "inv s \<Longrightarrow> acquire n s = (Inl e, s') \<Longrightarrow> inv s' \<and> holders s' = holders s"
    and release_ok: "inv s \<Longrightarrow> release h s = (re, s') \<Longrightarrow>
      inv s' \<and> holders s' = (\<lambda>n. holders s n - {h})"
    and finite_holders: "inv s \<Longrightarrow> finite (holders s n)"
begin

text \<open>The states any sequence of calls reaches.\<close>

inductive reach :: "'s \<Rightarrow> 's \<Rightarrow> bool" for s0 where
  start: "reach s0 s0"
| acq: "reach s0 s \<Longrightarrow> acquire n s = (r, s') \<Longrightarrow> reach s0 s'"
| rel: "reach s0 s \<Longrightarrow> release h s = (re, s') \<Longrightarrow> reach s0 s'"

lemma reach_inv_bound:
  assumes "reach s0 s" "inv s0" "\<And>n. card (holders s0 n) \<le> limit"
  shows "inv s \<and> (\<forall>n. card (holders s n) \<le> limit)"
  using assms
proof (induction rule: reach.induct)
  case (acq s n r s')
  then have s: "inv s" "\<And>m. card (holders s m) \<le> limit" by auto
  show ?case
  proof (cases r)
    case (Inl e)
    with acquire_err[OF s(1)] acq.hyps(2) s show ?thesis by auto
  next
    case (Inr h)
    with acquire_ok[OF s(1)] acq.hyps(2)
    have "inv s'" "card (holders s n) < limit" "holders s' = (holders s)(n := insert h (holders s n))"
      "h \<notin> holders s n" by auto
    with s finite_holders[OF s(1), of n] show ?thesis by auto
  qed
next
  case (rel s h re s')
  then have s: "inv s" "\<And>m. card (holders s m) \<le> limit" by auto
  with release_ok[OF s(1) rel.hyps(2)] finite_holders[OF s(1)] show ?case
    by (auto intro: order_trans[OF card_mono[where B = "holders s n" for n]])
qed simp

text \<open>At most \<open>limit\<close> handles at any time: mutual exclusion, for a limit of one.\<close>

lemma mutual_exclusion:
  assumes "reach s0 s" "inv s0" "\<And>n. holders s0 n = {}" "limit = 1"
    and "h \<in> holders s n" "h' \<in> holders s n"
  shows "h = h'"
proof -
  have "inv s \<and> (\<forall>n. card (holders s n) \<le> limit)"
    using reach_inv_bound[OF assms(1,2)] assms(3) by simp
  with assms(4) have "inv s" "card (holders s n) \<le> 1" by auto
  with finite_holders[of s n] assms(5,6) show ?thesis
    by (metis card_le_Suc0_iff_eq One_nat_def)
qed

text \<open>
  \<open>WithLock\<close> leaves the holders as they were, when the protected function leaves the lock
  it runs under alone: it neither adds nor removes holders on balance.
\<close>

lemma with_lock_restores:
  assumes "inv s" "with_lock_st (acquire n) release fn s = (r, s')"
    and fn: "\<And>s1 s2 r. inv s1 \<Longrightarrow> fn s1 = (r, s2) \<Longrightarrow> inv s2 \<and> holders s2 = holders s1"
  shows "inv s' \<and> holders s' n = holders s n"
proof -
  obtain a s1 where a: "acquire n s = (a, s1)" by (cases "acquire n s")
  show ?thesis
  proof (cases a)
    case (Inl e)
    with a assms(2) acquire_err[OF assms(1)] show ?thesis by (auto simp: with_lock_st_def)
  next
    case (Inr h)
    obtain fr s2 where f: "fn s1 = (fr, s2)" by (cases "fn s1")
    obtain e s3 where rl: "release h s2 = (e, s3)" by (cases "release h s2")
    from acquire_ok[OF assms(1)] a Inr
    have 1: "inv s1" "h \<notin> holders s n" "holders s1 = (holders s)(n := insert h (holders s n))"
      by auto
    from fn[OF 1(1) f] have 2: "inv s2" "holders s2 = holders s1" by auto
    from release_ok[OF 2(1) rl] 1 2 have "inv s3" "holders s3 n = holders s n" by auto
    with a Inr f rl assms(2) show ?thesis by (simp add: with_lock_st_def)
  qed
qed

end

end
