(* ===== verification/Memlock.thy ===== *)
theory Memlock
  imports LockApi
begin

text \<open>
  \<open>memlock/memlock.go\<close>: the in-memory backend.  A factory is its two maps plus the store of
  the \<open>Holder\<close> objects it has handed out, whose \<open>released\<close> flags \<open>Release\<close> reads and
  writes through a pointer; a pointer is an index into the store.  The critical section of
  \<open>Acquire\<close> (under \<open>f.mu\<close>) and the atomic increment of the token counter that follows
  it are separate steps, so that calls of several goroutines can be interleaved.
\<close>

section \<open>State\<close>

definition mem_ErrLocked :: gerr where
  "mem_ErrLocked = Sentinel ''memlock: locked''"

declare mem_ErrLocked_def [sentinel_defs]

record mem_holder =
  mh_name :: string
  mh_token :: "64 word"
  mh_released :: bool

record mem_factory =
  mem_state :: "string \<rightharpoonup> int"
  mem_tokens :: "string \<rightharpoonup> 64 word"
  mem_objs :: "mem_holder list"

definition mem_NewFactory :: mem_factory where
  "mem_NewFactory = \<lparr>mem_state = Map.empty, mem_tokens = Map.empty, mem_objs = []\<rparr>"

section \<open>Options\<close>

text \<open>An option is a function on the configuration, or \<open>None\<close> for a nil option.\<close>

record mem_config = mem_maxConcurrent :: int

type_synonym mem_option = "(mem_config \<Rightarrow> mem_config) option"

definition mem_WithMaxConcurrent :: "int \<Rightarrow> mem_option" where
  "mem_WithMaxConcurrent n =
     Some (\<lambda>c. c\<lparr>mem_maxConcurrent := (if n < 1 then 1 else n)\<rparr>)"

definition mem_applyOptions :: "mem_option list \<Rightarrow> mem_config" where
  "mem_applyOptions opts =
     foldl (\<lambda>c opt. case opt of None \<Rightarrow> c | Some f \<Rightarrow> f c) \<lparr>mem_maxConcurrent = 1\<rparr> opts"

section \<open>Acquire\<close>

text \<open>
  The part of \<open>Acquire\<close> under the mutex: create the two map entries on demand, then take a
  slot if fewer than the limit are held.
\<close>

definition mem_acquire_locked :: "int \<Rightarrow> string \<Rightarrow> mem_factory \<Rightarrow> bool \<times> mem_factory" where
  "mem_acquire_locked limit name f =
     (let held = (case mem_state f name of None \<Rightarrow> 0 | Some h \<Rightarrow> h);
          tk = (case mem_tokens f name of None \<Rightarrow> 0 | Some t \<Rightarrow> t);
          f1 = f\<lparr>mem_state := (mem_state f)(name \<mapsto> held),
                 mem_tokens := (mem_tokens f)(name \<mapsto> tk)\<rparr>
      in if held \<ge> limit then (False, f1)
         else (True, f1\<lparr>mem_state := (mem_state f1)(name \<mapsto> held + 1)\<rparr>))"

text \<open>\<open>tk.Add(1)\<close> and the allocation of the holder; the result is the holder's index.\<close>

definition mem_finish :: "string \<Rightarrow> mem_factory \<Rightarrow> nat \<times> mem_factory" where
  "mem_finish name f =
     (let t = (case mem_tokens f name of None \<Rightarrow> 0 | Some t \<Rightarrow> t) + 1
      in (length (mem_objs f),
          f\<lparr>mem_tokens := (mem_tokens f)(name \<mapsto> t),
            mem_objs := mem_objs f @ [\<lparr>mh_name = name, mh_token = t, mh_released = False\<rparr>]\<rparr>))"

definition mem_Acquire :: "err \<Rightarrow> string \<Rightarrow> mem_option list \<Rightarrow> mem_factory \<Rightarrow> (gerr + nat) \<times> mem_factory" where
  "mem_Acquire ctx_e name opts f =
     (case ctx_e of
        Some e \<Rightarrow> (Inl e, f)
      | None \<Rightarrow>
          (case mem_acquire_locked (mem_maxConcurrent (mem_applyOptions opts)) name f of
             (False, f1) \<Rightarrow> (Inl mem_ErrLocked, f1)
           | (True, f1) \<Rightarrow> (case mem_finish name f1 of (h, f2) \<Rightarrow> (Inr h, f2))))"

section \<open>Release\<close>

definition mem_Token :: "nat \<Rightarrow> mem_factory \<Rightarrow> 64 word" where
  "mem_Token h f = mh_token (mem_objs f ! h)"

text \<open>
  The compare-and-swap of the flag and the part under the mutex are two steps.  The first
  answers the name when the caller won the swap, \<open>None\<close> when the holder was released before.
\<close>

definition mem_release_cas :: "nat \<Rightarrow> mem_factory \<Rightarrow> string option \<times> mem_factory" where
  "mem_release_cas h f =
     (if h \<ge> length (mem_objs f) \<or> mh_released (mem_objs f ! h) then (None, f)
      else (Some (mh_name (mem_objs f ! h)),
            f\<lparr>mem_objs := (mem_objs f)[h := (mem_objs f ! h)\<lparr>mh_released := True\<rparr>]\<rparr>))"

definition mem_release_locked :: "string \<Rightarrow> mem_factory \<Rightarrow> mem_factory" where
  "mem_release_locked name f =
     (case mem_state f name of
        None \<Rightarrow> f
      | Some held \<Rightarrow>
          f\<lparr>mem_state := (if held - 1 \<le> 0 then (mem_state f)(name := None)
                         else (mem_state f)(name \<mapsto> held - 1))\<rparr>)"

definition mem_Release :: "nat \<Rightarrow> mem_factory \<Rightarrow> err \<times> mem_factory" where
  "mem_Release h f =
     (case mem_release_cas h f of
        (None, f1) \<Rightarrow> (None, f1)
      | (Some name, f1) \<Rightarrow> (None, mem_release_locked name f1))"

section \<open>WithLock and the adapter\<close>

definition mem_WithLock ::
  "err \<Rightarrow> string \<Rightarrow> (mem_factory \<Rightarrow> fn_res \<times> mem_factory) \<Rightarrow> mem_option list \<Rightarrow> mem_factory \<Rightarrow> fn_res \<times> mem_factory" where
  "mem_WithLock ctx_e name fn opts = with_lock_st (mem_Acquire ctx_e name opts) mem_Release fn"

definition mem_adapter_Acquire :: "err \<Rightarrow> string \<Rightarrow> mem_factory \<Rightarrow> (gerr + nat) \<times> mem_factory" where
  "mem_adapter_Acquire ctx_e name f =
     (case mem_Acquire ctx_e name [] f of
        (Inl e, f1) \<Rightarrow> (Inl (if errors_is e mem_ErrLocked then lock_ErrLocked else e), f1)
      | (Inr h, f1) \<Rightarrow> (Inr h, f1))"

definition mem_adapter_Release :: "nat \<Rightarrow> mem_factory \<Rightarrow> err \<times> mem_factory" where
  "mem_adapter_Release = mem_Release"

section \<open>What the counters count\<close>

definition mem_live :: "mem_factory \<Rightarrow> string \<Rightarrow> nat set" where
  "mem_live f n =
     {h. h < length (mem_objs f) \<and> mh_name (mem_objs f ! h) = n \<and> \<not> mh_released (mem_objs f ! h)}"

definition mem_count :: "mem_factory \<Rightarrow> string \<Rightarrow> nat" where
  "mem_count f n = length (filter (\<lambda>x. mh_name x = n \<and> \<not> mh_released x) (mem_objs f))"

definition mem_issued :: "string \<Rightarrow> mem_holder list \<Rightarrow> nat" where
  "mem_issued n xs = length (filter (\<lambda>x. mh_name x = n) xs)"

definition held_of :: "mem_factory \<Rightarrow> string \<Rightarrow> int" where
  "held_of f n = (case mem_state f n of None \<Rightarrow> 0 | Some h \<Rightarrow> h)"

definition tokens_of :: "mem_factory \<Rightarrow> string \<Rightarrow> 64 word" where
  "tokens_of f n = (case mem_tokens f n of None \<Rightarrow> 0 | Some t \<Rightarrow> t)"

text \<open>
  The invariant, with the names of the goroutines that have taken a slot and not yet drawn
  their token in \<open>pend\<close>: \<open>held\<close> counts live holders and pending goroutines, and the token
  of a holder is its position among the holders of its name.
\<close>

definition mem_inv :: "mem_factory \<Rightarrow> string list \<Rightarrow> bool" where
  "mem_inv f pend \<longleftrightarrow>
     (\<forall>n. held_of f n = int (mem_count f n + count_list pend n)) \<and>
     (\<forall>n. tokens_of f n = of_nat (mem_issued n (mem_objs f))) \<and>
     (\<forall>h < length (mem_objs f). mh_token (mem_objs f ! h) =
        of_nat (mem_issued (mh_name (mem_objs f ! h)) (take (Suc h) (mem_objs f))))"

lemma card_mem_live: "card (mem_live f n) = mem_count f n"
  by (simp add: mem_live_def mem_count_def length_filter_conv_card)

lemma finite_mem_live [simp]: "finite (mem_live f n)"
  by (simp add: mem_live_def)

lemma mem_inv_new [simp]: "mem_inv mem_NewFactory []"
  by (simp add: mem_inv_def mem_NewFactory_def held_of_def tokens_of_def mem_count_def mem_issued_def)

lemma mem_acquire_locked_spec:
  assumes "mem_acquire_locked lim n f = (b, f')"
  shows "b \<longleftrightarrow> held_of f n < lim" and "mem_objs f' = mem_objs f"
    and "held_of f' = (held_of f)(n := held_of f n + (if b then 1 else 0))"
    and "tokens_of f' = tokens_of f"
  using assms
  by (auto simp: mem_acquire_locked_def held_of_def tokens_of_def Let_def fun_eq_iff
      split: option.splits if_splits)

lemma mem_issued_simps [simp]:
  "mem_issued n [] = 0"
  "mem_issued n (xs @ [x]) = mem_issued n xs + (if mh_name x = n then 1 else 0)"
  by (simp_all add: mem_issued_def)

lemma mem_finish_spec:
  assumes "mem_finish n f = (h, f')"
  shows "h = length (mem_objs f)" and "held_of f' = held_of f"
    and "tokens_of f' = (tokens_of f)(n := tokens_of f n + 1)"
    and "mem_objs f' = mem_objs f @ [\<lparr>mh_name = n, mh_token = tokens_of f n + 1, mh_released = False\<rparr>]"
  using assms by (auto simp: mem_finish_def held_of_def tokens_of_def Let_def)

lemma mem_inv_locked:
  assumes "mem_inv f pend" "mem_acquire_locked lim n f = (b, f')"
  shows "mem_inv f' (if b then n # pend else pend)"
  using assms(1) mem_acquire_locked_spec[OF assms(2)]
  by (auto simp: mem_inv_def mem_count_def)

lemma mem_inv_finish:
  assumes "mem_inv f pend" "n \<in> set pend" "mem_finish n f = (h, f')"
  shows "mem_inv f' (remove1 n pend)"
proof -
  note sp = mem_finish_spec[OF assms(3)]
  have cnt: "count_list (remove1 n pend) m + (if m = n then 1 else 0) = count_list pend m" for m
    using assms(2) by (induction pend) auto
  have held: "held_of f' m = int (mem_count f' m + count_list (remove1 n pend) m)" for m
    using assms(1) cnt[of m] sp by (auto simp: mem_inv_def mem_count_def split: if_splits)
  have tok: "tokens_of f' m = of_nat (mem_issued m (mem_objs f'))" for m
    using assms(1) sp by (auto simp: mem_inv_def)
  have objs: "mh_token (mem_objs f' ! k) =
      of_nat (mem_issued (mh_name (mem_objs f' ! k)) (take (Suc k) (mem_objs f')))"
    if "k < length (mem_objs f')" for k
  proof (cases "k < length (mem_objs f)")
    case True
    then show ?thesis using assms(1) sp(4) by (simp add: mem_inv_def nth_append)
  next
    case False
    with that sp(4) have "k = length (mem_objs f)" by simp
    then show ?thesis using assms(1) sp(4) by (simp add: mem_inv_def)
  qed
  from held tok objs show ?thesis by (simp add: mem_inv_def)
qed

lemma mem_issued_update [simp]:
  "mh_name y = mh_name (xs ! h) \<Longrightarrow> mem_issued n (xs[h := y]) = mem_issued n xs"
proof (cases "h < length xs")
  case True
  assume "mh_name y = mh_name (xs ! h)"
  with length_filter_update[OF True, of "\<lambda>x. mh_name x = n" y] show ?thesis
    by (simp add: mem_issued_def split: if_splits)
qed (simp add: list_update_beyond)

lemma mem_release_cas_None:
  "mem_release_cas h f = (None, f') \<Longrightarrow> f' = f \<and> (\<forall>n. h \<notin> mem_live f n)"
  by (auto simp: mem_release_cas_def mem_live_def split: if_splits)

lemma mem_release_cas_Some:
  assumes "mem_release_cas h f = (Some n, f')"
  shows "h < length (mem_objs f)" and "\<not> mh_released (mem_objs f ! h)" and "n = mh_name (mem_objs f ! h)"
    and "mem_objs f' = (mem_objs f)[h := (mem_objs f ! h)\<lparr>mh_released := True\<rparr>]"
    and "held_of f' = held_of f" and "tokens_of f' = tokens_of f"
  using assms by (auto simp: mem_release_cas_def held_of_def tokens_of_def fun_eq_iff split: if_splits)

lemma mem_release_locked_spec:
  "1 \<le> held_of f n \<Longrightarrow>
     held_of (mem_release_locked n f) = (held_of f)(n := held_of f n - 1)"
  "mem_objs (mem_release_locked n f) = mem_objs f"
  "tokens_of (mem_release_locked n f) = tokens_of f"
  by (auto simp: mem_release_locked_def held_of_def tokens_of_def fun_eq_iff split: option.splits)

lemma mem_live_cas:
  assumes "mem_release_cas h f = (Some n, f')"
  shows "mem_live f' = (\<lambda>m. mem_live f m - {h})"
  using mem_release_cas_Some[OF assms]
  by (auto simp: mem_live_def fun_eq_iff nth_list_update split: if_splits)

lemma mem_live_locked [simp]: "mem_live (mem_release_locked n f) = mem_live f"
  by (simp add: mem_live_def mem_release_locked_spec fun_eq_iff)

lemma mem_inv_cas:
  assumes "mem_inv f pend" "mem_release_cas h f = (Some n, f')"
  shows "mem_inv f' (n # pend)"
proof -
  note sp = mem_release_cas_Some[OF assms(2)]
  let ?o = "mem_objs f ! h"
  have cnt: "mem_count f' m + (if m = n then 1 else 0) = mem_count f m" for m
    using length_filter_update[OF sp(1), of "\<lambda>x. mh_name x = m \<and> \<not> mh_released x"
        "?o\<lparr>mh_released := True\<rparr>"] sp(2,3)
    by (auto simp: mem_count_def sp(4) split: if_splits)
  have held: "held_of f' m = int (mem_count f' m + count_list (n # pend) m)" for m
    using cnt[of m] assms(1) sp(5) by (auto simp: mem_inv_def split: if_splits)
  have iss: "mem_issued m (take k (mem_objs f')) = mem_issued m (take k (mem_objs f))" for m k
    by (cases "h < k") (simp_all add: sp(4) take_update_swap list_update_beyond)
  have nm: "mh_name (mem_objs f' ! k) = mh_name (mem_objs f ! k)"
    "mh_token (mem_objs f' ! k) = mh_token (mem_objs f ! k)" for k
    by (cases "k = h"; simp add: sp(1,4))+
  have len: "length (mem_objs f') = length (mem_objs f)"
    and all: "mem_issued m (mem_objs f') = mem_issued m (mem_objs f)" for m
    by (simp_all add: sp(4))
  show ?thesis
    using assms(1) held sp(6) by (simp add: mem_inv_def iss nm len all)
qed

lemma mem_inv_release:
  assumes "mem_inv f pend" "n \<in> set pend"
  shows "mem_inv (mem_release_locked n f) (remove1 n pend)"
proof -
  have cnt: "count_list (remove1 n pend) m + (if m = n then 1 else 0) = count_list pend m" for m
    using assms(2) by (induction pend) auto
  have "0 < count_list pend n" using assms(2) by (simp add: count_list_gt_0)
  then have "1 \<le> held_of f n" using assms(1) by (simp add: mem_inv_def)
  note sp = mem_release_locked_spec(1)[OF this] mem_release_locked_spec(2,3)
  have "held_of (mem_release_locked n f) m =
      int (mem_count (mem_release_locked n f) m + count_list (remove1 n pend) m)" for m
    using assms(1) cnt[of m] sp by (auto simp: mem_inv_def mem_count_def split: if_splits)
  then show ?thesis using assms(1) unfolding mem_inv_def sp(2,3) by blast
qed

lemma mem_Release_spec:
  assumes "mem_inv f pend" "mem_Release h f = (e, f')"
  shows "e = None" and "mem_inv f' pend" and "mem_live f' = (\<lambda>n. mem_live f n - {h})"
proof -
  have "e = None \<and> mem_inv f' pend \<and> mem_live f' = (\<lambda>n. mem_live f n - {h})"
  proof (cases "mem_release_cas h f")
    case (Pair r f1)
    show ?thesis
    proof (cases r)
      case None
      with Pair assms mem_release_cas_None[of h f f1] show ?thesis
        by (auto simp: mem_Release_def)
    next
      case (Some n)
      have c: "mem_release_cas h f = (Some n, f1)" using Pair Some by simp
      have "mem_inv (mem_release_locked n f1) (remove1 n (n # pend))"
        using mem_inv_cas[OF assms(1) c] by (rule mem_inv_release) simp
      with c assms(2) mem_live_cas[OF c] show ?thesis by (auto simp: mem_Release_def)
    qed
  qed
  then show "e = None" "mem_inv f' pend" "mem_live f' = (\<lambda>n. mem_live f n - {h})" by simp_all
qed

lemma mem_Acquire_spec:
  assumes "mem_inv f pend" "mem_Acquire None n opts f = (r, f')"
  shows "mem_inv f' pend"
    and "r = Inl e \<Longrightarrow> e = mem_ErrLocked \<and> mem_maxConcurrent (mem_applyOptions opts) \<le> held_of f n
      \<and> mem_live f' = mem_live f"
    and "r = Inr h \<Longrightarrow> held_of f n < mem_maxConcurrent (mem_applyOptions opts)
      \<and> h = length (mem_objs f) \<and> mem_Token h f' = tokens_of f n + 1
      \<and> mem_live f' = (mem_live f)(n := insert h (mem_live f n))"
proof -
  obtain b f1 where l: "mem_acquire_locked (mem_maxConcurrent (mem_applyOptions opts)) n f = (b, f1)"
    by fastforce
  obtain h' f2 where g: "mem_finish n f1 = (h', f2)" by fastforce
  note ls = mem_acquire_locked_spec[OF l] and gs = mem_finish_spec[OF g]
  have i: "mem_inv f1 (if b then n # pend else pend)" by (rule mem_inv_locked[OF assms(1) l])
  have r: "r = (if b then Inr h' else Inl mem_ErrLocked)" "f' = (if b then f2 else f1)"
    using assms(2) l g by (auto simp: mem_Acquire_def)
  show "mem_inv f' pend"
    using i mem_inv_finish[of f1 "n # pend" n, OF _ _ g] by (auto simp: r split: if_splits)
  show "r = Inl e \<Longrightarrow> e = mem_ErrLocked \<and> mem_maxConcurrent (mem_applyOptions opts) \<le> held_of f n
      \<and> mem_live f' = mem_live f"
    using r ls by (auto simp: mem_live_def fun_eq_iff split: if_splits)
  show "r = Inr h \<Longrightarrow> held_of f n < mem_maxConcurrent (mem_applyOptions opts)
      \<and> h = length (mem_objs f) \<and> mem_Token h f' = tokens_of f n + 1
      \<and> mem_live f' = (mem_live f)(n := insert h (mem_live f n))"
    using r ls gs by (auto simp: mem_live_def mem_Token_def fun_eq_iff nth_append split: if_splits)
qed

lemma mem_maxConcurrent_With [simp]:
  "mem_maxConcurrent (mem_applyOptions [mem_WithMaxConcurrent k]) = max 1 k"
  "mem_maxConcurrent (mem_applyOptions []) = 1"
  by (simp_all add: mem_applyOptions_def mem_WithMaxConcurrent_def)

text \<open>The backend, with any fixed semaphore size, keeps the contract of a named lock.\<close>

interpretation ml: named_lock "\<lambda>n. mem_Acquire None n [mem_WithMaxConcurrent (int k)]"
  mem_Release mem_live "\<lambda>f. mem_inv f []" "max 1 k" for k
proof (unfold_locales, goal_cases)
  case (1 s n h s')
  have "held_of s n = int (mem_count s n)" using 1(1) by (simp add: mem_inv_def)
  then have "card (mem_live s n) < max 1 k"
    using mem_Acquire_spec(3)[OF 1] by (simp add: card_mem_live) linarith
  with mem_Acquire_spec(1)[OF 1] mem_Acquire_spec(3)[OF 1] show ?case by (auto simp: mem_live_def)
next
  case (2 s n e s')
  then show ?case using mem_Acquire_spec(1,2)[OF 2] by blast
next
  case (3 s h re s')
  then show ?case using mem_Release_spec[OF 3] by blast
qed simp

section \<open>Interleaved calls\<close>

text \<open>
  The factory under calls of any number of goroutines: \<open>pend\<close> are the names of the calls to
  \<open>Acquire\<close> that took a slot and have not drawn a token, \<open>rel\<close> those of the calls to
  \<open>Release\<close> that won the swap and have not freed the slot.
\<close>

record mem_conc =
  mc_factory :: mem_factory
  mc_pend :: "string list"
  mc_rel :: "string list"

inductive mem_step :: "int \<Rightarrow> mem_conc \<Rightarrow> mem_conc \<Rightarrow> bool" for N where
  enter: "mem_maxConcurrent (mem_applyOptions opts) \<le> N \<Longrightarrow>
      mem_acquire_locked (mem_maxConcurrent (mem_applyOptions opts)) n (mc_factory c) = (b, f') \<Longrightarrow>
      mem_step N c (c\<lparr>mc_factory := f', mc_pend := (if b then n # mc_pend c else mc_pend c)\<rparr>)"
| draw: "n \<in> set (mc_pend c) \<Longrightarrow> mem_finish n (mc_factory c) = (h, f') \<Longrightarrow>
      mem_step N c (c\<lparr>mc_factory := f', mc_pend := remove1 n (mc_pend c)\<rparr>)"
| cas: "mem_release_cas h (mc_factory c) = (r, f') \<Longrightarrow>
      mem_step N c (c\<lparr>mc_factory := f',
        mc_rel := (case r of None \<Rightarrow> mc_rel c | Some n \<Rightarrow> n # mc_rel c)\<rparr>)"
| free: "n \<in> set (mc_rel c) \<Longrightarrow>
      mem_step N c (c\<lparr>mc_factory := mem_release_locked n (mc_factory c),
        mc_rel := remove1 n (mc_rel c)\<rparr>)"

inductive mem_reach :: "int \<Rightarrow> mem_conc \<Rightarrow> bool" for N where
  new: "mem_reach N \<lparr>mc_factory = mem_NewFactory, mc_pend = [], mc_rel = []\<rparr>"
| more: "mem_reach N c \<Longrightarrow> mem_step N c c' \<Longrightarrow> mem_reach N c'"

lemma mem_inv_perm: "mem_inv f xs \<Longrightarrow> (\<And>n. count_list ys n = count_list xs n) \<Longrightarrow> mem_inv f ys"
  by (simp add: mem_inv_def)

definition mem_conc_inv :: "int \<Rightarrow> mem_conc \<Rightarrow> bool" where
  "mem_conc_inv N c \<longleftrightarrow> mem_inv (mc_factory c) (mc_pend c @ mc_rel c) \<and>
     (\<forall>n. held_of (mc_factory c) n \<le> N)"

lemma mem_step_inv:
  assumes "mem_step N c c'" "mem_conc_inv N c" "0 \<le> N"
  shows "mem_conc_inv N c'"
  using assms(1)
proof cases
  case (enter opts n b f')
  note sp = mem_acquire_locked_spec[OF enter(3)]
  show ?thesis
    using mem_inv_locked[OF _ enter(3), of "mc_pend c @ mc_rel c"] sp enter assms(2)
    by (auto simp: mem_conc_inv_def split: if_splits)
next
  case (draw n h f')
  have "mem_inv f' (remove1 n (mc_pend c @ mc_rel c))"
    using mem_inv_finish[OF _ _ draw(3)] draw(2) assms(2) by (simp add: mem_conc_inv_def)
  with draw assms(2) mem_finish_spec(2)[OF draw(3)] show ?thesis
    by (simp add: mem_conc_inv_def remove1_append)
next
  case (cas h r f')
  show ?thesis
  proof (cases r)
    case None
    with cas have "f' = mc_factory c" using mem_release_cas_None[of h "mc_factory c" f'] by simp
    with cas None assms(2) show ?thesis by (simp add: mem_conc_inv_def)
  next
    case (Some n)
    have c: "mem_release_cas h (mc_factory c) = (Some n, f')" using cas Some by simp
    have "mem_inv f' (n # mc_pend c @ mc_rel c)"
      using mem_inv_cas[OF _ c] assms(2) by (simp add: mem_conc_inv_def)
    then have "mem_inv f' (mc_pend c @ n # mc_rel c)" by (rule mem_inv_perm) simp
    with cas Some assms(2) mem_release_cas_Some(5)[OF c] show ?thesis
      by (simp add: mem_conc_inv_def)
  qed
next
  case (free n)
  have i: "mem_inv (mc_factory c) (mc_pend c @ mc_rel c)" using assms(2) by (simp add: mem_conc_inv_def)
  have "mem_inv (mem_release_locked n (mc_factory c)) (remove1 n (mc_pend c @ mc_rel c))"
    using i by (rule mem_inv_release) (simp add: free(2))
  then have j: "mem_inv (mem_release_locked n (mc_factory c)) (mc_pend c @ remove1 n (mc_rel c))"
    by (rule mem_inv_perm)
      (use free(2) count_list_gt_0[of "mc_rel c" n] in \<open>auto simp: count_list_remove1\<close>)
  have "0 < count_list (mc_rel c) n" using free(2) by (simp add: count_list_gt_0)
  then have "1 \<le> held_of (mc_factory c) n" using i by (simp add: mem_inv_def)
  then have "held_of (mem_release_locked n (mc_factory c)) m \<le> held_of (mc_factory c) m" for m
    by (simp add: mem_release_locked_spec(1))
  with assms(2) have "held_of (mem_release_locked n (mc_factory c)) m \<le> N" for m
    by (meson mem_conc_inv_def order_trans)
  with j free(1) show ?thesis by (simp add: mem_conc_inv_def)
qed

lemma mem_reach_inv: "mem_reach N c \<Longrightarrow> 0 \<le> N \<Longrightarrow> mem_conc_inv N c"
proof (induction rule: mem_reach.induct)
  case new
  then show ?case by (simp add: mem_conc_inv_def) (simp add: held_of_def mem_NewFactory_def)
qed (blast intro: mem_step_inv)

lemma mem_issued_strict:
  "h < h' \<Longrightarrow> h' < length xs \<Longrightarrow> mh_name (xs ! h') = n \<Longrightarrow>
     mem_issued n (take (Suc h) xs) < mem_issued n (take (Suc h') xs)"
proof -
  assume a: "h < h'" "h' < length xs" "mh_name (xs ! h') = n"
  have "take h' xs = take (Suc h) xs @ take (h' - Suc h) (drop (Suc h) xs)"
    using a(1) take_add[of "Suc h" "h' - Suc h" xs] by simp
  then show ?thesis using a(2,3) by (simp add: mem_issued_def take_Suc_conv_app_nth)
qed

lemma mem_live_count: "mem_inv f pend \<Longrightarrow> int (card (mem_live f n)) + int (count_list pend n) = held_of f n"
  by (simp add: mem_inv_def card_mem_live)

section \<open>Properties\<close>

text \<open>C1: However the calls of any number of goroutines interleave, no lock has more than \<open>N\<close>
  holders, counting the calls that took a slot and have not returned yet, when every call asks
  for a limit of at most \<open>N\<close>.\<close>

theorem mem_concurrent_bound:
  assumes "mem_reach N c" "0 \<le> N"
  shows "int (card (mem_live (mc_factory c) n)) + int (count_list (mc_pend c) n) \<le> N"
proof -
  have "mem_inv (mc_factory c) (mc_pend c @ mc_rel c)" "held_of (mc_factory c) n \<le> N"
    using mem_reach_inv[OF assms] by (simp_all add: mem_conc_inv_def)
  with mem_live_count[of "mc_factory c" "mc_pend c @ mc_rel c" n] show ?thesis by simp
qed

theorem mem_concurrent_bound_witness:
  "\<exists>c. mem_reach 1 c \<and> mc_pend c = [''job''] \<and>
     int (card (mem_live (mc_factory c) ''job'')) + int (count_list (mc_pend c) ''job'') \<le> 1"
proof -
  let ?c = "\<lparr>mc_factory = mem_NewFactory, mc_pend = [], mc_rel = []\<rparr>"
  obtain f' where f': "mem_acquire_locked (mem_maxConcurrent (mem_applyOptions [])) ''job'' (mc_factory ?c) = (True, f')"
    by (simp add: mem_acquire_locked_def mem_NewFactory_def)
  have "mem_reach 1 (?c\<lparr>mc_factory := f', mc_pend := [''job'']\<rparr>)"
    using mem_reach.more[OF mem_reach.new mem_step.enter[OF _ f', of 1]] by simp
  from mem_concurrent_bound[OF this, of "''job''"] this show ?thesis
    by (intro exI[of _ "?c\<lparr>mc_factory := f', mc_pend := [''job'']\<rparr>"]) simp
qed



text \<open>\<open>Acquire\<close> on a consistent factory: with a free slot it makes the new holder the only
  change to the holders and gives it the next token; without one it answers \<open>ErrLocked\<close> and
  changes no holder; a cancelled context is answered with the context's error and no change.\<close>

theorem mem_Acquire_branches:
  assumes "mem_inv f []"
  shows "case mem_Acquire ctx_e n opts f of
      (Inl e, f') \<Rightarrow> (if ctx_e = None
         then e = mem_ErrLocked \<and> mem_maxConcurrent (mem_applyOptions opts) \<le> int (card (mem_live f n))
            \<and> mem_live f' = mem_live f \<and> mem_inv f' []
         else ctx_e = Some e \<and> f' = f)
    | (Inr h, f') \<Rightarrow> ctx_e = None \<and> int (card (mem_live f n)) < mem_maxConcurrent (mem_applyOptions opts)
         \<and> h \<notin> mem_live f n \<and> mem_live f' = (mem_live f)(n := insert h (mem_live f n))
         \<and> mem_Token h f' = tokens_of f n + 1 \<and> mem_inv f' []"
proof (cases ctx_e)
  case None
  obtain r f' where a: "mem_Acquire None n opts f = (r, f')" by fastforce
  have h: "held_of f n = int (card (mem_live f n))" using mem_live_count[OF assms, of n] by simp
  show ?thesis
    using mem_Acquire_spec[OF assms a] h by (cases r) (auto simp: None a mem_live_def)
qed (simp add: mem_Acquire_def)

theorem mem_Acquire_branches_witness:
  "case mem_Acquire None ''job'' [] mem_NewFactory of
      (Inl e, f') \<Rightarrow> False
    | (Inr h, f') \<Rightarrow> mem_live f' ''job'' = {h} \<and> mem_Token h f' = 1 \<and>
        fst (mem_Acquire None ''job'' [] f') = Inl mem_ErrLocked"
  using mem_Acquire_branches[OF mem_inv_new, where ctx_e = None and n = "''job''" and opts = "[]"]
  by (auto simp: mem_Acquire_def mem_acquire_locked_def mem_finish_def mem_NewFactory_def
      mem_live_def tokens_of_def mem_Token_def)

text \<open>\<open>Release\<close> never fails, takes away exactly the holder it is called on, is without effect
  the second time, and makes room: whoever asks next with the same limit gets the lock.\<close>

theorem mem_Release_frees:
  assumes "mem_inv f []" "h \<in> mem_live f n" "mem_Release h f = (e, f')"
    and "int (card (mem_live f n)) \<le> mem_maxConcurrent (mem_applyOptions opts)"
  shows "e = None \<and> mem_live f' = (\<lambda>m. mem_live f m - {h}) \<and> mem_Release h f' = (None, f')
    \<and> isl (fst (mem_Acquire None n opts f')) = False"
proof -
  note sp = mem_Release_spec[OF assms(1,3)]
  have "h \<notin> mem_live f' m" for m using sp(3) by simp
  then have again: "mem_Release h f' = (None, f')"
    by (cases "mem_release_cas h f'")
      (auto simp: mem_Release_def mem_release_cas_def mem_live_def split: if_splits)
  have "card (mem_live f' n) < card (mem_live f n)"
    using assms(2) by (simp only: sp(3)) (rule card_Diff1_less[OF finite_mem_live])
  then have lt: "int (card (mem_live f' n)) < mem_maxConcurrent (mem_applyOptions opts)" using assms(4) by simp
  obtain r f2 where a: "mem_Acquire None n opts f' = (r, f2)" by fastforce
  have "held_of f' n = int (card (mem_live f' n))" using mem_live_count[OF sp(2), of n] by simp
  then have "\<not> isl r" using mem_Acquire_spec(2)[OF sp(2) a] lt by (cases r) auto
  with sp again a show ?thesis by simp
qed

theorem mem_Release_frees_witness:
  "(case mem_Acquire None ''job'' [] mem_NewFactory of (r, f) \<Rightarrow>
      mem_live (snd (mem_Release 0 f)) ''job'' = {} \<and>
      isl (fst (mem_Acquire None ''job'' [] (snd (mem_Release 0 f)))) = False)"
proof -
  obtain f where f: "mem_Acquire None ''job'' [] mem_NewFactory = (Inr 0, f)"
    by (simp add: mem_Acquire_def mem_acquire_locked_def mem_finish_def mem_NewFactory_def)
  have live: "mem_live f ''job'' = {0}" and i: "mem_inv f []"
    using mem_Acquire_spec[OF mem_inv_new f] by (auto simp: mem_live_def mem_NewFactory_def)
  obtain e f' where r: "mem_Release 0 f = (e, f')" by fastforce
  from mem_Release_frees[OF i _ r, where n = "''job''" and opts = "[]"] live f r show ?thesis by simp
qed

text \<open>\<open>WithLock\<close> gives the lock back on every path of the protected function, a panic
  included, and reports what the function did; without a free slot the function does not run.\<close>

theorem mem_WithLock_restores:
  assumes "mem_inv f []" "mem_WithLock None n fn [mem_WithMaxConcurrent (int k)] f = (r, f')"
    and "\<And>f1 f2 q. mem_inv f1 [] \<Longrightarrow> fn f1 = (q, f2) \<Longrightarrow> mem_inv f2 [] \<and> mem_live f2 = mem_live f1"
  shows "mem_inv f' [] \<and> mem_live f' n = mem_live f n \<and>
    r = (if max 1 k \<le> card (mem_live f n) then Returned (Some mem_ErrLocked)
         else fst (fn (snd (mem_Acquire None n [mem_WithMaxConcurrent (int k)] f))))"
proof (intro conjI)
  from ml.with_lock_restores[OF assms(1) _ assms(3), where n = n and k = k and r = r and s' = f'] assms(2)
  show "mem_inv f' []" "mem_live f' n = mem_live f n" by (simp_all add: mem_WithLock_def)
next
  obtain a f1 where a: "mem_Acquire None n [mem_WithMaxConcurrent (int k)] f = (a, f1)" by fastforce
  have h: "held_of f n = int (card (mem_live f n))" using mem_live_count[OF assms(1), of n] by simp
  show "r = (if max 1 k \<le> card (mem_live f n) then Returned (Some mem_ErrLocked)
         else fst (fn (snd (mem_Acquire None n [mem_WithMaxConcurrent (int k)] f))))"
  proof (cases a)
    case (Inl e)
    with mem_Acquire_spec(2)[OF assms(1) a Inl] h a assms(2) show ?thesis
      by (auto simp: mem_WithLock_def with_lock_st_def)
  next
    case (Inr x)
    have lt: "\<not> max 1 k \<le> card (mem_live f n)"
      using mem_Acquire_spec(3)[OF assms(1) a Inr] h by (auto simp: max_def split: if_splits)
    have rel: "fst (mem_Release x f2) = None" for f2
      by (cases "mem_release_cas x f2") (auto simp: mem_Release_def split: option.splits)
    have mr: "merge_release q None = q" for q
      by (auto simp: merge_release_def split: fn_res.splits option.splits)
    from Inr a assms(2) lt show ?thesis
      by (auto simp: mem_WithLock_def with_lock_st_def case_prod_beta rel mr)
  qed
qed

theorem mem_WithLock_restores_witness:
  "\<exists>f'. mem_WithLock None ''job'' (\<lambda>s. (Panicked ''boom'', s)) [mem_WithMaxConcurrent (int 1)] mem_NewFactory
      = (Panicked ''boom'', f') \<and> mem_live f' ''job'' = {}"
proof -
  obtain r f' where w: "mem_WithLock None ''job'' (\<lambda>s. (Panicked ''boom'', s))
      [mem_WithMaxConcurrent (int 1)] mem_NewFactory = (r, f')" by fastforce
  have e: "mem_live mem_NewFactory ''job'' = {}" by (simp add: mem_live_def mem_NewFactory_def)
  from mem_WithLock_restores[OF mem_inv_new w] e have "r = Panicked ''boom''" "mem_live f' ''job'' = {}"
    by auto
  with w show ?thesis by simp
qed

text \<open>Through the backend-neutral adapter a busy lock is reported as \<open>lock.ErrLocked\<close>, any
  other error unchanged, and the state moves exactly as with the package's own \<open>Acquire\<close>.\<close>

theorem mem_adapter_translates:
  "mem_adapter_Acquire ctx_e n f =
     (case mem_Acquire ctx_e n [] f of
        (Inl e, f') \<Rightarrow> (Inl (if ctx_e = None then lock_ErrLocked
                            else if errors_is e mem_ErrLocked then lock_ErrLocked else e), f')
      | (Inr h, f') \<Rightarrow> (Inr h, f'))"
  by (auto simp: mem_adapter_Acquire_def mem_Acquire_def split: option.splits prod.splits bool.splits)

end
