(* ===== verification/Memlock_Drain.thy ===== *)
theory Memlock_Drain
  imports Memlock
begin

text \<open>
  Progress of \<open>memlock\<close> under interleaving: with no new calls to \<open>Acquire\<close>, the calls under way
  and the releases come to an end, in whichever order they are scheduled, and leave no slot taken.
\<close>

section \<open>Winding down\<close>

text \<open>A step other than the beginning of an \<open>Acquire\<close> or of a \<open>Release\<close> that finds its holder released.\<close>

inductive mem_wind :: "mem_conc \<Rightarrow> mem_conc \<Rightarrow> bool" where
  draw: "n \<in> set (mc_pend c) \<Longrightarrow> mem_finish n (mc_factory c) = (h, f') \<Longrightarrow>
      mem_wind c (c\<lparr>mc_factory := f', mc_pend := remove1 n (mc_pend c)\<rparr>)"
| cas: "mem_release_cas h (mc_factory c) = (Some n, f') \<Longrightarrow>
      mem_wind c (c\<lparr>mc_factory := f', mc_rel := n # mc_rel c\<rparr>)"
| free: "n \<in> set (mc_rel c) \<Longrightarrow>
      mem_wind c (c\<lparr>mc_factory := mem_release_locked n (mc_factory c), mc_rel := remove1 n (mc_rel c)\<rparr>)"

definition mem_unreleased :: "mem_factory \<Rightarrow> nat" where
  "mem_unreleased f = length (filter (\<lambda>x. \<not> mh_released x) (mem_objs f))"

definition mem_work :: "mem_conc \<Rightarrow> nat" where
  "mem_work c = 3 * length (mc_pend c) + 2 * mem_unreleased (mc_factory c) + length (mc_rel c)"

lemma mem_wind_step: "mem_wind c c' \<Longrightarrow> mem_step N c c'"
proof (induction rule: mem_wind.induct)
  case (cas h c n f')
  from mem_step.cas[OF cas, of N] show ?case by simp
qed (auto intro: mem_step.intros)

lemma mem_wind_reach: "mem_wind\<^sup>*\<^sup>* c c' \<Longrightarrow> mem_reach N c \<Longrightarrow> mem_reach N c'"
  by (induction rule: rtranclp_induct) (auto intro: mem_reach.more mem_wind_step)

lemma mem_wind_work: "mem_wind c c' \<Longrightarrow> mem_work c' < mem_work c"
proof (induction rule: mem_wind.induct)
  case (draw n c h f')
  have "length (mc_pend c) = Suc (length (remove1 n (mc_pend c)))" 
    using length_pos_if_in_set[OF draw(1)] draw(1) by (simp add: length_remove1)
  then show ?case using mem_finish_spec(4)[OF draw(2)] by (simp add: mem_work_def mem_unreleased_def)
next
  case (cas h c n f')
  note sp = mem_release_cas_Some[OF cas]
  have "mem_unreleased f' + 1 = mem_unreleased (mc_factory c)"
    using length_filter_update[OF sp(1), of "\<lambda>x. \<not> mh_released x" "(mem_objs (mc_factory c) ! h)\<lparr>mh_released := True\<rparr>"] sp(2)
    by (simp add: mem_unreleased_def sp(4))
  then show ?case by (simp add: mem_work_def)
next
  case (free n c)
  have "0 < length (mc_rel c)" using free by auto
  then show ?case using free by (simp add: mem_work_def mem_unreleased_def mem_release_locked_spec(2) length_remove1)
qed

lemma mem_wind_wf: "wf {(c', c). mem_wind c c'}"
  by (rule wf_subset[OF wf_measure[of mem_work]]) (auto dest: mem_wind_work)

text \<open>Work that is left can be done.\<close>

lemma mem_wind_stuck:
  assumes "\<nexists>d. mem_wind c d"
  shows "mc_pend c = []" "mc_rel c = []" "mem_live (mc_factory c) n = {}"
proof -
  show "mc_pend c = []"
  proof (rule ccontr)
    assume "mc_pend c \<noteq> []"
    then obtain m where "m \<in> set (mc_pend c)" by (cases "mc_pend c") auto
    from mem_wind.draw[OF this surjective_pairing] assms show False by blast
  qed
  show "mc_rel c = []"
  proof (rule ccontr)
    assume "mc_rel c \<noteq> []"
    then obtain m where "m \<in> set (mc_rel c)" by (cases "mc_rel c") auto
    from mem_wind.free[OF this] assms show False by blast
  qed
  have "h \<notin> mem_live (mc_factory c) n" for h
  proof (cases "mem_release_cas h (mc_factory c)")
    case (Pair r f')
    with mem_wind.cas[of h c] assms have "r = None" by (cases r) auto
    with mem_release_cas_None Pair show ?thesis by blast
  qed
  then show "mem_live (mc_factory c) n = {}" by blast
qed

text \<open>The limit of the package's own options, nil ones included.\<close>

lemma mem_options_positive:
  assumes "set opts \<subseteq> insert None (range mem_WithMaxConcurrent)"
  shows "1 \<le> mem_maxConcurrent (mem_applyOptions opts)"
proof -
  have "1 \<le> mem_maxConcurrent (foldl (\<lambda>c opt. case opt of None \<Rightarrow> c | Some f \<Rightarrow> f c) c0 opts)" if "1 \<le> mem_maxConcurrent c0" for c0
    using assms that by (induction opts arbitrary: c0) (auto simp: mem_WithMaxConcurrent_def)
  then show ?thesis by (simp add: mem_applyOptions_def)
qed

text \<open>C11: No slot leaks: from any state the goroutines can get into, once no new \<open>Acquire\<close> begins, every
  schedule of the calls under way and of the releases of the holders ends, and where it ends no slot of
  any name is taken and whoever asks next gets the lock.\<close>

theorem mem_winds_down:
  assumes "mem_reach N c" "0 \<le> N" "set opts \<subseteq> insert None (range mem_WithMaxConcurrent)"
  shows "(\<nexists>run. run 0 = c \<and> (\<forall>i. mem_wind (run i) (run (Suc i)))) \<and>
    (\<forall>c'. mem_wind\<^sup>*\<^sup>* c c' \<and> (\<nexists>d. mem_wind c' d) \<longrightarrow>
       held_of (mc_factory c') n = 0 \<and> mem_live (mc_factory c') n = {} \<and> \<not> isl (fst (mem_Acquire None n opts (mc_factory c'))))"
proof (intro conjI allI impI)
  show "\<nexists>run. run 0 = c \<and> (\<forall>i. mem_wind (run i) (run (Suc i)))"
    using mem_wind_wf by (auto simp: wf_iff_no_infinite_down_chain)
next
  fix c' assume c': "mem_wind\<^sup>*\<^sup>* c c' \<and> (\<nexists>d. mem_wind c' d)"
  have inv: "mem_conc_inv N c'" by (rule mem_reach_inv[OF mem_wind_reach[OF conjunct1[OF c'] assms(1)] assms(2)])
  note stuck = mem_wind_stuck[OF conjunct2[OF c']]
  then show live: "mem_live (mc_factory c') n = {}" by simp
  have i: "mem_inv (mc_factory c') []" using inv stuck(1,2) by (simp add: mem_conc_inv_def)
  with mem_live_count[OF i, of n] live show h: "held_of (mc_factory c') n = 0" by simp
  obtain r f' where a: "mem_Acquire None n opts (mc_factory c') = (r, f')" by fastforce
  from mem_Acquire_spec(2)[OF i a] h mem_options_positive[OF assms(3)]
  show "\<not> isl (fst (mem_Acquire None n opts (mc_factory c')))" by (cases r) (auto simp: a)
qed

theorem mem_winds_down_witness:
  "\<exists>c. mem_reach 1 c \<and> mc_pend c = [''job''] \<and> (\<nexists>run. run 0 = c \<and> (\<forall>i. mem_wind (run i) (run (Suc i))))"
proof -
  let ?c = "\<lparr>mc_factory = mem_NewFactory, mc_pend = [], mc_rel = []\<rparr>"
  obtain f' where f': "mem_acquire_locked (mem_maxConcurrent (mem_applyOptions [])) ''job'' (mc_factory ?c) = (True, f')"
    by (simp add: mem_acquire_locked_def mem_NewFactory_def)
  let ?c' = "?c\<lparr>mc_factory := f', mc_pend := [''job'']\<rparr>"
  have r: "mem_reach 1 ?c'"
    using mem_reach.more[OF mem_reach.new mem_step.enter[OF _ f', of 1]] by simp
  have "\<nexists>run. run 0 = ?c' \<and> (\<forall>i. mem_wind (run i) (run (Suc i)))"
    using mem_winds_down[OF r _ empty_subsetI[of "insert None (range mem_WithMaxConcurrent)", folded list.set(1)]] by simp
  with r show ?thesis by (intro exI[of _ ?c']) simp
qed

end
