(* ===== verification/Lock_Table.thy ===== *)
theory Lock_Table
  imports LockApi
begin

text \<open>
  The contract of a named lock with slots, in full: every answer of \<open>Acquire\<close> and \<open>Release\<close> is the
  one a table of who holds which slot gives.  A lock with one holder has one slot, a semaphore several,
  and a request is given the first that is free.  A client sees handles by number, in the order
  they were given out, as an interface value in Go is seen through its methods only.  What is
  proved from the contract holds of any backend that is shown to keep it.
\<close>

section \<open>Requests and answers\<close>

datatype 'q call = Ask 'q | Give nat

datatype answer = Granted nat | Refused gerr | Returned_with err

text \<open>What a backend answers to a list of calls, and what the table answers.\<close>

fun answers :: "('q \<Rightarrow> 's \<Rightarrow> nat res \<times> 's) \<Rightarrow> (nat \<Rightarrow> 's \<Rightarrow> err \<times> 's) \<Rightarrow> 'q call list \<Rightarrow> 's \<Rightarrow> answer list" where
  "answers acquire release [] s = []"
| "answers acquire release (Ask q # cs) s =
     (case acquire q s of
        (Inl e, s') \<Rightarrow> Refused e # answers acquire release cs s'
      | (Inr h, s') \<Rightarrow> Granted h # answers acquire release cs s')"
| "answers acquire release (Give h # cs) s =
     (case release h s of (e, s') \<Rightarrow> Returned_with e # answers acquire release cs s')"

definition give_up :: "nat \<Rightarrow> ('n \<Rightarrow> nat option) \<Rightarrow> 'n \<Rightarrow> nat option" where
  "give_up h t = (\<lambda>n. if t n = Some h then None else t n)"

definition first_free :: "('n \<Rightarrow> 'h option) \<Rightarrow> 'n list \<Rightarrow> 'n option" where
  "first_free t ks = List.find (\<lambda>k. t k = None) ks"

lemma first_free_None: "first_free t ks = None \<longleftrightarrow> (\<forall>k \<in> set ks. \<exists>h. t k = Some h)"
  by (auto simp: first_free_def find_None_iff)

lemma first_free_Some:
  assumes "first_free t ks = Some k"
  obtains us vs where "ks = us @ k # vs" "\<forall>u \<in> set us. \<exists>h. t u = Some h" "t k = None"
proof -
  obtain i where i: "i < length ks" "t (ks ! i) = None" "k = ks ! i" "\<forall>j < i. t (ks ! j) \<noteq> None"
    using assms unfolding first_free_def find_Some_iff by blast
  show thesis
  proof (rule that)
    show "ks = take i ks @ k # drop (Suc i) ks" using id_take_nth_drop[OF i(1)] i(3) by simp
    show "\<forall>u \<in> set (take i ks). \<exists>h. t u = Some h" using i(1,4) by (auto simp: in_set_conv_nth)
    show "t k = None" using i(2,3) by simp
  qed
qed

lemma first_free_simps [simp]:
  "first_free t [] = None" "first_free t (k # ks) = (if t k = None then Some k else first_free t ks)"
  by (simp_all add: first_free_def)

text \<open>\<open>slots q\<close> are the slots that the request \<open>q\<close> tries, in this order.\<close>

fun table_answers ::
  "('q \<Rightarrow> 'n list) \<Rightarrow> ('q \<Rightarrow> gerr option) \<Rightarrow> gerr \<Rightarrow> 'q call list \<Rightarrow> ('n \<Rightarrow> nat option) \<Rightarrow> nat \<Rightarrow> answer list" where
  "table_answers slots fails busy [] t k = []"
| "table_answers slots fails busy (Ask q # cs) t k =
     (case fails q of
        Some e \<Rightarrow> Refused e # table_answers slots fails busy cs t k
      | None \<Rightarrow>
          (case first_free t (slots q) of
             None \<Rightarrow> Refused busy # table_answers slots fails busy cs t k
           | Some n \<Rightarrow> Granted k # table_answers slots fails busy cs (t(n \<mapsto> k)) (Suc k)))"
| "table_answers slots fails busy (Give h # cs) t k =
     Returned_with None # table_answers slots fails busy cs (give_up h t) k"

text \<open>What the slots are called does not matter, as long as different ones have different names.\<close>

lemma first_free_map:
  assumes "\<And>n. n \<in> set ks \<Longrightarrow> t' (g n) = t n"
  shows "first_free t' (map g ks) = map_option g (first_free t ks)"
  using assms by (induction ks) auto

lemma table_answers_rename:
  assumes "inj_on g K"
  shows "(\<And>n. n \<in> K \<Longrightarrow> t' (g n) = t n) \<Longrightarrow>
    (\<And>q. Ask q \<in> set cs \<Longrightarrow> slots' q = map g (slots q) \<and> set (slots q) \<subseteq> K \<and> fails' q = fails q) \<Longrightarrow>
    table_answers slots' fails' busy cs t' k = table_answers slots fails busy cs t k"
proof (induction cs arbitrary: t t' k)
  case (Cons c cs)
  show ?case
  proof (cases c)
    case (Ask q)
    have q: "slots' q = map g (slots q)" "set (slots q) \<subseteq> K" "fails' q = fails q" using Cons.prems(2)[of q] Ask by simp_all
    have ff: "first_free t' (slots' q) = map_option g (first_free t (slots q))"
      unfolding q(1) by (rule first_free_map) (use Cons.prems(1) q(2) in blast)
    have IH: "table_answers slots' fails' busy cs u' j = table_answers slots fails busy cs u j"
      if "\<And>n. n \<in> K \<Longrightarrow> u' (g n) = u n" for u u' j
      using Cons.IH[where t' = u' and t = u, OF that] Cons.prems(2) by simp
    show ?thesis
    proof (cases "first_free t (slots q)")
      case None
      then show ?thesis using Ask ff q(3) IH Cons.prems(1) by (simp split: option.split)
    next
      case (Some m)
      then have m: "m \<in> K" using q(2) by (elim first_free_Some) auto
      have "(t'(g m \<mapsto> k)) (g n) = (t(m \<mapsto> k)) n" if "n \<in> K" for n
        using that m Cons.prems(1) assms by (auto dest: inj_onD)
      with Some Ask ff q(3) IH Cons.prems(1) show ?thesis by (simp del: fun_upd_apply split: option.split)
    qed
  next
    case (Give h)
    have "give_up h t' (g n) = give_up h t n" if "n \<in> K" for n using Cons.prems(1)[OF that] by (simp add: give_up_def)
    then show ?thesis using Give Cons.IH[of "give_up h t'" "give_up h t" k] Cons.prems(2) by simp
  qed
qed simp

section \<open>The contract\<close>

text \<open>
  \<open>table s t k\<close>: in state \<open>s\<close> the handles that hold slots are those of \<open>t\<close>, and \<open>k\<close> were given out.
  \<open>fails\<close> says which requests are refused whatever the state is, as one whose context is done.
\<close>

locale lock_table =
  fixes acquire :: "'q \<Rightarrow> 's \<Rightarrow> nat res \<times> 's"
    and release :: "nat \<Rightarrow> 's \<Rightarrow> err \<times> 's"
    and slots :: "'q \<Rightarrow> 'n list"
    and allowed :: "'q \<Rightarrow> bool"
    and fails :: "'q \<Rightarrow> gerr option"
    and busy :: gerr
    and table :: "'s \<Rightarrow> ('n \<Rightarrow> nat option) \<Rightarrow> nat \<Rightarrow> bool"
  assumes acquire_fails: "table s t k \<Longrightarrow> allowed q \<Longrightarrow> fails q = Some e \<Longrightarrow>
      \<exists>s'. acquire q s = (Inl e, s') \<and> table s' t k"
    and acquire_busy: "table s t k \<Longrightarrow> allowed q \<Longrightarrow> fails q = None \<Longrightarrow> first_free t (slots q) = None \<Longrightarrow>
      \<exists>s'. acquire q s = (Inl busy, s') \<and> table s' t k"
    and acquire_free: "table s t k \<Longrightarrow> allowed q \<Longrightarrow> fails q = None \<Longrightarrow> first_free t (slots q) = Some n \<Longrightarrow>
      \<exists>s'. acquire q s = (Inr k, s') \<and> table s' (t(n \<mapsto> k)) (Suc k)"
    and release_gives: "table s t k \<Longrightarrow> \<exists>s'. release h s = (None, s') \<and> table s' (give_up h t) k"
begin

lemma answers_table:
  "table s t k \<Longrightarrow> (\<And>q. Ask q \<in> set cs \<Longrightarrow> allowed q) \<Longrightarrow>
     answers acquire release cs s = table_answers slots fails busy cs t k"
proof (induction cs arbitrary: s t k)
  case (Cons c cs)
  show ?case
  proof (cases c)
    case (Ask q)
    then have a: "allowed q" using Cons.prems(2) by simp
    show ?thesis
    proof (cases "fails q")
      case (Some e)
      from acquire_fails[OF Cons.prems(1) a Some] Cons.IH Cons.prems(2) Some Ask show ?thesis by auto
    next
      case None
      show ?thesis
      proof (cases "first_free t (slots q)")
        case held: None
        from acquire_busy[OF Cons.prems(1) a None held] Cons.IH Cons.prems(2) held None Ask show ?thesis by auto
      next
        case free: (Some n)
        from acquire_free[OF Cons.prems(1) a None free] Cons.IH Cons.prems(2) free None Ask show ?thesis
          by (auto simp del: fun_upd_apply)
      qed
    qed
  next
    case (Give h)
    from release_gives[OF Cons.prems(1), of h] Cons.IH Cons.prems(2) Give show ?thesis by auto
  qed
qed simp

text \<open>Requests of a more special form.\<close>

lemma restricted:
  "lock_table (\<lambda>q. acquire (f q)) release (\<lambda>q. slots (f q)) (\<lambda>q. allowed (f q)) (\<lambda>q. fails (f q)) busy table"
  by unfold_locales (simp_all add: acquire_fails acquire_busy acquire_free release_gives)

text \<open>A lock with one slot is refused until it is given back, and granted to the next request after that.\<close>

lemma held_until_given:
  assumes "table s t k" "allowed q" "fails q = None" "slots q = [n]" "t n = None"
  shows "answers acquire release [Ask q, Ask q, Give k, Ask q] s = [Granted k, Refused busy, Returned_with None, Granted (Suc k)]"
proof -
  have "answers acquire release [Ask q, Ask q, Give k, Ask q] s = table_answers slots fails busy [Ask q, Ask q, Give k, Ask q] t k"
    by (rule answers_table[OF assms(1)]) (use assms(2) in auto)
  with assms(3-5) show ?thesis by (simp add: give_up_def)
qed

end

section \<open>The interface of the packages\<close>

text \<open>
  \<open>lock.Locker\<close> and \<open>lock.Holder\<close>.  A context is what its \<open>Err\<close> answers.
\<close>

record ('s, 'h) Locker =
  Locker_Acquire :: "err \<Rightarrow> string \<Rightarrow> 's \<Rightarrow> 'h res \<times> 's"
  Holder_Release :: "'h \<Rightarrow> 's \<Rightarrow> err \<times> 's"

definition locker_request :: "('s, nat) Locker \<Rightarrow> err \<times> string \<Rightarrow> 's \<Rightarrow> nat res \<times> 's" where
  "locker_request l = (\<lambda>(ctx, name). Locker_Acquire l ctx name)"

locale locker_table = lock_table "locker_request l" "Holder_Release l" slots allowed fails lock_ErrLocked table
  for l :: "('s, nat) Locker" and slots allowed fails table

end
