(* ===== verification/Gocronlock.thy ===== *)
theory Gocronlock
  imports Lock_Table
begin

text \<open>
  \<open>contrib/gocronlock/gocronlock.go\<close>: any \<open>lock.Locker\<close> as the locker of a job scheduler.  Over a
  backend that keeps the contract of \<open>Lock_Table\<close> it keeps the same contract.
\<close>

section \<open>The adapter\<close>

record ('s, 'h) gc_adapter =
  gc_l :: "('s, 'h) Locker"

record 'h gc_holderAdapter =
  gc_h :: 'h

definition gc_New :: "('s, 'h) Locker \<Rightarrow> ('s, 'h) gc_adapter" where
  "gc_New l = \<lparr>gc_l = l\<rparr>"

definition gc_Lock :: "('s, 'h) gc_adapter \<Rightarrow> err \<Rightarrow> string \<Rightarrow> 's \<Rightarrow> 'h gc_holderAdapter res \<times> 's" where
  "gc_Lock a ctx key s =
     (case Locker_Acquire (gc_l a) ctx key s of
        (Inl err, s') \<Rightarrow> (Inl err, s')
      | (Inr h, s') \<Rightarrow> (Inr \<lparr>gc_h = h\<rparr>, s'))"

definition gc_Unlock :: "('s, 'h) gc_adapter \<Rightarrow> 'h gc_holderAdapter \<Rightarrow> err \<Rightarrow> 's \<Rightarrow> err \<times> 's" where
  "gc_Unlock a h ctx s = Holder_Release (gc_l a) (gc_h h) s"

section \<open>The contract through the adapter\<close>

text \<open>A scheduler's requests, its handles being the wrapped ones.\<close>

definition gc_request :: "('s, nat) Locker \<Rightarrow> err \<times> string \<Rightarrow> 's \<Rightarrow> nat res \<times> 's" where
  "gc_request l = (\<lambda>(ctx, key) s. case gc_Lock (gc_New l) ctx key s of
     (Inl e, s') \<Rightarrow> (Inl e, s') | (Inr g, s') \<Rightarrow> (Inr (gc_h g), s'))"

definition gc_return :: "('s, nat) Locker \<Rightarrow> nat \<Rightarrow> 's \<Rightarrow> err \<times> 's" where
  "gc_return l h s = gc_Unlock (gc_New l) \<lparr>gc_h = h\<rparr> None s"

lemma gc_request_eq: "gc_request l = locker_request l"
  by (auto simp: gc_request_def gc_Lock_def gc_New_def locker_request_def fun_eq_iff split: prod.splits sum.splits)

lemma gc_return_eq: "gc_return l = Holder_Release l"
  by (simp add: gc_return_def gc_Unlock_def gc_New_def fun_eq_iff)

sublocale locker_table \<subseteq> gocron: lock_table "gc_request l" "gc_return l" slots allowed fails lock_ErrLocked table
  unfolding gc_request_eq gc_return_eq by (rule lock_table_axioms)

context locker_table
begin

lemma gocron_answers:
  "table s t k \<Longrightarrow> (\<And>q. Ask q \<in> set cs \<Longrightarrow> allowed q) \<Longrightarrow>
     answers (gc_request l) (gc_return l) cs s = table_answers slots fails lock_ErrLocked cs t k"
  by (rule gocron.answers_table)

end

end
