(* ===== verification/Memlock_Table.thy ===== *)
theory Memlock_Table
  imports Memlock Gocronlock
begin

text \<open>
  \<open>memlock\<close> keeps the contract of \<open>Lock_Table\<close> through its adapter, and so does the scheduler's
  adapter over it.
\<close>

definition mem_Locker :: "(mem_factory, nat) Locker" where
  "mem_Locker = \<lparr>Locker_Acquire = mem_adapter_Acquire, Holder_Release = mem_adapter_Release\<rparr>"

text \<open>A done context is answered with its own error.\<close>

definition mem_fails :: "err \<times> string \<Rightarrow> gerr option" where
  "mem_fails q = map_option (\<lambda>e. if errors_is e mem_ErrLocked then lock_ErrLocked else e) (fst q)"

definition mem_table :: "mem_factory \<Rightarrow> (string \<Rightarrow> nat option) \<Rightarrow> nat \<Rightarrow> bool" where
  "mem_table f t k \<longleftrightarrow> mem_inv f [] \<and> (\<forall>n. mem_live f n = set_option (t n)) \<and> length (mem_objs f) = k"

lemma mem_Release_length: "mem_Release h f = (e, f') \<Longrightarrow> length (mem_objs f') = length (mem_objs f)"
  by (auto simp: mem_Release_def mem_release_cas_def mem_release_locked_spec(2) split: if_splits)

lemma mem_Acquire_length:
  "mem_Acquire None n opts f = (r, f') \<Longrightarrow> length (mem_objs f') = length (mem_objs f) + (if isl r then 0 else 1)"
  by (auto simp: mem_Acquire_def dest!: mem_acquire_locked_spec(2) mem_finish_spec(4) split: prod.splits bool.splits)

lemma mem_table_acquire:
  assumes "mem_table f t k"
  obtains f' where "mem_Acquire None n [] f = (case t n of Some h \<Rightarrow> Inl mem_ErrLocked | None \<Rightarrow> Inr k, f')"
    "mem_table f' (case t n of Some h \<Rightarrow> t | None \<Rightarrow> t(n \<mapsto> k)) (case t n of Some h \<Rightarrow> k | None \<Rightarrow> Suc k)"
proof -
  have m: "mem_inv f []" "\<And>n. mem_live f n = set_option (t n)" "length (mem_objs f) = k"
    using assms by (simp_all add: mem_table_def)
  have held: "held_of f n = (case t n of None \<Rightarrow> 0 | Some _ \<Rightarrow> 1)"
    using mem_live_count[OF m(1), of n] m(2)[of n] by (auto split: option.splits)
  obtain a f2 where a: "mem_Acquire None n [] f = (a, f2)" by fastforce
  note sp = mem_Acquire_spec[OF m(1) a] and len = mem_Acquire_length[OF a]
  show thesis
  proof (cases a)
    case (Inl e)
    then have "e = mem_ErrLocked" "t n \<noteq> None" "mem_table f2 t k"
      using sp m held len by (auto simp: mem_table_def split: option.splits)
    with a Inl that[of f2] show thesis by auto
  next
    case (Inr h)
    then have "h = k" "t n = None" "mem_table f2 (t(n \<mapsto> k)) (Suc k)"
      using sp m held len by (auto simp: mem_table_def split: option.splits)
    with a Inr that[of f2] show thesis by auto
  qed
qed

lemma mem_table_release:
  assumes "mem_table f t k"
  shows "\<exists>f'. mem_Release h f = (None, f') \<and> mem_table f' (give_up h t) k"
proof -
  have m: "mem_inv f []" "\<And>n. mem_live f n = set_option (t n)" "length (mem_objs f) = k"
    using assms by (simp_all add: mem_table_def)
  obtain e f' where r: "mem_Release h f = (e, f')" by fastforce
  have "mem_live f' n = set_option (give_up h t n)" for n
    using mem_Release_spec(3)[OF m(1) r] m(2)[of n] by (cases "t n") (auto simp: give_up_def)
  then show ?thesis using mem_Release_spec(1,2)[OF m(1) r] mem_Release_length[OF r] m(3) r by (simp add: mem_table_def)
qed

lemma mem_request:
  "locker_request mem_Locker q f = (case mem_Acquire (fst q) (snd q) [] f of
     (Inl e, f') \<Rightarrow> (Inl (if errors_is e mem_ErrLocked then lock_ErrLocked else e), f')
   | (Inr h, f') \<Rightarrow> (Inr h, f'))"
  by (simp add: locker_request_def mem_Locker_def mem_adapter_Acquire_def case_prod_beta)

interpretation mlt: locker_table mem_Locker "\<lambda>q. [snd q]" "\<lambda>_. True" mem_fails mem_table
proof (unfold_locales, goal_cases)
  case (1 s t k q e)
  then obtain x where "fst q = Some x" "e = (if errors_is x mem_ErrLocked then lock_ErrLocked else x)"
    by (auto simp: mem_fails_def)
  with 1(1) show ?case by (simp add: mem_request mem_Acquire_def)
next
  case (2 s t k q)
  from 2(4) obtain h where "t (snd q) = Some h" by (auto split: if_splits)
  with mem_table_acquire[OF 2(1), of "snd q"]
  obtain f' where "mem_Acquire None (snd q) [] s = (Inl mem_ErrLocked, f')" "mem_table f' t k" by auto
  with 2(3) show ?case by (simp add: mem_request mem_fails_def)
next
  case (3 s t k q n)
  from 3(4) have n: "t (snd q) = None" "n = snd q" by (auto split: if_splits)
  with mem_table_acquire[OF 3(1), of "snd q"]
  obtain f' where "mem_Acquire None (snd q) [] s = (Inr k, f')" "mem_table f' (t(n \<mapsto> k)) (Suc k)" by auto
  with 3(3) show ?case by (simp add: mem_request mem_fails_def del: fun_upd_apply)
next
  case (4 s t k h)
  from mem_table_release[OF 4] show ?case by (simp add: mem_Locker_def mem_adapter_Release_def)
qed

text \<open>C4: The scheduler's adapter over the in-memory backend refines a table of who runs which job: whatever locks and
  unlocks a scheduler makes, in any order, repeated and on handles it never got included, each answer is
  the table's: a job that runs is refused with \<open>lock.ErrLocked\<close>, one that does not is locked under a new
  handle, a done context is answered with its own error, and an unlock answers no error and frees
  the job of its handle only.\<close>

theorem gocron_refines_table:
  "answers (gc_request mem_Locker) (gc_return mem_Locker) cs mem_NewFactory =
     table_answers (\<lambda>q. [snd q]) mem_fails lock_ErrLocked cs (\<lambda>_. None) 0"
  by (rule mlt.gocron_answers)
    (simp_all add: mem_table_def mem_live_def mem_NewFactory_def mem_inv_new[unfolded mem_NewFactory_def])

end
