(* ===== verification/Filelock_Config.thy ===== *)
theory Filelock_Config
  imports LockApi
begin

text \<open>
  \<open>filelock/options.go\<close>, \<open>strategy.go\<close>, \<open>observe.go\<close> and the sentinel of \<open>filelock.go\<close>:
  the resolved configuration of one acquire call, the options that build it and the hooks it
  carries.
\<close>

section \<open>The sentinel and the strategies\<close>

definition fl_ErrLocked :: gerr where
  "fl_ErrLocked = Sentinel ''filelock: already locked''"

declare fl_ErrLocked_def [sentinel_defs]

text \<open>\<open>StaleStrategy\<close> is an \<open>int\<close>; the three constants and any other value.\<close>

datatype StaleStrategy =
    StaleStrategyPIDFirst
  | StaleStrategyPIDOnly
  | StaleStrategyTimeOnly
  | StaleStrategyOther int

fun strategy_String :: "StaleStrategy \<Rightarrow> string" where
  "strategy_String StaleStrategyPIDFirst = ''pid-first''"
| "strategy_String StaleStrategyPIDOnly = ''pid-only''"
| "strategy_String StaleStrategyTimeOnly = ''time-only''"
| "strategy_String (StaleStrategyOther _) = ''unknown''"

section \<open>The configuration\<close>

record fl_config =
  fc_dir :: string
  fc_staleAfter :: duration
  fc_staleAfterIsOn :: bool
  fc_strategy :: StaleStrategy
  fc_maxConcurrent :: int
  fc_slot :: int
  fc_slotIsSet :: bool
  fc_observe :: observeOptions
  fc_loggerIsSet :: bool
  fc_metricsIsSet :: bool
  fc_traceID :: string

text \<open>The library default; the directory is what \<open>os.TempDir\<close> answers.\<close>

definition fl_defaultConfig :: "string \<Rightarrow> fl_config" where
  "fl_defaultConfig tempDir =
     \<lparr>fc_dir = tempDir, fc_staleAfter = 0, fc_staleAfterIsOn = False,
      fc_strategy = StaleStrategyPIDFirst, fc_maxConcurrent = 1, fc_slot = 0,
      fc_slotIsSet = False, fc_observe = no_observe, fc_loggerIsSet = False,
      fc_metricsIsSet = False, fc_traceID = []\<rparr>"

text \<open>An option is a function on the configuration, \<open>None\<close> is a nil option and is skipped.\<close>

type_synonym fl_option = "(fl_config \<Rightarrow> fl_config) option"

fun fl_applyOptions :: "fl_config \<Rightarrow> fl_option list \<Rightarrow> fl_config" where
  "fl_applyOptions cfg [] = cfg"
| "fl_applyOptions cfg (None # opts) = fl_applyOptions cfg opts"
| "fl_applyOptions cfg (Some opt # opts) = fl_applyOptions (opt cfg) opts"

definition fl_WithDir :: "string \<Rightarrow> fl_option" where
  "fl_WithDir dir = Some (\<lambda>c. c\<lparr>fc_dir := dir\<rparr>)"

definition fl_WithStaleAfter :: "duration \<Rightarrow> fl_option" where
  "fl_WithStaleAfter d = Some (\<lambda>c. c\<lparr>fc_staleAfter := d, fc_staleAfterIsOn := d > 0\<rparr>)"

definition fl_WithStaleStrategy :: "StaleStrategy \<Rightarrow> fl_option" where
  "fl_WithStaleStrategy s = Some (\<lambda>c. c\<lparr>fc_strategy := s\<rparr>)"

definition fl_WithMaxConcurrent :: "int \<Rightarrow> fl_option" where
  "fl_WithMaxConcurrent n = Some (\<lambda>c. c\<lparr>fc_maxConcurrent := (if n < 1 then 1 else n)\<rparr>)"

definition fl_WithMetrics :: "nat option \<Rightarrow> fl_option" where
  "fl_WithMetrics r =
     Some (\<lambda>c. c\<lparr>fc_observe := (fc_observe c)\<lparr>metrics := r\<rparr>, fc_metricsIsSet := True\<rparr>)"

definition fl_WithSpanStarter :: "(ctx \<Rightarrow> string \<Rightarrow> ctx) option \<Rightarrow> fl_option" where
  "fl_WithSpanStarter s = Some (\<lambda>c. c\<lparr>fc_observe := (fc_observe c)\<lparr>span := s\<rparr>\<rparr>)"

definition fl_WithLogger :: "nat option \<Rightarrow> fl_option" where
  "fl_WithLogger l =
     Some (\<lambda>c. c\<lparr>fc_observe := (fc_observe c)\<lparr>logger := l\<rparr>, fc_loggerIsSet := True\<rparr>)"

definition fl_WithTraceIDExtractor :: "(ctx \<Rightarrow> string) option \<Rightarrow> fl_option" where
  "fl_WithTraceIDExtractor ext = Some (\<lambda>c. c\<lparr>fc_observe := (fc_observe c)\<lparr>traceID_ext := ext\<rparr>\<rparr>)"

lemmas fl_option_defs [cfg_simps] =
  fl_WithDir_def fl_WithStaleAfter_def fl_WithStaleStrategy_def fl_WithMaxConcurrent_def
  fl_WithMetrics_def fl_WithSpanStarter_def fl_WithLogger_def fl_WithTraceIDExtractor_def
  fl_defaultConfig_def

section \<open>The hooks\<close>

definition fl_recordAcquire :: "observeOptions \<Rightarrow> string \<Rightarrow> string \<Rightarrow> duration \<Rightarrow> err \<Rightarrow> obs_event list" where
  "fl_recordAcquire obs n oc d e =
     metric_acquire obs n oc d @ log_acquire ''filelock'' obs n oc d None e"

definition fl_recordActive :: "observeOptions \<Rightarrow> string \<Rightarrow> int \<Rightarrow> obs_event list" where
  "fl_recordActive obs n delta = record_active obs n delta"

definition fl_recordHold :: "observeOptions \<Rightarrow> string \<Rightarrow> duration \<Rightarrow> obs_event list" where
  "fl_recordHold obs n d = record_hold ''filelock'' obs n d"

definition fl_outcomeFor :: "err \<Rightarrow> string" where
  "fl_outcomeFor e = outcome_for fl_ErrLocked e"

lemma fl_hooks [simp]:
  "gauge r n (fl_recordAcquire obs m oc d e) = 0"
  "gauge r n (fl_recordHold obs m d) = 0"
  "gauge r n (fl_recordActive obs m k) = (if metrics obs = Some r \<and> m = n then k else 0)"
  "attempts r (fl_recordAcquire obs m oc d e) = (if metrics obs = Some r then [(m, oc)] else [])"
  "attempts r (fl_recordHold obs m d) = []"
  "attempts r (fl_recordActive obs m k) = []"
  by (simp_all add: fl_recordAcquire_def fl_recordActive_def fl_recordHold_def)

lemma fl_applyOptions_append [simp]:
  "fl_applyOptions cfg (xs @ ys) = fl_applyOptions (fl_applyOptions cfg xs) ys"
  by (induction cfg xs rule: fl_applyOptions.induct) auto

section \<open>Properties of the options\<close>

text \<open>
  The options of the package, as a caller can write them; any configuration they build has a
  semaphore size of at least one, and its stale window is on exactly when it is positive.
\<close>

definition fl_public_option :: "fl_option \<Rightarrow> bool" where
  "fl_public_option opt \<longleftrightarrow> opt = None \<or> (\<exists>d. opt = fl_WithDir d) \<or> (\<exists>d. opt = fl_WithStaleAfter d) \<or>
     (\<exists>s. opt = fl_WithStaleStrategy s) \<or> (\<exists>n. opt = fl_WithMaxConcurrent n) \<or>
     (\<exists>r. opt = fl_WithMetrics r) \<or> (\<exists>s. opt = fl_WithSpanStarter s) \<or>
     (\<exists>l. opt = fl_WithLogger l) \<or> (\<exists>e. opt = fl_WithTraceIDExtractor e)"

definition fl_config_ok :: "fl_config \<Rightarrow> bool" where
  "fl_config_ok c \<longleftrightarrow> 1 \<le> fc_maxConcurrent c \<and> (fc_staleAfterIsOn c \<longleftrightarrow> 0 < fc_staleAfter c) \<and>
     \<not> fc_slotIsSet c \<and> fc_slot c = 0"

lemma fl_config_ok_apply:
  "fl_config_ok c \<Longrightarrow> list_all fl_public_option opts \<Longrightarrow> fl_config_ok (fl_applyOptions c opts)"
proof (induction c opts rule: fl_applyOptions.induct)
  case (3 cfg opt opts)
  from 3(2,3) have "fl_config_ok (opt cfg)"
    by (auto simp: fl_public_option_def fl_config_ok_def cfg_simps)
  with 3 show ?case by simp
qed simp_all

lemma fl_config_ok_default [simp]: "fl_config_ok (fl_defaultConfig t)"
  by (simp add: fl_config_ok_def fl_defaultConfig_def)

text \<open>Whatever factory defaults and per-call options a caller combines, the resolved
  configuration asks for at least one slot, its stale window is on exactly when the duration is
  positive, and it carries no slot of its own.\<close>

theorem fl_options_resolve_ok:
  assumes "list_all fl_public_option defaults" "list_all fl_public_option opts"
  shows "fl_config_ok (fl_applyOptions (fl_applyOptions (fl_defaultConfig tempDir) defaults) opts)"
  using assms by (intro fl_config_ok_apply) simp_all

theorem fl_options_resolve_ok_witness:
  "fl_config_ok (fl_applyOptions (fl_applyOptions (fl_defaultConfig ''/tmp'') [fl_WithMaxConcurrent (- 3)])
     [None, fl_WithStaleAfter (- 5)])"
  by (rule fl_options_resolve_ok) (simp_all add: fl_public_option_def, blast+)

end
