(* ===== verification/Filelock_Marker.thy ===== *)
theory Filelock_Marker
  imports Filelock_Config
begin

text \<open>
  \<open>filelock/marker.go\<close>: the marker file, its writer over \<open>bufio.Writer\<close> and its line-based
  reader, and the round trip between them.
\<close>

section \<open>The marker\<close>

record marker =
  m_pid :: int
  m_pidStart :: gtime
  m_host :: string
  m_acquired :: gtime
  m_strategy :: string
  m_staleAfter :: string
  m_maxConcurrent :: int
  m_slot :: int
  m_traceID :: string

definition empty_marker :: marker where
  "empty_marker = \<lparr>m_pid = 0, m_pidStart = 0, m_host = [], m_acquired = 0, m_strategy = [],
     m_staleAfter = [], m_maxConcurrent = 0, m_slot = 0, m_traceID = []\<rparr>"

section \<open>Writing\<close>

text \<open>
  \<open>bufio.Writer\<close> with its 4096-byte buffer: what one \<open>Fprint\<close> adds to the buffer and what it
  sends to the file; the buffer is sent at the final \<open>Flush\<close>.
\<close>

definition buf_put :: "string \<Rightarrow> string \<Rightarrow> string list \<times> string" where
  "buf_put buf s =
     (let room = 4096 - length buf in
        if length s \<le> room then ([], buf @ s)
        else if buf = [] then ([s], [])
        else if length s - room \<le> 4096 then ([buf @ take room s], drop room s)
        else ([buf @ take room s, drop room s], []))"

fun buf_chunks :: "string \<Rightarrow> string list \<Rightarrow> string list" where
  "buf_chunks buf [] = (if buf = [] then [] else [buf])"
| "buf_chunks buf (s # ss) = (case buf_put buf s of (out, buf') \<Rightarrow> out @ buf_chunks buf' ss)"

lemma concat_buf_chunks [simp]: "concat (buf_chunks buf ss) = buf @ concat ss"
proof (induction ss arbitrary: buf)
  case (Cons s ss)
  have "concat (fst (buf_put buf s)) @ snd (buf_put buf s) = buf @ s"
    by (simp add: buf_put_def Let_def)
  with Cons show ?case by (simp add: case_prod_beta)
qed simp

text \<open>The lines of the marker, each one \<open>Fprintf\<close>.\<close>

definition line :: "string \<Rightarrow> string" where
  "line s = s @ [NL]"

definition em_dash :: string where
  "em_dash = [CHR 0xE2, CHR 0x80, CHR 0x94]"

definition identity_lines :: "marker \<Rightarrow> string list" where
  "identity_lines m =
     [line (''# Identity '' @ em_dash @ '' read by Acquire''), line (''pid='' @ itoa (m_pid m))] @
     (if \<not> isZero (m_pidStart m) then [line (''pid_start='' @ format_rfc3339nano (m_pidStart m))] else []) @
     [line (''host='' @ m_host m), line (''acquired='' @ format_rfc3339nano (m_acquired m))]"

definition debug_lines :: "marker \<Rightarrow> string list" where
  "debug_lines m =
     (if m_strategy m \<noteq> [] \<or> m_staleAfter m \<noteq> [] \<or> m_maxConcurrent m \<noteq> 0 \<or> m_slot m \<noteq> 0 \<or> m_traceID m \<noteq> []
      then [line [], line (''# Debug '' @ em_dash @ '' informational only'')] @
        (if m_strategy m \<noteq> [] then [line (''strategy='' @ m_strategy m)] else []) @
        (if m_staleAfter m \<noteq> [] then [line (''stale_after='' @ m_staleAfter m)] else []) @
        (if m_maxConcurrent m \<noteq> 0 then [line (''max_concurrent='' @ itoa (m_maxConcurrent m))] else []) @
        (if m_slot m \<noteq> 0 then [line (''slot='' @ itoa (m_slot m))] else []) @
        (if m_traceID m \<noteq> [] then [line (''trace_id='' @ m_traceID m)] else [])
      else [])"

fun write_chunks :: "nat \<Rightarrow> string list \<Rightarrow> err prog" where
  "write_chunks fd [] = Ret None"
| "write_chunks fd (s # ss) =
     WriteFd fd s (\<lambda>e. case e of Some n \<Rightarrow> Ret (Some (Wrap ''write'' (Errno n))) | None \<Rightarrow> write_chunks fd ss)"

definition writeMarker :: "nat \<Rightarrow> marker \<Rightarrow> err prog" where
  "writeMarker fd m = write_chunks fd (buf_chunks [] (identity_lines m @ debug_lines m))"

text \<open>The bytes a successful write leaves in the file.\<close>

definition marker_text :: "marker \<Rightarrow> string" where
  "marker_text m = concat (identity_lines m @ debug_lines m)"

section \<open>Reading\<close>

text \<open>
  One line of the loop of \<open>readMarker\<close>: the marker so far, updated, or the error that ends
  the loop.
\<close>

definition marker_field :: "string \<Rightarrow> string \<Rightarrow> marker \<Rightarrow> marker res" where
  "marker_field key v m =
     (if key = ''pid'' then
        (case atoi v of Some n \<Rightarrow> Inr (m\<lparr>m_pid := n\<rparr>)
         | None \<Rightarrow> Inl (Wrap ''filelock: marker pid'' (ErrMsg ''strconv.Atoi'')))
      else if key = ''pid_start'' then
        (case parse_rfc3339nano v of Some t \<Rightarrow> Inr (m\<lparr>m_pidStart := t\<rparr>)
         | None \<Rightarrow> Inl (Wrap ''filelock: marker pid_start'' (ErrMsg ''parsing time'')))
      else if key = ''host'' then Inr (m\<lparr>m_host := v\<rparr>)
      else if key = ''acquired'' then
        (case parse_rfc3339nano v of Some t \<Rightarrow> Inr (m\<lparr>m_acquired := t\<rparr>)
         | None \<Rightarrow> Inl (Wrap ''filelock: marker acquired'' (ErrMsg ''parsing time'')))
      else if key = ''strategy'' then Inr (m\<lparr>m_strategy := v\<rparr>)
      else if key = ''stale_after'' then Inr (m\<lparr>m_staleAfter := v\<rparr>)
      else if key = ''max_concurrent'' then
        (case atoi v of Some n \<Rightarrow> Inr (m\<lparr>m_maxConcurrent := n\<rparr>)
         | None \<Rightarrow> Inl (Wrap ''filelock: marker max_concurrent'' (ErrMsg ''strconv.Atoi'')))
      else if key = ''slot'' then
        (case atoi v of Some n \<Rightarrow> Inr (m\<lparr>m_slot := n\<rparr>)
         | None \<Rightarrow> Inl (Wrap ''filelock: marker slot'' (ErrMsg ''strconv.Atoi'')))
      else if key = ''trace_id'' then Inr (m\<lparr>m_traceID := v\<rparr>)
      else Inr m)"

definition marker_line :: "string \<Rightarrow> marker \<Rightarrow> marker res" where
  "marker_line text m =
     (let l = trim_space text in
        if l = [] \<or> prefix ''#'' l then Inr m
        else (case cut (CHR ''='') l of
                None \<Rightarrow> Inr m
              | Some (key, v) \<Rightarrow> marker_field (trim_space key) (trim_space v) m))"

text \<open>
  The scanner's loop; a line that does not fit its 64 KiB buffer ends the loop with an error.
\<close>

fun marker_lines :: "string list \<Rightarrow> marker \<Rightarrow> marker res" where
  "marker_lines [] m = Inr m"
| "marker_lines (l # ls) m =
     (if length l \<ge> 65536 then Inl (Wrap ''filelock: marker scan'' (ErrMsg ''bufio.Scanner: token too long''))
      else (case marker_line (drop_cr l) m of
              Inl e \<Rightarrow> Inl e
            | Inr m' \<Rightarrow> marker_lines ls m'))"

definition parse_marker :: "string \<Rightarrow> marker res" where
  "parse_marker s = marker_lines (raw_lines s) empty_marker"

text \<open>
  \<open>readMarker\<close>: the file is read in one step; the deferred \<open>Close\<close> runs on every path.
\<close>

definition readMarker :: "string \<Rightarrow> marker res prog" where
  "readMarker path =
     OpenRd path (\<lambda>r. case r of
       Inl e \<Rightarrow> Ret (Inl (Wrap (''open '' @ path) (Errno e)))
     | Inr fd \<Rightarrow>
         ReadAll fd (\<lambda>d.
           let res = (case d of
                 Inl e \<Rightarrow> Inl (Wrap ''filelock: marker scan'' (Wrap (''read '' @ path) (Errno e)))
               | Inr s \<Rightarrow> parse_marker s)
           in CloseFd fd (\<lambda>_. Ret res)))"

section \<open>The lines of the writer as the reader sees them\<close>

text \<open>The values that survive a line: trimmed, without a line break, shorter than the buffer.\<close>

definition line_value :: "string \<Rightarrow> bool" where
  "line_value s \<longleftrightarrow> trimmed s \<and> NL \<notin> set s \<and> length s \<le> 65000"

definition marker_ok :: "marker \<Rightarrow> bool" where
  "marker_ok m \<longleftrightarrow> int64_range (m_pid m) \<and> 0 \<le> m_pidStart m \<and> m_pidStart m < max_rfc3339 \<and>
     line_value (m_host m) \<and> 0 \<le> m_acquired m \<and> m_acquired m < max_rfc3339 \<and>
     line_value (m_strategy m) \<and> line_value (m_staleAfter m) \<and> int64_range (m_maxConcurrent m) \<and>
     int64_range (m_slot m) \<and> line_value (m_traceID m)"

definition key_word :: "string \<Rightarrow> bool" where
  "key_word k \<longleftrightarrow> k \<noteq> [] \<and> list_all (\<lambda>c. graphic c \<and> c \<noteq> CHR ''='' \<and> c \<noteq> CHR ''#'') k \<and> length k \<le> 30"

lemma graphic_consts [simp]:
  "graphic (CHR ''='')" "graphic (CHR ''#'')" "\<not> graphic NL" "\<not> graphic (CHR 0x0D)"
  by (simp_all add: graphic_def)

lemma key_wordD:
  assumes "key_word k"
  shows "k \<noteq> []" and "c \<in> set k \<Longrightarrow> graphic c" and "CHR ''='' \<notin> set k" and "CHR ''#'' \<notin> set k"
    and "NL \<notin> set k" and "length k \<le> 30"
  using assms graphic_consts(3) by (fastforce simp: key_word_def list_all_iff)+

lemma key_value_trimmed:
  assumes "key_word k" "trimmed v"
  shows "trimmed (k @ CHR ''='' # v)"
  unfolding trimmed_def
proof (intro ballI conjI notI)
  fix p assume p: "p \<in> set go_spaces"
  then have ne: "p \<noteq> []" by auto
  have gr: "c \<in> set (k @ ''='') \<Longrightarrow> graphic c" for c
    using key_wordD(2)[OF assms(1)] by auto
  { assume "prefix p (k @ CHR ''='' # v)"
    then have "hd p = hd k" using ne key_wordD(1)[OF assms(1)]
      by (metis append_is_Nil_conv hd_append2 prefix_def)
    moreover have "graphic (hd k)" using key_wordD[OF assms(1)] by simp
    ultimately show False using go_spaces_not_graphic[OF p] ne by (metis hd_in_set) }
  { assume "suffix p (k @ CHR ''='' # v)"
    then obtain q where "k @ CHR ''='' # v = q @ p" by (auto simp: suffix_def)
    then have "(k @ ''='') @ v = q @ p" by simp
    then obtain us where "(k @ ''='' = q @ us \<and> us @ v = p) \<or> ((k @ ''='') @ us = q \<and> v = us @ p)"
      using append_eq_append_conv2[of "k @ ''=''" v q p] by blast
    then show False
    proof
      assume a: "k @ ''='' = q @ us \<and> us @ v = p"
      show False
      proof (cases "us = []")
        case True
        then show False using a p assms(2) by (auto simp: trimmed_def)
      next
        case False
        then have "hd us \<in> set us" by simp
        moreover have "set us \<subseteq> set p" using a by auto
        moreover have "set us \<subseteq> set (k @ ''='')" using a by (metis Un_upper2 set_append)
        ultimately show False using go_spaces_not_graphic[OF p] gr by blast
      qed
    next
      assume "(k @ ''='') @ us = q \<and> v = us @ p"
      then show False using p assms(2) by (auto simp: trimmed_def suffix_def)
    qed }
qed

lemma trimmed_no_cr: "trimmed v \<Longrightarrow> drop_cr v = v"
proof -
  assume t: "trimmed v"
  have "[CHR 0x0D] \<in> set go_spaces" by (simp add: go_spaces_def)
  with t have "\<not> suffix [CHR 0x0D] v" by (auto simp: trimmed_def)
  then have "v \<noteq> [] \<Longrightarrow> last v \<noteq> CHR 0x0D"
    by (metis append_butlast_last_id suffix_def)
  then show ?thesis by (auto simp: drop_cr_def)
qed

lemma marker_line_kv:
  assumes "key_word k" "trimmed v"
  shows "marker_line (k @ CHR ''='' # v) m = marker_field k v m"
proof -
  note kd = key_wordD[OF assms(1)]
  have k: "k \<noteq> []" "hd k \<noteq> CHR ''#''" "CHR ''='' \<notin> set k" "trimmed k"
    using kd by (auto intro: trimmed_graphic) (metis hd_in_set)
  then have "\<not> prefix ''#'' (k @ CHR ''='' # v)" by (cases k) auto
  with k key_value_trimmed[OF assms] assms(2) show ?thesis
    by (simp add: marker_line_def Let_def)
qed

lemma marker_lines_kv:
  assumes "key_word k" "line_value v"
  shows "marker_lines (raw_lines (line (k @ CHR ''='' # v) @ s)) m =
    (case marker_field k v m of Inl e \<Rightarrow> Inl e | Inr m' \<Rightarrow> marker_lines (raw_lines s) m')"
proof -
  have "NL \<notin> set (k @ CHR ''='' # v)"
    using key_wordD(5)[OF assms(1)] assms(2) by (auto simp: line_value_def)
  then have "raw_lines (line (k @ CHR ''='' # v) @ s) = (k @ CHR ''='' # v) # raw_lines s"
    using raw_lines_Cons_line[of "k @ CHR ''='' # v" s] by (simp add: line_def)
  moreover have "length (k @ CHR ''='' # v) < 65536"
    using key_wordD(6)[OF assms(1)] assms(2) by (simp add: line_value_def)
  moreover have "drop_cr (k @ CHR ''='' # v) = k @ CHR ''='' # v"
    using trimmed_no_cr key_value_trimmed assms by (simp add: line_value_def)
  ultimately show ?thesis
    using marker_line_kv[of k v] assms by (simp add: line_value_def)
qed

lemma marker_lines_comment:
  assumes "NL \<notin> set s" "length s < 65000" "graphic (last (CHR ''#'' # s))"
  shows "marker_lines (raw_lines (line (CHR ''#'' # s) @ t)) m = marker_lines (raw_lines t) m"
proof -
  have t: "trimmed (CHR ''#'' # s)"
    using assms(3) by (intro trimmed_if_graphic_ends) simp_all
  have "raw_lines (line (CHR ''#'' # s) @ t) = (CHR ''#'' # s) # raw_lines t"
    using raw_lines_Cons_line[of "CHR ''#'' # s" t] assms(1) by (simp add: line_def)
  then show ?thesis
    using assms(2) t by (simp add: trimmed_no_cr marker_line_def Let_def)
qed

lemma marker_lines_blank [simp]: "marker_lines (raw_lines (NL # t)) m = marker_lines (raw_lines t) m"
  by (simp add: drop_cr_def marker_line_def)

section \<open>What the writer prints fits a line\<close>

lemma rtrim0_subset: "set (rtrim0 s) \<subseteq> set s" and length_rtrim0: "length (rtrim0 s) \<le> length s"
  using rtrim0_decomp[of s] by (metis Un_upper1 set_append, metis le_add1 length_append)

lemma length_dec: "n < 10 ^ Suc k \<Longrightarrow> length (dec n) \<le> Suc k"
proof (induction k arbitrary: n)
  case 0
  then show ?case by (simp add: dec.simps[of n])
next
  case (Suc k)
  then have "n div 10 < 10 ^ Suc k" by (simp add: div_less_iff_less_mult mult.commute)
  from Suc.IH[OF this] show ?case by (simp add: dec.simps[of n])
qed

lemma length_dec_64: "n < 2 ^ 64 \<Longrightarrow> length (dec n) \<le> 20"
  using length_dec[of n 19] by simp

lemma frac_str_chars: "c \<in> set (frac_str k n) \<Longrightarrow> is_digit c \<or> c = CHR ''.''"
  using rtrim0_subset[of "pad k n"] pad_chars[of c k n] by (auto simp: frac_str_def split: if_splits)

lemma length_frac_str: "length (frac_str k n) \<le> Suc k"
  using length_rtrim0[of "pad k n"] by (simp add: frac_str_def)

definition text_char :: "char \<Rightarrow> bool" where
  "text_char c \<longleftrightarrow> is_digit c \<or> c \<in> set ''-T:.Znmhs''"

lemma text_char_graphic: "text_char c \<Longrightarrow> graphic c"
  unfolding text_char_def by (erule disjE) (auto simp: is_digit_graphic, simp_all add: graphic_def)

lemma line_value_graphic:
  "(\<And>c. c \<in> set s \<Longrightarrow> graphic c) \<Longrightarrow> length s \<le> 65000 \<Longrightarrow> line_value s"
  unfolding line_value_def using graphic_consts(3) trimmed_graphic by blast

lemma line_value_itoa [simp]: "int64_range i \<Longrightarrow> line_value (itoa i)"
proof (rule line_value_graphic)
  assume "int64_range i"
  then have "nat i < 2 ^ 64" "nat (- i) < 2 ^ 64" unfolding int64_range_def by simp_all linarith+
  then show "length (itoa i) \<le> 65000"
    using length_dec_64[of "nat i"] length_dec_64[of "nat (- i)"] by (simp add: itoa_def)
qed (rule itoa_graphic)

lemma line_value_format [simp]:
  assumes "0 \<le> t" "t < max_rfc3339"
  shows "line_value (format_rfc3339nano t)"
proof -
  obtain y m d where ymd: "civil_of_days (t div day_nanos) = (y, m, d)"
    by (cases "civil_of_days (t div day_nanos)") auto
  have dn: "0 < day_nanos" by (simp add: day_nanos_def)
  have n: "0 \<le> t div day_nanos" "t div day_nanos < days_before_year 10000"
    using assms dn unfolding max_rfc3339_eq
    by (simp_all add: pos_imp_zdiv_nonneg_iff int_div_less)
  have yr: "format_year y = pad 4 (nat y)"
    using civil_year_range[OF n ymd] by (simp add: format_year_def)
  obtain k1 k2 k3 k4 k5 k6 where f: "format_rfc3339nano t = pad 4 k1 @ ''-'' @ pad 2 k2 @ ''-'' @
      pad 2 k3 @ ''T'' @ pad 2 k4 @ '':'' @ pad 2 k5 @ '':'' @ pad 2 k6 @
      frac_str 9 (nat (t mod second)) @ ''Z''"
    by (simp add: format_rfc3339nano_def ymd Let_def yr)
  show ?thesis
  proof (rule line_value_graphic)
    show "length (format_rfc3339nano t) \<le> 65000"
      using length_frac_str[of 9 "nat (t mod second)"] by (simp add: f)
    fix c assume "c \<in> set (format_rfc3339nano t)"
    then have "text_char c"
      unfolding f by (auto simp: text_char_def dest: pad_chars frac_str_chars)
    then show "graphic c" by (rule text_char_graphic)
  qed
qed

section \<open>The round trip\<close>

lemma marker_field_simps:
  "marker_field ''host'' v m = Inr (m\<lparr>m_host := v\<rparr>)"
  "marker_field ''strategy'' v m = Inr (m\<lparr>m_strategy := v\<rparr>)"
  "marker_field ''stale_after'' v m = Inr (m\<lparr>m_staleAfter := v\<rparr>)"
  "marker_field ''trace_id'' v m = Inr (m\<lparr>m_traceID := v\<rparr>)"
  "int64_range i \<Longrightarrow> marker_field ''pid'' (itoa i) m = Inr (m\<lparr>m_pid := i\<rparr>)"
  "int64_range i \<Longrightarrow> marker_field ''max_concurrent'' (itoa i) m = Inr (m\<lparr>m_maxConcurrent := i\<rparr>)"
  "int64_range i \<Longrightarrow> marker_field ''slot'' (itoa i) m = Inr (m\<lparr>m_slot := i\<rparr>)"
  "0 \<le> t \<Longrightarrow> t < max_rfc3339 \<Longrightarrow>
     marker_field ''pid_start'' (format_rfc3339nano t) m = Inr (m\<lparr>m_pidStart := t\<rparr>)"
  "0 \<le> t \<Longrightarrow> t < max_rfc3339 \<Longrightarrow>
     marker_field ''acquired'' (format_rfc3339nano t) m = Inr (m\<lparr>m_acquired := t\<rparr>)"
  by (simp_all add: marker_field_def parse_format_rfc3339nano)

lemma key_words:
  "key_word ''pid''" "key_word ''pid_start''" "key_word ''host''" "key_word ''acquired''"
  "key_word ''strategy''" "key_word ''stale_after''" "key_word ''max_concurrent''"
  "key_word ''slot''" "key_word ''trace_id''"
  by (simp_all add: key_word_def graphic_def)

lemmas marker_kv =
  marker_lines_kv[OF key_words(1), simplified append.simps]
  marker_lines_kv[OF key_words(2), simplified append.simps]
  marker_lines_kv[OF key_words(3), simplified append.simps]
  marker_lines_kv[OF key_words(4), simplified append.simps]
  marker_lines_kv[OF key_words(5), simplified append.simps]
  marker_lines_kv[OF key_words(6), simplified append.simps]
  marker_lines_kv[OF key_words(7), simplified append.simps]
  marker_lines_kv[OF key_words(8), simplified append.simps]
  marker_lines_kv[OF key_words(9), simplified append.simps]

lemma parse_identity:
  assumes "marker_ok m"
  shows "marker_lines (raw_lines (concat (identity_lines m) @ s)) empty_marker =
    marker_lines (raw_lines s) (empty_marker\<lparr>m_pid := m_pid m, m_pidStart := m_pidStart m,
      m_host := m_host m, m_acquired := m_acquired m\<rparr>)"
proof -
  have c: "marker_lines (raw_lines (line (''# Identity '' @ em_dash @ '' read by Acquire'') @ t)) x =
      marker_lines (raw_lines t) x" for t x
    using marker_lines_comment[of "'' Identity '' @ em_dash @ '' read by Acquire''" t x]
    by (simp add: em_dash_def graphic_def)
  note c = c[simplified append.simps]
  show ?thesis
  proof (cases "m_pidStart m = 0")
    case True
    with assms show ?thesis
      by (simp add: identity_lines_def isZero_def c marker_kv marker_field_simps marker_ok_def)
        (simp add: empty_marker_def)
  next
    case False
    with assms show ?thesis
      by (simp add: identity_lines_def isZero_def c marker_kv marker_field_simps marker_ok_def)
  qed
qed

text \<open>An optional line: printed when the value is set, and the reader's default when it is not.\<close>

abbreviation opt_line :: "bool \<Rightarrow> string \<Rightarrow> string list" where
  "opt_line b l \<equiv> if b then [line l] else []"

lemma parse_optional:
  assumes "line_value v" "int64_range i"
  shows "m_strategy x = [] \<Longrightarrow> marker_lines (raw_lines (concat (opt_line (v \<noteq> []) (''strategy='' @ v)) @ s)) x =
      marker_lines (raw_lines s) (x\<lparr>m_strategy := v\<rparr>)"
    and "m_staleAfter x = [] \<Longrightarrow> marker_lines (raw_lines (concat (opt_line (v \<noteq> []) (''stale_after='' @ v)) @ s)) x =
      marker_lines (raw_lines s) (x\<lparr>m_staleAfter := v\<rparr>)"
    and "m_traceID x = [] \<Longrightarrow> marker_lines (raw_lines (concat (opt_line (v \<noteq> []) (''trace_id='' @ v)) @ s)) x =
      marker_lines (raw_lines s) (x\<lparr>m_traceID := v\<rparr>)"
    and "m_maxConcurrent x = 0 \<Longrightarrow> marker_lines (raw_lines (concat (opt_line (i \<noteq> 0) (''max_concurrent='' @ itoa i)) @ s)) x =
      marker_lines (raw_lines s) (x\<lparr>m_maxConcurrent := i\<rparr>)"
    and "m_slot x = 0 \<Longrightarrow> marker_lines (raw_lines (concat (opt_line (i \<noteq> 0) (''slot='' @ itoa i)) @ s)) x =
      marker_lines (raw_lines s) (x\<lparr>m_slot := i\<rparr>)"
  using assms by (cases x, simp add: marker_kv marker_field_simps)+

lemma parse_debug:
  assumes "marker_ok m" "m_strategy x = []" "m_staleAfter x = []" "m_maxConcurrent x = 0"
    "m_slot x = 0" "m_traceID x = []"
  shows "marker_lines (raw_lines (concat (debug_lines m))) x =
    Inr (x\<lparr>m_strategy := m_strategy m, m_staleAfter := m_staleAfter m,
      m_maxConcurrent := m_maxConcurrent m, m_slot := m_slot m, m_traceID := m_traceID m\<rparr>)"
proof (cases "debug_lines m = []")
  case True
  then have "m_strategy m = []" "m_staleAfter m = []" "m_maxConcurrent m = 0" "m_slot m = 0" "m_traceID m = []"
    by (auto simp: debug_lines_def split: if_splits)
  with True assms show ?thesis by (cases x) simp
next
  case False
  have c: "marker_lines (raw_lines (line (''# Debug '' @ em_dash @ '' informational only'') @ t)) y =
      marker_lines (raw_lines t) y" for t y
    using marker_lines_comment[of "'' Debug '' @ em_dash @ '' informational only''" t y]
    by (simp add: em_dash_def graphic_def)
  have ok: "line_value (m_strategy m)" "line_value (m_staleAfter m)" "line_value (m_traceID m)"
    "int64_range (m_maxConcurrent m)" "int64_range (m_slot m)" "int64_range 0" "line_value []"
    using assms(1) by (simp_all add: marker_ok_def int64_range_def line_value_def)
  let ?t5 = "concat (opt_line (m_traceID m \<noteq> []) (''trace_id='' @ m_traceID m)) @ []"
  let ?t4 = "concat (opt_line (m_slot m \<noteq> 0) (''slot='' @ itoa (m_slot m))) @ ?t5"
  let ?t3 = "concat (opt_line (m_maxConcurrent m \<noteq> 0) (''max_concurrent='' @ itoa (m_maxConcurrent m))) @ ?t4"
  let ?t2 = "concat (opt_line (m_staleAfter m \<noteq> []) (''stale_after='' @ m_staleAfter m)) @ ?t3"
  let ?t1 = "concat (opt_line (m_strategy m \<noteq> []) (''strategy='' @ m_strategy m)) @ ?t2"
  have cond: "m_strategy m \<noteq> [] \<or> m_staleAfter m \<noteq> [] \<or> m_maxConcurrent m \<noteq> 0 \<or> m_slot m \<noteq> 0 \<or> m_traceID m \<noteq> []"
    using False unfolding debug_lines_def by (rule contrapos_np) (rule if_not_P)
  note dl = debug_lines_def[of m, unfolded if_P[OF cond]]
  have d: "concat (debug_lines m) = NL # line (''# Debug '' @ em_dash @ '' informational only'') @ ?t1"
    unfolding dl by (simp add: line_def)
  have "marker_lines (raw_lines (concat (debug_lines m))) x = marker_lines (raw_lines ?t1) x"
    unfolding d marker_lines_blank c by (rule refl)
  also have "\<dots> = marker_lines (raw_lines ?t2) (x\<lparr>m_strategy := m_strategy m\<rparr>)"
    by (rule parse_optional(1)[OF ok(1,6)]) (rule assms(2))
  also have "\<dots> = marker_lines (raw_lines ?t3) (x\<lparr>m_strategy := m_strategy m, m_staleAfter := m_staleAfter m\<rparr>)"
    by (rule parse_optional(2)[OF ok(2,6)]) (simp add: assms(3))
  also have "\<dots> = marker_lines (raw_lines ?t4) (x\<lparr>m_strategy := m_strategy m, m_staleAfter := m_staleAfter m,
      m_maxConcurrent := m_maxConcurrent m\<rparr>)"
    by (rule parse_optional(4)[OF ok(7,4)]) (simp add: assms(4))
  also have "\<dots> = marker_lines (raw_lines ?t5) (x\<lparr>m_strategy := m_strategy m, m_staleAfter := m_staleAfter m,
      m_maxConcurrent := m_maxConcurrent m, m_slot := m_slot m\<rparr>)"
    by (rule parse_optional(5)[OF ok(7,5)]) (simp add: assms(5))
  also have "\<dots> = marker_lines (raw_lines []) (x\<lparr>m_strategy := m_strategy m, m_staleAfter := m_staleAfter m,
      m_maxConcurrent := m_maxConcurrent m, m_slot := m_slot m, m_traceID := m_traceID m\<rparr>)"
    by (rule parse_optional(3)[OF ok(3,6)]) (simp add: assms(6))
  finally show ?thesis by simp
qed

lemma parse_marker_text: "marker_ok m \<Longrightarrow> parse_marker (marker_text m) = Inr m"
proof -
  assume ok: "marker_ok m"
  have "parse_marker (marker_text m) = marker_lines (raw_lines (concat (identity_lines m) @ concat (debug_lines m))) empty_marker"
    by (simp add: parse_marker_def marker_text_def)
  also have "\<dots> = Inr m"
    unfolding parse_identity[OF ok] by (subst parse_debug[OF ok]) (simp_all add: empty_marker_def)
  finally show ?thesis .
qed

section \<open>Running the reader and the writer\<close>

lemma run_write_chunks:
  "run me (write_chunks (next_fd w) ss) [] (open_file me p s w) = (None, [], open_file me p (s @ concat ss) w)"
  by (induction ss arbitrary: s) simp_all

lemma run_writeMarker [simp]:
  "run me (writeMarker (next_fd w) m) [] (open_file me p [] w) = (None, [], open_file me p (marker_text m) w)"
  by (simp add: writeMarker_def run_write_chunks marker_text_def)

lemma run_write_chunks_drift:
  "run me (write_chunks (next_fd w) ss) [] (drift k b (open_file me p s w)) =
     (None, [], drift k b (open_file me p (s @ concat ss) w))"
  by (induction ss arbitrary: s) simp_all

lemma run_writeMarker_drift [simp]:
  "run me (writeMarker (next_fd w) m) [] (drift k b (open_file me p [] w)) =
     (None, [], drift k b (open_file me p (marker_text m) w))"
  by (simp add: writeMarker_def run_write_chunks_drift marker_text_def)

lemma run_readMarker:
  assumes "calm 3 es" "wf_world w" "file_content w p = Some s"
  shows "run me (readMarker p) es w = (parse_marker s, skip 3 es, bump_fd w)"
proof -
  obtain i where i: "lookup w p = Some (FileEntry i)" "inodes w i = s"
    using assms(3) by (auto simp: file_content_Some)
  then have "i \<noteq> 0" using assms(2) by (auto simp: wf_world_def)
  with i assms(1,2) show ?thesis
    by (simp add: readMarker_def Let_def numeral_3_eq_3)
qed

lemma run_readMarker_none:
  "calm 1 es \<Longrightarrow> lookup w p = None \<Longrightarrow>
     run me (readMarker p) es w = (Inl (Wrap (''open '' @ p) (Errno ENOENT)), skip 1 es, w)"
  by (simp add: readMarker_def)

text \<open>The errors of a malformed marker are none of the sentinels.\<close>

lemma parse_marker_error: "parse_marker s = Inl e \<Longrightarrow> \<not> errors_is e (Sentinel t)"
proof -
  have f: "marker_field k v m = Inl e \<Longrightarrow> \<not> errors_is e (Sentinel t)" for k v m
    by (auto simp: marker_field_def split: if_splits option.splits)
  then have l: "marker_line x m = Inl e \<Longrightarrow> \<not> errors_is e (Sentinel t)" for x m
    by (auto simp: marker_line_def Let_def split: if_splits option.splits)
  have "marker_lines ls m = Inl e \<Longrightarrow> \<not> errors_is e (Sentinel t)" for ls m
    by (induction ls arbitrary: m) (auto dest: l split: if_splits sum.splits)
  then show "parse_marker s = Inl e \<Longrightarrow> \<not> errors_is e (Sentinel t)" by (simp add: parse_marker_def)
qed

section \<open>Properties\<close>



end
