(* ===== verification/Filelock_Probe.thy ===== *)
theory Filelock_Probe
  imports Filelock_Marker
begin

text \<open>
  \<open>filelock/probe.go\<close>, \<open>probe_unix.go\<close>, \<open>probe_windows.go\<close>, \<open>starttime_linux.go\<close>,
  \<open>starttime_other.go\<close>, \<open>identity.go\<close> and \<open>stale.go\<close>: is the process behind a marker still
  running, and may the marker be taken over?  What the build tags select (the liveness call
  and the start time of a process) is a record of programs, with an instance per platform.
\<close>

section \<open>The verdict of a probe\<close>

datatype probeResult = probeAlive | probeDead | probeInconclusive

fun probe_String :: "probeResult \<Rightarrow> string" where
  "probe_String probeAlive = ''alive''"
| "probe_String probeDead = ''dead''"
| "probe_String probeInconclusive = ''inconclusive''"

record platform =
  pl_isAlive :: "int \<Rightarrow> probeResult prog"
  pl_startTime :: "int \<Rightarrow> gtime prog"

text \<open>\<open>probe_unix.go\<close>.\<close>

definition isAlive_unix :: "int \<Rightarrow> probeResult prog" where
  "isAlive_unix pid = Kill0 pid (\<lambda>r. Ret (case r of
     None \<Rightarrow> probeAlive
   | Some e \<Rightarrow> if e = ESRCH then probeDead else if e = EPERM then probeInconclusive else probeInconclusive))"

text \<open>\<open>probe_windows.go\<close>: \<open>OpenProcess\<close> and its error codes 87 and 5.\<close>

definition isAlive_windows :: "int \<Rightarrow> probeResult prog" where
  "isAlive_windows pid = Kill0 pid (\<lambda>r. Ret (case r of
     None \<Rightarrow> probeAlive
   | Some e \<Rightarrow> if e = ErrnoOther 87 then probeDead
              else if e = ErrnoOther 5 then probeInconclusive else probeInconclusive))"

section \<open>The start time of a process\<close>

text \<open>\<open>os.ReadFile\<close>, in one read.\<close>

definition readFile :: "string \<Rightarrow> string res prog" where
  "readFile path =
     OpenRd path (\<lambda>r. case r of
       Inl e \<Rightarrow> Ret (Inl (Wrap (''open '' @ path) (Errno e)))
     | Inr fd \<Rightarrow> ReadAll fd (\<lambda>d. CloseFd fd (\<lambda>_. Ret (case d of
           Inl e \<Rightarrow> Inl (Wrap (''read '' @ path) (Errno e)) | Inr s \<Rightarrow> Inr s))))"

lemma run_readFile:
  assumes "calm 3 es" "wf_world w" "file_content w p = Some s"
  shows "run me (readFile p) es w = (Inr s, skip 3 es, bump_fd w)"
proof -
  obtain i where i: "lookup w p = Some (FileEntry i)" "inodes w i = s"
    using assms(3) by (auto simp: file_content_Some)
  then have "i \<noteq> 0" using assms(2) by (auto simp: wf_world_def)
  with i assms(1,2) show ?thesis by (simp add: readFile_def numeral_3_eq_3)
qed

lemma run_readFile_none [simp]:
  "lookup w p = None \<Longrightarrow> run me (readFile p) [] w = (Inl (Wrap (''open '' @ p) (Errno ENOENT)), [], w)"
  by (simp add: readFile_def)

text \<open>\<open>strings.Fields\<close>: the maximal runs without white space.\<close>

definition flush_field :: "string \<Rightarrow> string list \<Rightarrow> string list" where
  "flush_field acc fs = (if acc = [] then fs else acc # fs)"

function fields_acc :: "string \<Rightarrow> string \<Rightarrow> string list" where
  "fields_acc acc [] = flush_field acc []"
| "fields_acc acc (c # s) =
     (case find (\<lambda>p. p \<noteq> [] \<and> prefix p (c # s)) go_spaces of
        Some p \<Rightarrow> flush_field acc (fields_acc [] (drop (length p) (c # s)))
      | None \<Rightarrow> fields_acc (acc @ [c]) s)"
  by pat_completeness auto
termination
proof (relation "measure (\<lambda>(acc, s). length s)")
  fix acc :: string and c s p
  assume "find (\<lambda>p. p \<noteq> [] \<and> prefix p (c # s)) go_spaces = Some p"
  then have "p \<noteq> []" by (auto simp: find_Some_iff)
  then have "0 < length p" by simp
  then show "(([], drop (length p) (c # s)), (acc, c # s)) \<in> measure (\<lambda>(acc, s). length s)" by simp
qed simp_all

definition go_fields :: "string \<Rightarrow> string list" where
  "go_fields s = fields_acc [] s"

text \<open>\<open>int64\<close> arithmetic of durations: wrap-around and truncating division.\<close>

definition wrap64 :: "int \<Rightarrow> int" where
  "wrap64 x = signed_take_bit 63 x"

definition quot_hz :: "int \<Rightarrow> int \<Rightarrow> int" where
  "quot_hz t hz = (if t < 0 then - ((- t) div hz) else t div hz)"

definition userHz :: int where
  "userHz = 100"

text \<open>The loop of \<open>bootTime\<close> over the lines of \<open>/proc/stat\<close>.\<close>

fun find_btime :: "string list \<Rightarrow> gtime res" where
  "find_btime [] = Inl (ErrMsg ''filelock: /proc/stat: btime line not found'')"
| "find_btime (l # ls) =
     (if \<not> prefix ''btime '' l then find_btime ls
      else if length (go_fields l) < 2 then find_btime ls
      else (case atoi (go_fields l ! 1) of
              None \<Rightarrow> Inl (ErrMsg ''strconv.ParseInt'')
            | Some secs \<Rightarrow> Inr (time_unix secs)))"

definition bootTime :: "gtime res prog" where
  "bootTime = BootOnce (\<lambda>c. case c of
     Some r \<Rightarrow> Ret r
   | None \<Rightarrow> bind (readFile ''/proc/stat'') (\<lambda>d.
       let r = (case d of Inl e \<Rightarrow> Inl e | Inr s \<Rightarrow> find_btime (segs NL s)) in SetBoot r (Ret r)))"

text \<open>The ticks of the field \<open>starttime\<close>, from the contents of \<open>/proc/PID/stat\<close>.\<close>

definition stat_ticks :: "string \<Rightarrow> int option" where
  "stat_ticks s =
     (if CHR '')'' \<notin> set s then None
      else
        let fs = go_fields (trim_space (rev (takeWhile (\<lambda>c. c \<noteq> CHR '')'') (rev s)))) in
          if length fs \<le> 19 then None else atoi (fs ! 19))"

definition ticks_to_time :: "gtime \<Rightarrow> int \<Rightarrow> int \<Rightarrow> gtime" where
  "ticks_to_time bt hz ticks =
     (let secs = quot_hz ticks hz; frac = ticks - secs * hz; nanos = frac * (second div hz)
      in bt + wrap64 (wrap64 (secs * second) + nanos))"

definition startTime_linux :: "int \<Rightarrow> gtime prog" where
  "startTime_linux pid =
     (if pid \<le> 0 then Ret 0
      else bind (readFile (''/proc/'' @ itoa pid @ ''/stat'')) (\<lambda>d. case d of
        Inl e \<Rightarrow> Ret 0
      | Inr s \<Rightarrow> (case stat_ticks s of
          None \<Rightarrow> Ret 0
        | Some ticks \<Rightarrow>
            if userHz = 0 then Ret 0
            else bind bootTime (\<lambda>b. Ret (case b of Inl e \<Rightarrow> 0 | Inr bt \<Rightarrow> ticks_to_time bt userHz ticks)))))"

definition startTime_other :: "int \<Rightarrow> gtime prog" where
  "startTime_other pid = Ret 0"

definition linux :: platform where
  "linux = \<lparr>pl_isAlive = isAlive_unix, pl_startTime = startTime_linux\<rparr>"

definition darwin :: platform where
  "darwin = \<lparr>pl_isAlive = isAlive_unix, pl_startTime = startTime_other\<rparr>"

definition windows :: platform where
  "windows = \<lparr>pl_isAlive = isAlive_windows, pl_startTime = startTime_other\<rparr>"

section \<open>Identity\<close>

definition hostname :: "string prog" where
  "hostname = Hostname (\<lambda>r. Ret (case r of
     Inl e \<Rightarrow> ''unknown'' | Inr h \<Rightarrow> if h = [] then ''unknown'' else h))"

definition marker_of :: "fl_config \<Rightarrow> int \<Rightarrow> gtime \<Rightarrow> string \<Rightarrow> gtime \<Rightarrow> marker" where
  "marker_of cfg pid start host now =
     \<lparr>m_pid = pid, m_pidStart = start, m_host = host, m_acquired = now,
      m_strategy = strategy_String (fc_strategy cfg),
      m_staleAfter = (if fc_staleAfterIsOn cfg then dur_string (fc_staleAfter cfg) else ''none''),
      m_maxConcurrent = (if fc_maxConcurrent cfg > 1 then fc_maxConcurrent cfg else 0),
      m_slot = (if fc_slotIsSet cfg then fc_slot cfg else 0),
      m_traceID = fc_traceID cfg\<rparr>"

definition buildMarker :: "platform \<Rightarrow> fl_config \<Rightarrow> marker prog" where
  "buildMarker pl cfg =
     Getpid (\<lambda>pid. Getpid (\<lambda>pid'.
       bind (pl_startTime pl pid') (\<lambda>start.
         bind hostname (\<lambda>host. Now (\<lambda>now. Ret (marker_of cfg pid start host now))))))"

section \<open>Staleness\<close>

definition probePID :: "platform \<Rightarrow> int \<Rightarrow> gtime \<Rightarrow> probeResult prog" where
  "probePID pl pid expectedStart =
     (if pid \<le> 0 then Ret probeDead
      else bind (pl_isAlive pl pid) (\<lambda>alive.
        if alive \<noteq> probeAlive then Ret alive
        else if isZero expectedStart then Ret probeAlive
        else bind (pl_startTime pl pid) (\<lambda>actualStart.
          if isZero actualStart then Ret probeAlive
          else if actualStart \<noteq> expectedStart then Ret probeDead
          else Ret probeAlive)))"

definition probeMarker :: "platform \<Rightarrow> marker \<Rightarrow> probeResult prog" where
  "probeMarker pl m =
     (if m_pid m \<le> 0 then Ret probeInconclusive
      else if m_host m = [] then Ret probeInconclusive
      else bind hostname (\<lambda>local.
        if local = ''unknown'' \<or> m_host m \<noteq> local then Ret probeInconclusive
        else probePID pl (m_pid m) (m_pidStart m)))"

definition timeExpired :: "marker \<Rightarrow> fl_config \<Rightarrow> bool prog" where
  "timeExpired m cfg =
     (if \<not> fc_staleAfterIsOn cfg then Ret False
      else if isZero (m_acquired m) then Ret False
      else Now (\<lambda>now. Ret (time_sub now (m_acquired m) > fc_staleAfter cfg)))"

definition isStale :: "platform \<Rightarrow> marker \<Rightarrow> fl_config \<Rightarrow> bool prog" where
  "isStale pl m cfg =
     (case fc_strategy cfg of
        StaleStrategyTimeOnly \<Rightarrow> timeExpired m cfg
      | StaleStrategyOther _ \<Rightarrow> Ret False
      | _ \<Rightarrow>
          bind (probeMarker pl m) (\<lambda>probe. case probe of
            probeDead \<Rightarrow> Ret True
          | probeAlive \<Rightarrow> Ret False
          | probeInconclusive \<Rightarrow>
              if fc_strategy cfg = StaleStrategyPIDOnly then Ret False else timeExpired m cfg))"

section \<open>Running the probes in a quiet environment\<close>

definition local_host :: "world \<Rightarrow> string" where
  "local_host w = (case host_res w of Inl e \<Rightarrow> ''unknown'' | Inr h \<Rightarrow> if h = [] then ''unknown'' else h)"

lemma local_host_eqs [simp]:
  "local_host (drift k b w) = local_host w" "local_host (bump_fd w) = local_host w"
  "local_host (open_file me p s w) = local_host w" "local_host (bump_temp t w) = local_host w"
  by (simp_all add: local_host_def)

lemma run_hostname:
  "calm 1 es \<Longrightarrow> run me hostname es w = (local_host w, skip 1 es, w)"
  by (simp add: hostname_def local_host_def split: sum.splits)

text \<open>
  A platform whose probes only read: run alone they leave nothing behind but used-up descriptor
  numbers.  All three platforms are of this kind.
\<close>

definition reads_only :: "('a prog) \<Rightarrow> bool" where
  "reads_only p \<longleftrightarrow> (\<forall>me w. wf_world w \<longrightarrow> (\<exists>a w'. run me p [] w = (a, [], w') \<and> drifts w w'))"

definition quiet_platform :: "platform \<Rightarrow> bool" where
  "quiet_platform pl \<longleftrightarrow> (\<forall>pid. reads_only (pl_isAlive pl pid) \<and> reads_only (pl_startTime pl pid))"

lemma reads_only_Ret [simp]: "reads_only (Ret a)"
  by (simp add: reads_only_def)

lemma reads_only_bind:
  assumes "reads_only p" "\<And>a. reads_only (c a)"
  shows "reads_only (bind p c)"
  unfolding reads_only_def
proof (intro allI impI)
  fix me w assume w: "wf_world w"
  then obtain a w' where 1: "run me p [] w = (a, [], w')" "drifts w w'"
    using assms(1) unfolding reads_only_def by blast
  with w have "wf_world w'" using drifts_wf by blast
  then obtain b w'' where 2: "run me (c a) [] w' = (b, [], w'')" "drifts w' w''"
    using assms(2) unfolding reads_only_def by blast
  from 1 2 drifts_trans[OF 1(2) 2(2)] show "\<exists>b w'. run me (bind p c) [] w = (b, [], w') \<and> drifts w w'"
    by simp
qed

lemma reads_only_calls [simp]:
  "(\<And>r. reads_only (k r)) \<Longrightarrow> reads_only (Kill0 pid k)"
  "(\<And>r. reads_only (h r)) \<Longrightarrow> reads_only (Hostname h)"
  "(\<And>r. reads_only (n r)) \<Longrightarrow> reads_only (Now n)"
  "(\<And>r. reads_only (b r)) \<Longrightarrow> reads_only (BootOnce b)"
  by (simp_all add: reads_only_def sys_kill_def)

lemma reads_only_SetBoot [simp]: "reads_only k \<Longrightarrow> reads_only (SetBoot r k)"
proof -
  assume k: "reads_only k"
  show ?thesis unfolding reads_only_def
  proof (intro allI impI)
    fix me w assume w: "wf_world w"
    let ?w = "w\<lparr>boot_cache := (boot_cache w)(me := Some r)\<rparr>"
    have d: "drifts w ?w" by simp
    then have "wf_world ?w" using w drifts_wf by blast
    then obtain a w' where "run me k [] ?w = (a, [], w')" "drifts ?w w'"
      using k unfolding reads_only_def by blast
    with drifts_trans[OF d] show "\<exists>a w'. run me (SetBoot r k) [] w = (a, [], w') \<and> drifts w w'"
      by simp
  qed
qed

lemma reads_only_readFile [simp]: "reads_only (readFile p)"
  unfolding reads_only_def
proof (intro allI impI)
  fix me w assume w: "wf_world w"
  show "\<exists>a w'. run me (readFile p) [] w = (a, [], w') \<and> drifts w w'"
  proof (cases "lookup w p")
    case (Some e)
    then show ?thesis
    proof (cases e)
      case DirEntry
      have "sys_open_rd me p None w = (with_fd me 0 w, Inr (next_fd w))"
        using Some DirEntry by (simp add: sys_open_rd_def with_fd_def open_fd_def)
      moreover have "sys_read_all (next_fd w) None (with_fd me 0 w) = (with_fd me 0 w, Inl EISDIR)"
        by (simp add: sys_read_all_def)
      ultimately show ?thesis using w by (simp add: readFile_def)
    next
      case (FileEntry i)
      with Some have "file_content w p = Some (inodes w i)" by (simp add: file_content_def)
      from run_readFile[OF calm_Nil w this] show ?thesis by simp
    qed
  qed simp
qed

lemma reads_only_bootTime [simp]: "reads_only bootTime"
  unfolding bootTime_def Let_def by (auto split: option.splits intro!: reads_only_calls reads_only_bind)

lemma reads_only_if: "(b \<Longrightarrow> reads_only p) \<Longrightarrow> (\<not> b \<Longrightarrow> reads_only q) \<Longrightarrow> reads_only (if b then p else q)"
  by simp

lemmas reads_only_intros = reads_only_if reads_only_calls reads_only_SetBoot reads_only_bind
  reads_only_readFile reads_only_bootTime

lemma reads_only_platforms [simp]:
  "reads_only (isAlive_unix pid)" "reads_only (isAlive_windows pid)" "reads_only (startTime_other pid)"
  "reads_only (startTime_linux pid)"
  unfolding isAlive_unix_def isAlive_windows_def startTime_other_def startTime_linux_def
  by (auto split: option.split sum.split intro!: reads_only_intros)

lemma platform_calls [simp]:
  "pl_isAlive linux = isAlive_unix" "pl_isAlive darwin = isAlive_unix" "pl_isAlive windows = isAlive_windows"
  "pl_startTime linux = startTime_linux" "pl_startTime darwin = startTime_other"
  "pl_startTime windows = startTime_other"
  by (simp_all add: linux_def darwin_def windows_def)

lemma quiet_platforms [simp]: "quiet_platform linux" "quiet_platform darwin" "quiet_platform windows"
  by (simp_all add: quiet_platform_def)

lemma quiet_platformD:
  "quiet_platform pl \<Longrightarrow> reads_only (pl_isAlive pl pid)" "quiet_platform pl \<Longrightarrow> reads_only (pl_startTime pl pid)"
  by (simp_all add: quiet_platform_def)

text \<open>What a process reads as the start time of another, and the marker it builds.\<close>

definition start_of :: "platform \<Rightarrow> int \<Rightarrow> world \<Rightarrow> int \<Rightarrow> gtime" where
  "start_of pl me w pid = fst (run me (pl_startTime pl pid) [] w)"

definition new_marker :: "platform \<Rightarrow> fl_config \<Rightarrow> int \<Rightarrow> world \<Rightarrow> marker" where
  "new_marker pl cfg me w = marker_of cfg me (start_of pl me w me) (local_host w) (clock w)"

lemma run_buildMarker:
  assumes "quiet_platform pl" "wf_world w"
  shows "\<exists>w'. run me (buildMarker pl cfg) [] w = (new_marker pl cfg me w, [], w') \<and> drifts w w'"
proof -
  obtain a w' where 1: "run me (pl_startTime pl me) [] w = (a, [], w')" "drifts w w'"
    using quiet_platformD(2)[OF assms(1)] assms(2) unfolding reads_only_def by blast
  then show ?thesis
    using drifts_eqs[OF 1(2)]
    by (simp add: buildMarker_def run_hostname new_marker_def start_of_def local_host_def)
qed

lemma reads_only_isStale [simp]:
  assumes "quiet_platform pl"
  shows "reads_only (isStale pl m cfg)"
proof -
  have t: "reads_only (timeExpired m cfg)" by (simp add: timeExpired_def)
  have "reads_only (probeMarker pl m)"
    using quiet_platformD[OF assms]
    by (auto simp: probeMarker_def probePID_def hostname_def intro!: reads_only_intros)
  with t show ?thesis
    by (auto simp: isStale_def split: StaleStrategy.splits probeResult.splits intro!: reads_only_intros)
qed

text \<open>The start time Linux answers for a running process, boot time cached or read.\<close>

definition boot_of :: "int \<Rightarrow> world \<Rightarrow> gtime option" where
  "boot_of me w = (case boot_cache w me of
     Some r \<Rightarrow> (case r of Inl e \<Rightarrow> None | Inr bt \<Rightarrow> Some bt)
   | None \<Rightarrow> (case file_content w ''/proc/stat'' of
       None \<Rightarrow> None
     | Some s \<Rightarrow> (case find_btime (segs NL s) of Inl e \<Rightarrow> None | Inr bt \<Rightarrow> Some bt)))"

lemma run_bootTime:
  assumes "wf_world w" "boot_of me w = Some bt"
  shows "\<exists>w'. run me bootTime [] w = (Inr bt, [], w')"
proof (cases "boot_cache w me")
  case None
  then obtain s where s: "file_content w ''/proc/stat'' = Some s" "find_btime (segs NL s) = Inr bt"
    using assms(2) by (auto simp: boot_of_def split: option.splits sum.splits)
  then show ?thesis
    using None run_readFile[OF calm_Nil assms(1) s(1), of me] by (simp add: bootTime_def Let_def)
next
  case (Some r)
  then show ?thesis using assms(2) by (auto simp: boot_of_def bootTime_def split: sum.splits)
qed

lemma start_of_linux:
  assumes "wf_world w" "0 < pid" "file_content w (''/proc/'' @ itoa pid @ ''/stat'') = Some s"
    "stat_ticks s = Some t" "boot_of me w = Some bt"
  shows "start_of linux me w pid = ticks_to_time bt userHz t"
proof -
  have "boot_of me (bump_fd w) = Some bt"
    using assms(5) unfolding boot_of_def by (simp only: file_content_states cache_states)
  moreover have "wf_world (bump_fd w)" using assms(1) by simp
  ultimately have *: "boot_of me (bump_fd w) = Some bt" "wf_world (bump_fd w)" by simp_all
  from run_bootTime[OF *(2,1)] obtain w' where "run me bootTime [] (bump_fd w) = (Inr bt, [], w')" by blast
  then show ?thesis
    using assms(2,4) run_readFile[OF calm_Nil assms(1,3), of me]
    by (simp add: start_of_def linux_def startTime_linux_def) (simp add: userHz_def)
qed

section \<open>Properties\<close>

text \<open>The three verdicts, stated of the state.\<close>

definition same_host :: "world \<Rightarrow> marker \<Rightarrow> bool" where
  "same_host w m \<longleftrightarrow> m_host m \<noteq> [] \<and> local_host w \<noteq> ''unknown'' \<and> m_host m = local_host w"

definition known_dead :: "world \<Rightarrow> gtime \<Rightarrow> marker \<Rightarrow> bool" where
  "known_dead w start m \<longleftrightarrow> 0 < m_pid m \<and> same_host w m \<and>
     (kill_res w (m_pid m) = Some ESRCH \<or>
      kill_res w (m_pid m) = None \<and> m_pidStart m \<noteq> 0 \<and> start \<noteq> 0 \<and> start \<noteq> m_pidStart m)"

definition known_alive :: "world \<Rightarrow> gtime \<Rightarrow> marker \<Rightarrow> bool" where
  "known_alive w start m \<longleftrightarrow> 0 < m_pid m \<and> same_host w m \<and> kill_res w (m_pid m) = None \<and>
     (m_pidStart m = 0 \<or> start = 0 \<or> start = m_pidStart m)"

definition window_over :: "world \<Rightarrow> marker \<Rightarrow> fl_config \<Rightarrow> bool" where
  "window_over w m cfg \<longleftrightarrow> fc_staleAfterIsOn cfg \<and> m_acquired m \<noteq> 0 \<and>
     time_sub (clock w) (m_acquired m) > fc_staleAfter cfg"

lemma run_timeExpired:
  "calm 1 es \<Longrightarrow> fst (run me (timeExpired m cfg) es w) = window_over w m cfg"
  by (auto simp: timeExpired_def window_over_def isZero_def)

lemma run_probeMarker:
  assumes "quiet_platform pl" "pl_isAlive pl = isAlive_unix" "wf_world w"
  shows "\<exists>w'. run me (probeMarker pl m) [] w =
      ((if known_dead w (start_of pl me w (m_pid m)) m then probeDead
        else if known_alive w (start_of pl me w (m_pid m)) m then probeAlive else probeInconclusive), [], w')
      \<and> drifts w w'"
proof -
  obtain a w' where 1: "run me (pl_startTime pl (m_pid m)) [] w = (a, [], w')" "drifts w w'"
    using quiet_platformD(2)[OF assms(1)] assms(3) unfolding reads_only_def by blast
  then have a: "start_of pl me w (m_pid m) = a" by (simp add: start_of_def)
  show ?thesis
    using 1 unfolding probeMarker_def probePID_def assms(2) isAlive_unix_def a
    by (auto simp: run_hostname sys_kill_def isZero_def known_dead_def known_alive_def same_host_def
        split: option.splits)
qed

lemma isStale_table:
  assumes "quiet_platform pl" "pl_isAlive pl = isAlive_unix" "wf_world w"
  shows "fst (run me (isStale pl m cfg) [] w) =
    (let start = start_of pl me w (m_pid m) in
     case fc_strategy cfg of
       StaleStrategyPIDFirst \<Rightarrow> known_dead w start m \<or> \<not> known_alive w start m \<and> window_over w m cfg
     | StaleStrategyPIDOnly \<Rightarrow> known_dead w start m
     | StaleStrategyTimeOnly \<Rightarrow> window_over w m cfg
     | StaleStrategyOther _ \<Rightarrow> False)"
proof -
  obtain w' where p: "run me (probeMarker pl m) [] w =
      ((if known_dead w (start_of pl me w (m_pid m)) m then probeDead
        else if known_alive w (start_of pl me w (m_pid m)) m then probeAlive else probeInconclusive), [], w')"
      and d: "drifts w w'"
    using run_probeMarker[OF assms] by blast
  have win: "window_over w' m cfg = window_over w m cfg"
    using drifts_eqs(8)[OF d] by (simp add: window_over_def)
  show ?thesis
    by (simp add: isStale_def p run_timeExpired win Let_def split: StaleStrategy.split)
qed



text \<open>C22: The boot time that the start-time check on Linux builds on is the \<open>btime\<close> line of
  \<open>/proc/stat\<close> as each process first read it.  If the one the contender reads differs from the
  one the holder used, the marker of a running process of this host is judged stale.\<close>

theorem boot_time_step_makes_live_holder_stale:
  assumes "wf_world w" "0 < m_pid m" "same_host w m" "kill_res w (m_pid m) = None"
    and "file_content w (''/proc/'' @ itoa (m_pid m) @ ''/stat'') = Some s" "stat_ticks s = Some t"
    and "m_pidStart m = ticks_to_time b userHz t" "boot_of me w = Some b'" "b \<noteq> b'"
    and "ticks_to_time b userHz t \<noteq> 0" "ticks_to_time b' userHz t \<noteq> 0"
    and "fc_strategy cfg \<in> {StaleStrategyPIDFirst, StaleStrategyPIDOnly}"
  shows "fst (run me (isStale linux m cfg) [] w) = True"
proof -
  have st: "start_of linux me w (m_pid m) = ticks_to_time b' userHz t"
    by (rule start_of_linux[OF assms(1,2,5,6,8)])
  have "ticks_to_time b' userHz t \<noteq> ticks_to_time b userHz t"
    using assms(9) by (simp add: ticks_to_time_def Let_def)
  then have dead: "known_dead w (ticks_to_time b' userHz t) m"
    using assms(2,3,4,7,10,11) by (simp add: known_dead_def)
  have pl: "quiet_platform linux" "pl_isAlive linux = isAlive_unix" by simp_all
  obtain w' where p: "run me (probeMarker linux m) [] w = (probeDead, [], w')"
    using run_probeMarker[OF pl assms(1), of me m] dead by (auto simp: st)
  then show ?thesis using assms(12) by (auto simp: isStale_def)
qed

theorem boot_time_step_makes_live_holder_stale_witness:
  "fst (run 7 (isStale linux (empty_marker\<lparr>m_pid := 4242, m_host := ''web1'',
       m_pidStart := ticks_to_time (time_unix 1700000000) userHz 500\<rparr>) (fl_defaultConfig ''/tmp'')) []
     (put_file ''/proc/stat'' ''btime 1700000001''
       (put_file ''/proc/4242/stat'' ''4242 (job) S 1 2 3 4 5 6 7 8 9 10 11 12 13 14 15 16 17 18 500 0'' host_world)))
     = True"
proof (rule boot_time_step_makes_live_holder_stale)
  let ?w1 = "put_file ''/proc/4242/stat'' ''4242 (job) S 1 2 3 4 5 6 7 8 9 10 11 12 13 14 15 16 17 18 500 0'' host_world"
  let ?w = "put_file ''/proc/stat'' ''btime 1700000001'' ?w1"
  let ?m = "empty_marker\<lparr>m_pid := 4242, m_host := ''web1'', m_pidStart := ticks_to_time (time_unix 1700000000) userHz 500\<rparr>"
  have wf: "wf_world ?w1" by simp
  then show "wf_world ?w" by simp
  have p: "itoa 4242 = ''4242''" by code_simp
  show "file_content ?w (''/proc/'' @ itoa (m_pid ?m) @ ''/stat'') =
      Some ''4242 (job) S 1 2 3 4 5 6 7 8 9 10 11 12 13 14 15 16 17 18 500 0''"
    using wf by (simp add: p)
  show "stat_ticks ''4242 (job) S 1 2 3 4 5 6 7 8 9 10 11 12 13 14 15 16 17 18 500 0'' = Some 500"
    by code_simp
  have "segs NL ''btime 1700000001'' = [''btime 1700000001'']" by code_simp
  moreover have "go_fields ''btime 1700000001'' = [''btime'', ''1700000001'']" by code_simp
  moreover have "digits_val ''1700000001'' = 1700000001" by (simp add: digits_val_def digit_val_def)
  then have "atoi ''1700000001'' = Some 1700000001"
    by (simp add: atoi_def parse_digits_def int64_range_def is_digit_def)
  ultimately have "find_btime (segs NL ''btime 1700000001'') = Inr (time_unix 1700000001)" by simp
  then show "boot_of 7 ?w = Some (time_unix 1700000001)"
    using wf by (simp add: boot_of_def)
  show "kill_res ?w (m_pid ?m) = None" by simp
  show "same_host ?w ?m" by (simp add: same_host_def local_host_def)
  show "fc_strategy (fl_defaultConfig ''/tmp'') \<in> {StaleStrategyPIDFirst, StaleStrategyPIDOnly}"
    by (simp add: fl_defaultConfig_def)
  show "time_unix 1700000000 \<noteq> time_unix 1700000001" "ticks_to_time (time_unix 1700000000) userHz 500 \<noteq> 0"
    "ticks_to_time (time_unix 1700000001) userHz 500 \<noteq> 0" "0 < m_pid ?m"
    "m_pidStart ?m = ticks_to_time (time_unix 1700000000) userHz 500"
    by code_simp+
qed

end
