(* ===== verification/Fence.thy ===== *)
theory Fence
  imports Filelock_Probe
begin

text \<open>
  The fencing sidecar, \<open>filelock/fence.go\<close> and \<open>flock/fence.go\<close>: the two files are the same
  code up to the package name in the temporary file's name and in the error texts, so the
  programs take the package name as an argument.  A fence value is a 64-bit unsigned integer and
  wraps around.
\<close>

section \<open>The programs\<close>

definition fencePath :: "string \<Rightarrow> string \<Rightarrow> string" where
  "fencePath dir name = path_join dir (name @ ''.fence'')"

definition readFence :: "string \<Rightarrow> 64 word prog" where
  "readFence path =
     bind (readFile path) (\<lambda>d. Ret (case d of
       Inl e \<Rightarrow> 0
     | Inr s \<Rightarrow> (case parse_uint64 (trim_space s) of None \<Rightarrow> 0 | Some v \<Rightarrow> v)))"

definition writeFence :: "string \<Rightarrow> string \<Rightarrow> 64 word \<Rightarrow> err prog" where
  "writeFence pkg path v =
     CreateTemp (path_dir path) (''.'' @ pkg @ ''-fence-'') (\<lambda>r. case r of
       Inl e \<Rightarrow> Ret (Some (Wrap (pkg @ '': fence tmp'') (Errno e)))
     | Inr (fd, tmpPath) \<Rightarrow>
         WriteFd fd (dec (unat v) @ [NL]) (\<lambda>we. case we of
           Some e \<Rightarrow> CloseFd fd (\<lambda>_. RemovePath tmpPath (\<lambda>_. Ret (Some (Wrap (pkg @ '': fence write'') (Errno e)))))
         | None \<Rightarrow>
             CloseFd fd (\<lambda>ce. case ce of
               Some e \<Rightarrow> RemovePath tmpPath (\<lambda>_. Ret (Some (Wrap (pkg @ '': fence close'') (Errno e))))
             | None \<Rightarrow>
                 RenamePath tmpPath path (\<lambda>re. case re of
                   None \<Rightarrow> Ret None
                 | Some e \<Rightarrow> RemovePath tmpPath (\<lambda>_.
                     if \<not> errors_is (Wrap ''rename'' (Errno e)) os_ErrExist
                     then Ret (Some (Wrap (pkg @ '': fence rename'') (Errno e)))
                     else Ret None)))))"

definition bumpFence :: "string \<Rightarrow> string \<Rightarrow> string \<Rightarrow> 64 word prog" where
  "bumpFence pkg dir name =
     (let path = fencePath dir name in
        bind (readFence path) (\<lambda>prev.
          let nxt = prev + 1 in
            bind (writeFence pkg path nxt) (\<lambda>e. Ret (case e of Some x \<Rightarrow> 0 | None \<Rightarrow> nxt))))"

section \<open>What they do in a quiet environment\<close>

text \<open>The value a fence file stands for.\<close>

definition fence_value :: "world \<Rightarrow> string \<Rightarrow> 64 word" where
  "fence_value w path = (case file_content w path of
     None \<Rightarrow> 0
   | Some s \<Rightarrow> (case parse_uint64 (trim_space s) of None \<Rightarrow> 0 | Some v \<Rightarrow> v))"

lemma run_readFence:
  assumes "wf_world w"
  shows "\<exists>w'. run me (readFence path) [] w = (fence_value w path, [], w') \<and> drifts w w'"
proof -
  obtain a w' where 1: "run me (readFile path) [] w = (a, [], w')" "drifts w w'"
    using reads_only_readFile[of path] assms unfolding reads_only_def by blast
  have "(case a of Inl e \<Rightarrow> 0 | Inr s \<Rightarrow> (case parse_uint64 (trim_space s) of None \<Rightarrow> 0 | Some v \<Rightarrow> v))
      = fence_value w path"
  proof (cases "lookup w path")
    case None
    then have "a = Inl (Wrap (''open '' @ path) (Errno ENOENT))" using 1(1) by simp
    then show ?thesis using None by (simp add: fence_value_def file_content_def)
  next
    case (Some x)
    show ?thesis
    proof (cases x)
      case DirEntry
      have "sys_open_rd me path None w = (with_fd me 0 w, Inr (next_fd w))"
        using Some DirEntry by (simp add: sys_open_rd_def with_fd_def open_fd_def)
      moreover have "sys_read_all (next_fd w) None (with_fd me 0 w) = (with_fd me 0 w, Inl EISDIR)"
        by (simp add: sys_read_all_def)
      ultimately have "\<exists>e. a = Inl e" using assms 1(1) by (auto simp: readFile_def)
      then show ?thesis using Some DirEntry by (auto simp: fence_value_def file_content_def)
    next
      case (FileEntry i)
      with Some have f: "file_content w path = Some (inodes w i)" by (simp add: file_content_def)
      have "a = Inr (inodes w i)" using run_readFile[OF calm_Nil assms f, of me] 1(1) by simp
      then show ?thesis by (simp add: fence_value_def f)
    qed
  qed
  with 1 show ?thesis by (simp add: readFence_def)
qed

text \<open>
  The effect of a program on the files: their contents, with everything else about the state but
  descriptor and inode numbers, the boot-time cache and the temporary-name counter as before.
\<close>

definition effect :: "world \<Rightarrow> (string \<Rightarrow> string option) \<Rightarrow> world \<Rightarrow> bool" where
  "effect w fc w' \<longleftrightarrow> wf_world w' \<and> file_content w' = fc \<and> is_dir w' = is_dir w \<and> same_env w w' \<and>
     temp_seq w \<le> temp_seq w'"

lemma effectD:
  assumes "effect w fc w'"
  shows "wf_world w'" "file_content w' = fc" "is_dir w' = is_dir w" "same_env w w'"
    "clock w' = clock w" "host_res w' = host_res w" "kill_res w' = kill_res w" "ctx_err w' = ctx_err w"
    "fds w' = fds w" "flocks w' = flocks w" "temp_seq w \<le> temp_seq w'"
  using assms by (simp_all add: effect_def same_env_def)

lemma effect_trans: "effect w fc w' \<Longrightarrow> effect w' fc' w'' \<Longrightarrow> effect w fc' w''"
  unfolding effect_def by (elim conjE, intro conjI) (auto intro: same_env_trans)

lemma effect_cong: "effect w fc w' \<Longrightarrow> fc = fc' \<Longrightarrow> effect w fc' w'"
  by simp

lemma drifts_effect: "drifts w w' \<Longrightarrow> wf_world w \<Longrightarrow> effect w (file_content w) w'"
  using drifts_eqs[of w w'] drifts_wf by (simp add: effect_def)

definition temp_ok :: "string \<Rightarrow> string \<Rightarrow> world \<Rightarrow> bool" where
  "temp_ok dir pre w \<longleftrightarrow> is_dir w dir \<and> temp_free (join_prefix dir @ pre) w \<noteq> None"

lemma run_writeFence:
  assumes "wf_world w" "temp_ok (path_dir path) (''.'' @ pkg @ ''-fence-'') w" "\<not> is_dir w path"
  shows "\<exists>w'. run me (writeFence pkg path v) [] w = (None, [], w') \<and>
     effect w ((file_content w)(path \<mapsto> dec (unat v) @ [NL])) w' \<and>
     (\<forall>q. q \<noteq> path \<longrightarrow> lookup w' q = lookup w q)"
proof -
  let ?d = "path_dir path"
  obtain s where s: "is_dir w ?d" "temp_free (join_prefix ?d @ ''.'' @ pkg @ ''-fence-'') w = Some s"
    using assms(2) by (auto simp: temp_ok_def)
  have ts: "temp_seq w \<le> Suc s" using temp_free_le[OF s(2)] by simp
  let ?t = "join_prefix ?d @ (''.'' @ pkg @ ''-fence-'') @ dec s"
  let ?w1 = "bump_temp (Suc s) w"
  let ?w2 = "put_file ?t (dec (unat v) @ [NL]) ?w1"
  have t: "lookup w ?t = None" using temp_free_lookup[OF s(2)] by simp
  then have l2: "lookup ?w2 ?t = Some (FileEntry (next_ino w))" by simp
  have nd: "\<not> is_dir w ?t" using t by (simp add: is_dir_def)
  have d2: "is_dir ?w2 = is_dir w" using nd by simp
  have r: "run me (writeFence pkg path v) [] w = (None, [], move_name ?t path ?w2)"
    using s assms sys_write_open_file[of ?w1 "dec (unat v) @ [NL]" me ?t "[]"]
      sys_close_open_file[of ?w1 None me ?t "dec (unat v) @ [NL]"]
      sys_rename_file[OF l2, of path] d2
    by (simp add: writeFence_def)
  have tn: "file_content w ?t = None" using t by (simp add: file_content_def)
  have "file_content ?w2 = (file_content w)(?t \<mapsto> dec (unat v) @ [NL])" using assms(1) by simp
  then have "file_content (move_name ?t path ?w2) = (file_content w)(path \<mapsto> dec (unat v) @ [NL])"
    using file_content_move_name[OF l2, of path] tn by (auto simp: fun_eq_iff)
  moreover have "is_dir (move_name ?t path ?w2) = is_dir w"
    using is_dir_move_name[OF l2, of path] d2 assms(3) by simp
  moreover have "wf_world (move_name ?t path ?w2)" using assms(1) l2 by (intro wf_move_name) simp_all
  moreover have "same_env w (move_name ?t path ?w2)"
    by (meson same_env_states same_env_trans)
  moreover have "\<forall>q. q \<noteq> path \<longrightarrow> lookup (move_name ?t path ?w2) q = lookup w q" using t by simp
  ultimately show ?thesis using r ts by (simp add: effect_def)
qed

lemma temp_ok_drifts: "drifts w w' \<Longrightarrow> temp_ok d pre w' = temp_ok d pre w"
  using drifts_eqs[of w w'] by (simp add: temp_ok_def temp_free_def)

lemma run_bumpFence_names:
  assumes "wf_world w" "temp_ok (path_dir (fencePath dir name)) (''.'' @ pkg @ ''-fence-'') w"
    "\<not> is_dir w (fencePath dir name)"
  shows "\<exists>w'. run me (bumpFence pkg dir name) [] w = (fence_value w (fencePath dir name) + 1, [], w') \<and>
     effect w ((file_content w)(fencePath dir name \<mapsto>
       dec (unat (fence_value w (fencePath dir name) + 1)) @ [NL])) w' \<and>
     (\<forall>q. q \<noteq> fencePath dir name \<longrightarrow> lookup w' q = lookup w q)"
proof -
  let ?p = "fencePath dir name" and ?v = "fence_value w (fencePath dir name)"
  obtain w1 where 1: "run me (readFence ?p) [] w = (?v, [], w1)" "drifts w w1"
    using run_readFence[OF assms(1)] by blast
  obtain w2 where 2: "run me (writeFence pkg ?p (?v + 1)) [] w1 = (None, [], w2)"
      "effect w1 ((file_content w1)(?p \<mapsto> dec (unat (?v + 1)) @ [NL])) w2"
      "\<forall>q. q \<noteq> ?p \<longrightarrow> lookup w2 q = lookup w1 q"
    using run_writeFence[of w1 ?p pkg me "?v + 1"] drifts_wf[OF 1(2) assms(1)] assms(2,3)
      temp_ok_drifts[OF 1(2)] drifts_eqs[OF 1(2)] by auto
  have "effect w ((file_content w)(?p \<mapsto> dec (unat (?v + 1)) @ [NL])) w2"
    using effect_trans[OF drifts_effect[OF 1(2) assms(1)] 2(2)] drifts_eqs(2)[OF 1(2)] by simp
  with 1 2 show ?thesis using drifts_eqs(1)[OF 1(2)] by (simp add: bumpFence_def Let_def)
qed

lemma run_bumpFence:
  assumes "wf_world w" "temp_ok (path_dir (fencePath dir name)) (''.'' @ pkg @ ''-fence-'') w"
    "\<not> is_dir w (fencePath dir name)"
  shows "\<exists>w'. run me (bumpFence pkg dir name) [] w = (fence_value w (fencePath dir name) + 1, [], w') \<and>
     effect w ((file_content w)(fencePath dir name \<mapsto>
       dec (unat (fence_value w (fencePath dir name) + 1)) @ [NL])) w'"
  using run_bumpFence_names[OF assms, of me] by blast

text \<open>A written fence is read back as the value written.\<close>

lemma trim_space_line: "trim_space (dec n @ [NL]) = dec n"
proof -
  have g: "\<And>c. c \<in> set (dec n) \<Longrightarrow> graphic c" using dec_digits is_digit_graphic by blast
  have tl: "trimmed (dec n)" using g by (rule trimmed_graphic)
  have "trim_left (dec n @ [NL]) = dec n @ [NL]"
    unfolding trim_left_def
  proof (rule strip_id)
    fix p assume p: "p \<in> set go_spaces"
    show "\<not> prefix p (dec n @ [NL])"
    proof
      assume "prefix p (dec n @ [NL])"
      moreover have "p \<noteq> []" using p by auto
      ultimately have "hd p = hd (dec n)" by (metis append_is_Nil_conv dec_nonempty hd_append2 prefix_def)
      then show False using go_spaces_not_graphic[OF p] g \<open>p \<noteq> []\<close> by (metis dec_nonempty hd_in_set)
    qed
  qed
  moreover have "strip (map rev go_spaces) (NL # rev (dec n)) = strip (map rev go_spaces) (rev (dec n))"
    by (subst strip.simps) (simp add: go_spaces_def)
  moreover have "strip (map rev go_spaces) (rev (dec n)) = rev (dec n)"
    using trim_space_trimmed[OF tl] tl
    by (intro strip_id) (auto simp: trimmed_def suffix_to_prefix)
  ultimately show ?thesis by (simp add: trim_space_def trim_right_def)
qed

lemma fence_value_written: "file_content w p = Some (dec (unat v) @ [NL]) \<Longrightarrow> fence_value w p = v"
  by (simp add: fence_value_def trim_space_line)

lemma plain_ext:
  "CHR ''/'' \<notin> set n \<Longrightarrow> plain_name (n @ ''.lock'')" "CHR ''/'' \<notin> set n \<Longrightarrow> plain_name (n @ ''.fence'')"
  by (cases n; auto simp: plain_name_def append_eq_Cons_conv)+

lemma fencePath_dir: "dir \<noteq> [] \<Longrightarrow> CHR ''/'' \<notin> set n \<Longrightarrow> path_dir (fencePath dir n) = path_clean dir"
  by (simp add: fencePath_def path_dir_join plain_ext)

text \<open>Names of lock and fence files never clash with those of temporary files, which end in a digit.\<close>

definition no_digit_end :: "string \<Rightarrow> bool" where
  "no_digit_end p \<longleftrightarrow> p \<noteq> [] \<and> \<not> is_digit (last p)"

lemma temp_name_digit: "no_digit_end p \<Longrightarrow> p \<noteq> x @ y @ dec k"
  using dec_digits[of "last (dec k)" k] by (auto simp: no_digit_end_def)

lemma last_lock: "no_digit_end (x @ ''.lock'')" "no_digit_end (x @ ''.fence'')"
  by (simp_all add: no_digit_end_def is_digit_def)

lemma plain_slot: "CHR ''/'' \<notin> set n \<Longrightarrow> CHR ''/'' \<notin> set (n @ ''.'' @ itoa i)"
  using itoa_chars[of "CHR ''/''" i] is_digit_neq(7)[of "CHR ''/''"] by auto

section \<open>Properties\<close>

text \<open>C17: Bumping the fence of a name in a quiet environment returns the value of its file plus one,
  in 64-bit arithmetic (a missing or malformed file counts as zero), stores exactly that value and
  changes no other file; the next bump returns the one after it.\<close>

theorem bumpFence_counts:
  assumes "wf_world w" "dir \<noteq> []" "CHR ''/'' \<notin> set name" "\<not> is_dir w (fencePath dir name)"
    and "temp_ok (path_clean dir) (''.'' @ pkg @ ''-fence-'') w"
  shows "\<exists>w'. run me (bumpFence pkg dir name) [] w = (fence_value w (fencePath dir name) + 1, [], w') \<and>
     fence_value w' (fencePath dir name) = fence_value w (fencePath dir name) + 1 \<and>
     (\<forall>p. p \<noteq> fencePath dir name \<longrightarrow> file_content w' p = file_content w p)"
proof -
  obtain w' where "run me (bumpFence pkg dir name) [] w = (fence_value w (fencePath dir name) + 1, [], w')"
    "effect w ((file_content w)(fencePath dir name \<mapsto>
       dec (unat (fence_value w (fencePath dir name) + 1)) @ [NL])) w'"
    using run_bumpFence[OF assms(1) _ assms(4), of pkg me] assms(5) fencePath_dir[OF assms(2,3)] by auto
  then show ?thesis by (intro exI[of _ w']) (auto simp: effect_def intro: fence_value_written)
qed

theorem bumpFence_counts_witness:
  "fst (run 7 (bumpFence ''filelock'' ''/locks'' ''job'') []
     (put_file ''/locks/job.fence'' ''18446744073709551615'' host_world)) = 0"
proof -
  let ?w = "put_file ''/locks/job.fence'' ''18446744073709551615'' host_world"
  have p: "fencePath ''/locks'' ''job'' = ''/locks/job.fence''" "path_clean ''/locks'' = ''/locks''"
    "join_prefix ''/locks'' = ''/locks/''"
    by (simp_all add: fencePath_def path_join_def path_clean_def clean_stack_def clean_step_def rooted_def join_prefix_def)
  have "trimmed ''18446744073709551615''"
    by (rule trimmed_graphic) (auto simp: graphic_def)
  then have v: "fence_value ?w ''/locks/job.fence'' = - 1"
    by (simp add: fence_value_def parse_uint64_def digits_val_def digit_val_def is_digit_def)
  have "temp_ok ''/locks'' ''.filelock-fence-'' ?w"
    by (simp add: temp_ok_def p is_dir_def temp_free_first dec.simps)
  then have "\<exists>w'. run 7 (bumpFence ''filelock'' ''/locks'' ''job'') [] ?w = (- 1 + 1, [], w')"
    using bumpFence_counts[of ?w "''/locks''" "''job''" "''filelock''" 7] by (auto simp: p v is_dir_def)
  then show ?thesis by auto
qed

end
