(* ===== verification/Filelock.thy ===== *)
theory Filelock
  imports Fence
begin

text \<open>
  \<open>filelock/lock.go\<close>, \<open>holder.go\<close>, \<open>factory.go\<close> and \<open>locker_adapter.go\<close>: acquiring, taking
  over and releasing a marker file, semaphore slots, the observability events of each call, and
  the entry points of the package.  A program that acquires returns the result and the events
  that reached the hooks, in order.
\<close>

section \<open>Holders and paths\<close>

record fl_holder =
  fh_path :: string
  fh_token :: "64 word"
  fh_name :: string
  fh_acquiredAt :: gtime
  fh_observe :: observeOptions
  fh_released :: bool

definition fl_new_holder :: "string \<Rightarrow> fl_holder" where
  "fl_new_holder path = \<lparr>fh_path = path, fh_token = 0, fh_name = [], fh_acquiredAt = 0,
     fh_observe = no_observe, fh_released = False\<rparr>"

definition fl_Holder_Path :: "fl_holder \<Rightarrow> string" where
  "fl_Holder_Path h = fh_path h"

definition fl_Token :: "fl_holder \<Rightarrow> 64 word" where
  "fl_Token h = fh_token h"

definition markerPath :: "string \<Rightarrow> string \<Rightarrow> string" where
  "markerPath dir name = path_join dir (name @ ''.lock'')"

definition slotMarkerPath :: "string \<Rightarrow> string \<Rightarrow> int \<Rightarrow> string" where
  "slotMarkerPath dir name slot = path_join dir (name @ ''.'' @ itoa slot @ ''.lock'')"

section \<open>One marker\<close>

definition tryCreateMarker :: "platform \<Rightarrow> string \<Rightarrow> fl_config \<Rightarrow> fl_holder res prog" where
  "tryCreateMarker pl path cfg =
     OpenExcl path (\<lambda>r. case r of
       Inl e \<Rightarrow> Ret (Inl (Wrap (''open '' @ path) (Errno e)))
     | Inr fd \<Rightarrow>
         bind (buildMarker pl cfg) (\<lambda>m.
           bind (writeMarker fd m) (\<lambda>writeErr. case writeErr of
             Some e \<Rightarrow> CloseFd fd (\<lambda>_. RemovePath path (\<lambda>_. Ret (Inl (Wrap ''filelock: write marker'' e))))
           | None \<Rightarrow>
               CloseFd fd (\<lambda>closeErr. case closeErr of
                 Some e \<Rightarrow> RemovePath path (\<lambda>_. Ret (Inl (Wrap ''filelock: close'' (Errno e))))
               | None \<Rightarrow> Ret (Inr (fl_new_holder path))))))"

definition takeoverMarker :: "platform \<Rightarrow> string \<Rightarrow> fl_config \<Rightarrow> fl_holder res prog" where
  "takeoverMarker pl path cfg =
     CreateTemp (path_dir path) ''.filelock-takeover-'' (\<lambda>r. case r of
       Inl e \<Rightarrow> Ret (Inl (Wrap ''filelock: takeover tempfile'' (Errno e)))
     | Inr (fd, tmpPath) \<Rightarrow>
         bind (buildMarker pl cfg) (\<lambda>m.
           bind (writeMarker fd m) (\<lambda>writeErr. case writeErr of
             Some e \<Rightarrow> CloseFd fd (\<lambda>_. RemovePath tmpPath (\<lambda>_. Ret (Inl (Wrap ''filelock: write takeover marker'' e))))
           | None \<Rightarrow>
               CloseFd fd (\<lambda>closeErr. case closeErr of
                 Some e \<Rightarrow> RemovePath tmpPath (\<lambda>_. Ret (Inl (Wrap ''filelock: close takeover marker'' (Errno e))))
               | None \<Rightarrow>
                   RenamePath tmpPath path (\<lambda>renameErr. case renameErr of
                     Some e \<Rightarrow> RemovePath tmpPath (\<lambda>_. Ret (Inl (Wrap ''filelock: rename takeover marker'' (Errno e))))
                   | None \<Rightarrow> Ret (Inr (fl_new_holder path)))))))"

text \<open>What follows once the marker has been read: held, or stale and taken over.\<close>

definition decideMarker :: "platform \<Rightarrow> string \<Rightarrow> fl_config \<Rightarrow> marker \<Rightarrow> fl_holder res prog" where
  "decideMarker pl path cfg existing =
     bind (isStale pl existing cfg) (\<lambda>stale.
       if \<not> stale then Ret (Inl fl_ErrLocked) else takeoverMarker pl path cfg)"

definition acquireMarker :: "platform \<Rightarrow> string \<Rightarrow> fl_config \<Rightarrow> fl_holder res prog" where
  "acquireMarker pl path cfg =
     bind (tryCreateMarker pl path cfg) (\<lambda>r. case r of
       Inr h \<Rightarrow> Ret (Inr h)
     | Inl err \<Rightarrow>
         if \<not> errors_is err os_ErrExist then Ret (Inl err)
         else bind (readMarker path) (\<lambda>d. case d of
           Inl readErr \<Rightarrow>
             if errors_is readErr os_ErrNotExist then
               bind (tryCreateMarker pl path cfg) (\<lambda>r2. case r2 of
                 Inr h \<Rightarrow> Ret (Inr h)
               | Inl err2 \<Rightarrow>
                   if \<not> errors_is err2 os_ErrExist then Ret (Inl err2) else Ret (Inl fl_ErrLocked))
             else Ret (Inl (Wrap ''filelock: read marker'' readErr))
         | Inr existing \<Rightarrow> decideMarker pl path cfg existing))"

definition slot_path :: "string \<Rightarrow> string \<Rightarrow> int \<Rightarrow> string" where
  "slot_path dir name slot = (if slot < 0 then markerPath dir name else slotMarkerPath dir name slot)"

definition acquireSlot :: "platform \<Rightarrow> string \<Rightarrow> fl_config \<Rightarrow> int \<Rightarrow> fl_holder res prog" where
  "acquireSlot pl name cfg slot =
     (let slotCfg = (if slot \<ge> 0 then cfg\<lparr>fc_slot := slot, fc_slotIsSet := True\<rparr> else cfg);
          path = (if slot < 0 then markerPath (fc_dir cfg) name else slotMarkerPath (fc_dir cfg) name slot)
      in bind (acquireMarker pl path slotCfg) (\<lambda>r. case r of
           Inl e \<Rightarrow> Ret (Inl e)
         | Inr h \<Rightarrow> bind (bumpFence ''filelock'' (fc_dir cfg) name) (\<lambda>t. Ret (Inr (h\<lparr>fh_token := t\<rparr>)))))"

section \<open>Acquire\<close>

fun acquire_slots :: "platform \<Rightarrow> string \<Rightarrow> fl_config \<Rightarrow> int list \<Rightarrow> fl_holder res prog" where
  "acquire_slots pl name cfg [] = Ret (Inl fl_ErrLocked)"
| "acquire_slots pl name cfg (slot # slots) =
     bind (acquireSlot pl name cfg slot) (\<lambda>r. case r of
       Inr h \<Rightarrow> Ret (Inr h)
     | Inl e \<Rightarrow> if errors_is e fl_ErrLocked then acquire_slots pl name cfg slots else Ret (Inl e))"

definition fl_slots :: "int \<Rightarrow> int list" where
  "fl_slots n = map int [0..<nat n]"

definition acquire_body :: "platform \<Rightarrow> string \<Rightarrow> fl_config \<Rightarrow> fl_holder res prog" where
  "acquire_body pl name cfg =
     CtxErr (\<lambda>ctxErr. case ctxErr of
       Some e \<Rightarrow> Ret (Inl e)
     | None \<Rightarrow>
         MkdirAll (fc_dir cfg) (\<lambda>mkErr. case mkErr of
           Some e \<Rightarrow> Ret (Inl (Wrap ''filelock: mkdir'' (Errno e)))
         | None \<Rightarrow>
             if fc_maxConcurrent cfg \<le> 1 then acquireSlot pl name cfg (- 1)
             else acquire_slots pl name cfg (fl_slots (fc_maxConcurrent cfg))))"

definition fl_acquire ::
  "platform \<Rightarrow> ctx \<Rightarrow> string \<Rightarrow> fl_config \<Rightarrow> (fl_holder res \<times> obs_event list) prog" where
  "fl_acquire pl c name cfg0 =
     Now (\<lambda>start.
       let obs = fc_observe cfg0;
           cfg = cfg0\<lparr>fc_traceID := extract_trace obs c\<rparr>;
           ev1 = snd (start_span obs c ''filelock.Acquire'')
       in bind (acquire_body pl name cfg) (\<lambda>r.
            Now (\<lambda>done.
              let e = err_of r; outcome = fl_outcomeFor e;
                  evs = ev1 @ finish_span obs e @ fl_recordAcquire obs name outcome (time_sub done start) e
              in if outcome = OutcomeAcquired then
                   (case r of
                      Inr h \<Rightarrow> Now (\<lambda>now. Ret
                        (Inr (h\<lparr>fh_observe := obs, fh_name := name, fh_acquiredAt := now\<rparr>),
                         evs @ fl_recordActive obs name 1))
                    | Inl x \<Rightarrow> Ret (r, evs @ fl_recordActive obs name 1))
                 else Ret (r, evs))))"

section \<open>Release\<close>

definition release_err :: "fault \<Rightarrow> err" where
  "release_err r = (case r of
     None \<Rightarrow> None
   | Some e \<Rightarrow> if errors_is (Wrap ''remove'' (Errno e)) os_ErrNotExist then None
             else Some (Wrap ''filelock: remove'' (Wrap ''remove'' (Errno e))))"

definition fl_Release :: "fl_holder \<Rightarrow> (err \<times> fl_holder \<times> obs_event list) prog" where
  "fl_Release h =
     (if fh_released h then Ret (None, h, [])
      else
        RemovePath (fh_path h) (\<lambda>r.
          let h' = h\<lparr>fh_released := True\<rparr>; e = release_err r; active = fl_recordActive (fh_observe h) (fh_name h) (- 1)
          in if \<not> isZero (fh_acquiredAt h)
             then Now (\<lambda>now. Ret (e, h',
                    fl_recordHold (fh_observe h) (fh_name h) (time_sub now (fh_acquiredAt h)) @ active))
             else Ret (e, h', active)))"

section \<open>Locks, factories and adapters\<close>

record fl_lock =
  fl_name :: string
  fl_cfg :: fl_config

definition fl_New :: "string \<Rightarrow> string \<Rightarrow> fl_option list \<Rightarrow> fl_lock" where
  "fl_New tempDir name opts = \<lparr>fl_name = name, fl_cfg = fl_applyOptions (fl_defaultConfig tempDir) opts\<rparr>"

definition fl_Lock_Name :: "fl_lock \<Rightarrow> string" where
  "fl_Lock_Name l = fl_name l"

definition fl_Lock_Path :: "fl_lock \<Rightarrow> string" where
  "fl_Lock_Path l = markerPath (fc_dir (fl_cfg l)) (fl_name l)"

definition fl_Lock_Acquire ::
  "platform \<Rightarrow> ctx \<Rightarrow> fl_lock \<Rightarrow> fl_option list \<Rightarrow> (fl_holder res \<times> obs_event list) prog" where
  "fl_Lock_Acquire pl c l opts =
     (let cfg = fl_applyOptions (fl_cfg l) opts in fl_acquire pl c (fl_name l) cfg)"

record fl_factory =
  fl_defaults :: fl_config

definition fl_NewFactory :: "string \<Rightarrow> fl_option list \<Rightarrow> fl_factory" where
  "fl_NewFactory tempDir opts = \<lparr>fl_defaults = fl_applyOptions (fl_defaultConfig tempDir) opts\<rparr>"

definition fl_Factory_Acquire ::
  "platform \<Rightarrow> ctx \<Rightarrow> fl_factory \<Rightarrow> string \<Rightarrow> fl_option list \<Rightarrow> (fl_holder res \<times> obs_event list) prog" where
  "fl_Factory_Acquire pl c f name opts =
     (let cfg = fl_applyOptions (fl_defaults f) opts in fl_acquire pl c name cfg)"

text \<open>The deferred release of \<open>WithLock\<close>, after any of the two ways to acquire.\<close>

definition fl_with :: "(fl_holder res \<times> obs_event list) prog \<Rightarrow> fn_res prog \<Rightarrow> (fn_res \<times> obs_event list) prog" where
  "fl_with acq fn =
     bind acq (\<lambda>(r, evs). case r of
       Inl acqErr \<Rightarrow> Ret (Returned (Some acqErr), evs)
     | Inr holder \<Rightarrow>
         bind fn (\<lambda>x. bind (fl_Release holder) (\<lambda>(relErr, h', evs').
           Ret (merge_release x relErr, evs @ evs'))))"

definition fl_Factory_WithLock ::
  "platform \<Rightarrow> ctx \<Rightarrow> fl_factory \<Rightarrow> string \<Rightarrow> fn_res prog \<Rightarrow> fl_option list \<Rightarrow> (fn_res \<times> obs_event list) prog" where
  "fl_Factory_WithLock pl c f name fn opts = fl_with (fl_Factory_Acquire pl c f name opts) fn"

definition fl_WithLock ::
  "platform \<Rightarrow> ctx \<Rightarrow> fl_lock \<Rightarrow> fn_res prog \<Rightarrow> fl_option list \<Rightarrow> (fn_res \<times> obs_event list) prog" where
  "fl_WithLock pl c l fn opts = fl_with (fl_Lock_Acquire pl c l opts) fn"

text \<open>The adapters translate by comparing with the sentinel itself.\<close>

definition fl_translate :: "fl_holder res \<Rightarrow> fl_holder res" where
  "fl_translate r = (case r of
     Inl e \<Rightarrow> if e = fl_ErrLocked then Inl lock_ErrLocked else Inl e
   | Inr h \<Rightarrow> Inr h)"

definition fl_factoryAdapter_Acquire ::
  "platform \<Rightarrow> ctx \<Rightarrow> fl_factory \<Rightarrow> string \<Rightarrow> (fl_holder res \<times> obs_event list) prog" where
  "fl_factoryAdapter_Acquire pl c f name =
     bind (fl_Factory_Acquire pl c f name []) (\<lambda>(r, evs). Ret (fl_translate r, evs))"

definition fl_lockAdapter_Acquire ::
  "platform \<Rightarrow> ctx \<Rightarrow> fl_lock \<Rightarrow> string \<Rightarrow> (fl_holder res \<times> obs_event list) prog" where
  "fl_lockAdapter_Acquire pl c l _ =
     bind (fl_Lock_Acquire pl c l []) (\<lambda>(r, evs). Ret (fl_translate r, evs))"

definition fl_holderAdapter_Release :: "fl_holder \<Rightarrow> (err \<times> fl_holder \<times> obs_event list) prog" where
  "fl_holderAdapter_Release h = fl_Release h"

end
