(* ===== verification/Filelock_Spec.thy ===== *)
theory Filelock_Spec
  imports Filelock
begin

text \<open>
  What acquiring and releasing a marker file does in a quiet environment: the effect of each
  branch on the files, the semaphore slots, the fencing tokens and the observability events.
\<close>

section \<open>One marker\<close>

text \<open>The marker a process writes when it has just opened its new file.\<close>

definition own_marker :: "platform \<Rightarrow> fl_config \<Rightarrow> int \<Rightarrow> string \<Rightarrow> world \<Rightarrow> marker" where
  "own_marker pl cfg me path w = new_marker pl cfg me (open_file me path [] w)"

lemma own_marker_fields [simp]:
  "m_pid (own_marker pl cfg me path w) = me"
  "m_host (own_marker pl cfg me path w) = local_host w"
  "m_acquired (own_marker pl cfg me path w) = clock w"
  "m_traceID (own_marker pl cfg me path w) = fc_traceID cfg"
  "m_strategy (own_marker pl cfg me path w) = strategy_String (fc_strategy cfg)"
  by (simp_all add: own_marker_def new_marker_def marker_of_def)

lemma run_build_open:
  assumes "quiet_platform pl" "wf_world w"
  shows "\<exists>k b. Suc (next_fd w) \<le> k \<and> run me (buildMarker pl cfg) [] (open_file me path [] w) =
    (own_marker pl cfg me path w, [], drift k b (open_file me path [] w))"
  using run_buildMarker[OF assms(1) wf_open_file[OF assms(2)], of me cfg me path "[]"]
  by (auto simp: own_marker_def drifts_def)

lemma effect_put:
  assumes "wf_world w" "lookup w path = None" "Suc (next_fd w) \<le> k"
  shows "effect w ((file_content w)(path \<mapsto> s)) (drift k b (put_file path s w))"
proof -
  have "same_env w (drift k b (put_file path s w))"
    by (meson drift_simps(17) same_env_states(2) same_env_trans)
  then show ?thesis using assms by (simp add: effect_def is_dir_def[of w path])
qed

lemma run_tryCreate_new:
  assumes "quiet_platform pl" "wf_world w" "lookup w path = None" "is_dir w (path_dir path)"
  shows "\<exists>w'. run me (tryCreateMarker pl path cfg) [] w = (Inr (fl_new_holder path), [], w') \<and>
    effect w ((file_content w)(path \<mapsto> marker_text (own_marker pl cfg me path w))) w'"
proof -
  obtain k b where b: "Suc (next_fd w) \<le> k" "run me (buildMarker pl cfg) [] (open_file me path [] w) =
      (own_marker pl cfg me path w, [], drift k b (open_file me path [] w))"
    using run_build_open[OF assms(1,2)] by blast
  have "run me (tryCreateMarker pl path cfg) [] w =
      (Inr (fl_new_holder path), [], drift k b (put_file path (marker_text (own_marker pl cfg me path w)) w))"
    using assms by (simp add: tryCreateMarker_def b(2))
  with effect_put[OF assms(2,3) b(1)] show ?thesis by blast
qed

lemma run_tryCreate_exists:
  "calm 1 es \<Longrightarrow> lookup w path = Some x \<Longrightarrow>
     run me (tryCreateMarker pl path cfg) es w = (Inl (Wrap (''open '' @ path) (Errno EEXIST)), skip 1 es, w)"
  by (simp add: tryCreateMarker_def)

lemma exist_errors [simp]:
  "errors_is (Wrap m (Errno EEXIST)) os_ErrExist" "\<not> errors_is (Wrap m (Errno EEXIST)) os_ErrNotExist"
  "errors_is (Wrap m (Errno ENOENT)) os_ErrNotExist" "\<not> errors_is (Wrap m (Errno ENOENT)) os_ErrExist"
  by (simp_all add: os_ErrExist_def os_ErrNotExist_def)

lemma run_takeover:
  assumes "quiet_platform pl" "wf_world w" "temp_ok (path_dir path) ''.filelock-takeover-'' w" "\<not> is_dir w path"
  shows "\<exists>m w'. run me (takeoverMarker pl path cfg) [] w = (Inr (fl_new_holder path), [], w') \<and>
    m_pid m = me \<and> m_host m = local_host w \<and> m_acquired m = clock w \<and>
    effect w ((file_content w)(path \<mapsto> marker_text m)) w'"
proof -
  let ?d = "path_dir path" and ?pre = "''.filelock-takeover-''"
  obtain s where s: "is_dir w ?d" "temp_free (join_prefix ?d @ ?pre) w = Some s"
    using assms(3) by (auto simp: temp_ok_def)
  let ?t = "join_prefix ?d @ ?pre @ dec s"
  let ?w1 = "bump_temp (Suc s) w"
  have t: "lookup w ?t = None" using temp_free_lookup[OF s(2)] by simp
  have wf1: "wf_world ?w1" using assms(2) by simp
  let ?m = "own_marker pl cfg me ?t ?w1"
  obtain k b where b: "Suc (next_fd w) \<le> k" "run me (buildMarker pl cfg) [] (open_file me ?t [] ?w1) =
      (?m, [], drift k b (open_file me ?t [] ?w1))"
    using run_build_open[OF assms(1) wf1] by fastforce
  let ?w2 = "drift k b (put_file ?t (marker_text ?m) ?w1)"
  have l2: "lookup ?w2 ?t = Some (FileEntry (next_ino w))" by simp
  have e1: "effect ?w1 ((file_content ?w1)(?t \<mapsto> marker_text ?m)) ?w2"
    using effect_put[OF wf1, of ?t k] t b(1) by simp
  have d2: "\<not> is_dir ?w2 path" using effectD(3)[OF e1] assms(4) by simp
  have "run me (takeoverMarker pl path cfg) [] w = (Inr (fl_new_holder path), [], move_name ?t path ?w2)"
    using s wf1 b(2) run_writeMarker_drift[where w = ?w1] sys_close_drift[OF wf1]
      sys_rename_file[OF l2 d2] sys_create_temp_ok[OF s]
    by (simp add: takeoverMarker_def)
  moreover have "effect w ((file_content w)(path \<mapsto> marker_text ?m)) (move_name ?t path ?w2)"
  proof -
    have tn: "file_content w ?t = None" using t by (simp add: file_content_def)
    have "file_content (move_name ?t path ?w2) = (file_content w)(path \<mapsto> marker_text ?m)"
      using file_content_move_name[OF l2, of path] effectD(2)[OF e1] tn by (auto simp: fun_eq_iff)
    moreover have "is_dir (move_name ?t path ?w2) = is_dir w"
      using is_dir_move_name[OF l2 d2] effectD(3)[OF e1] by simp
    moreover have "wf_world (move_name ?t path ?w2)" using effectD(1)[OF e1] l2 by (intro wf_move_name)
    moreover have "same_env w (move_name ?t path ?w2)"
      using effectD(4)[OF e1] by (meson same_env_states same_env_trans)
    moreover have "temp_seq w \<le> temp_seq (move_name ?t path ?w2)"
      using temp_free_le[OF s(2)] by simp
    ultimately show ?thesis by (simp add: effect_def)
  qed
  ultimately show ?thesis by (intro exI[of _ ?m] exI[of _ "move_name ?t path ?w2"]) (simp add: local_host_def)
qed

section \<open>The branches of \<open>acquireMarker\<close>\<close>

lemma run_acquireMarker_new:
  assumes "quiet_platform pl" "wf_world w" "lookup w path = None" "is_dir w (path_dir path)"
  shows "\<exists>w'. run me (acquireMarker pl path cfg) [] w = (Inr (fl_new_holder path), [], w') \<and>
    effect w ((file_content w)(path \<mapsto> marker_text (own_marker pl cfg me path w))) w'"
  using run_tryCreate_new[OF assms, of me cfg] by (auto simp: acquireMarker_def)

text \<open>A marker that parses: the decision is that of \<open>isStale\<close> in the state as it is.\<close>

lemma run_acquireMarker_exists:
  assumes "calm 4 es" "wf_world w" "file_content w path = Some s"
  shows "run me (acquireMarker pl path cfg) es w =
    (case parse_marker s of
       Inl e \<Rightarrow> (Inl (Wrap ''filelock: read marker'' e), skip 4 es, bump_fd w)
     | Inr m \<Rightarrow> run me (decideMarker pl path cfg m) (skip 4 es) (bump_fd w))"
proof -
  have c: "calm 1 es" "calm 3 (tick_rest es)" "skip 3 (tick_rest es) = skip 4 es"
    using assms(1) by (simp_all add: eval_nat_numeral)
  obtain i where "lookup w path = Some (FileEntry i)" using assms(3) by (auto simp: file_content_Some)
  note t = run_tryCreate_exists[OF c(1) this, of me pl cfg]
  note r = run_readMarker[OF c(2) assms(2,3), of me]
  have ne: "parse_marker s = Inl e \<Longrightarrow> \<not> errors_is e os_ErrNotExist" for e
    unfolding os_ErrNotExist_def by (rule parse_marker_error)
  show ?thesis
    by (cases "parse_marker s") (simp_all add: acquireMarker_def t r c(3) ne)
qed

text \<open>
  A path is held for a contender when it carries a marker that parses and is not stale, now or
  after reads that change nothing.
\<close>

definition held :: "platform \<Rightarrow> int \<Rightarrow> fl_config \<Rightarrow> world \<Rightarrow> string \<Rightarrow> bool" where
  "held pl me cfg w path \<longleftrightarrow> (\<exists>s m. file_content w path = Some s \<and> parse_marker s = Inr m \<and>
     (\<forall>w'. drifts w w' \<longrightarrow> \<not> fst (run me (isStale pl m cfg) [] w')))"

lemma held_drifts: "drifts w w' \<Longrightarrow> held pl me cfg w path \<Longrightarrow> held pl me cfg w' path"
  unfolding held_def using drifts_trans drifts_eqs(2) by metis

lemma isStale_slot [simp]:
  "isStale pl m (cfg\<lparr>fc_slot := i, fc_slotIsSet := b\<rparr>) = isStale pl m cfg"
  "isStale pl m (cfg\<lparr>fc_traceID := t\<rparr>) = isStale pl m cfg"
  by (simp_all add: isStale_def timeExpired_def split: StaleStrategy.split)

lemma held_slot [simp]:
  "held pl me (cfg\<lparr>fc_slot := i, fc_slotIsSet := b\<rparr>) w path = held pl me cfg w path"
  "held pl me (cfg\<lparr>fc_traceID := t\<rparr>) w path = held pl me cfg w path"
  by (simp_all add: held_def)

lemma run_acquireMarker_held:
  assumes "quiet_platform pl" "wf_world w" "held pl me cfg w path"
  shows "\<exists>w'. run me (acquireMarker pl path cfg) [] w = (Inl fl_ErrLocked, [], w') \<and> drifts w w'"
proof -
  obtain s m where s: "file_content w path = Some s" "parse_marker s = Inr m"
      "\<And>w'. drifts w w' \<Longrightarrow> \<not> fst (run me (isStale pl m cfg) [] w')"
    using assms(3) by (auto simp: held_def)
  have "wf_world (bump_fd w)" using assms(2) by simp
  then obtain st w' where st: "run me (isStale pl m cfg) [] (bump_fd w) = (st, [], w')" "drifts (bump_fd w) w'"
    using reads_only_isStale[OF assms(1)] unfolding reads_only_def by blast
  then have "\<not> st" using s(3)[OF drifts_bump] by simp
  then have "run me (acquireMarker pl path cfg) [] w = (Inl fl_ErrLocked, [], w')"
    using run_acquireMarker_exists[OF calm_Nil assms(2) s(1), of me pl cfg] s(2) st(1)
    by (simp add: decideMarker_def)
  then show ?thesis using drifts_trans[OF drifts_bump st(2)] by blast
qed

lemma run_acquireMarker_stale:
  assumes "quiet_platform pl" "wf_world w" "file_content w path = Some s" "parse_marker s = Inr m"
    and "fst (run me (isStale pl m cfg) [] (bump_fd w))" "temp_ok (path_dir path) ''.filelock-takeover-'' w"
  shows "\<exists>m' w'. run me (acquireMarker pl path cfg) [] w = (Inr (fl_new_holder path), [], w') \<and>
    m_pid m' = me \<and> m_host m' = local_host w \<and> m_acquired m' = clock w \<and>
    effect w ((file_content w)(path \<mapsto> marker_text m')) w'"
proof -
  have wb: "wf_world (bump_fd w)" using assms(2) by simp
  then obtain st w1 where st: "run me (isStale pl m cfg) [] (bump_fd w) = (st, [], w1)" "drifts (bump_fd w) w1"
    using reads_only_isStale[OF assms(1)] unfolding reads_only_def by blast
  then have "st" using assms(5) by simp
  have d: "drifts w w1" using drifts_trans[OF drifts_bump st(2)] .
  have nd: "\<not> is_dir w1 path" using assms(3) drifts_eqs[OF d] by (auto simp: file_content_Some is_dir_def)
  have t1: "temp_ok (path_dir path) ''.filelock-takeover-'' w1" using temp_ok_drifts[OF d] assms(6) by simp
  obtain m' w' where t: "run me (takeoverMarker pl path cfg) [] w1 = (Inr (fl_new_holder path), [], w')"
      "m_pid m' = me" "m_host m' = local_host w1" "m_acquired m' = clock w1"
      "effect w1 ((file_content w1)(path \<mapsto> marker_text m')) w'"
    using run_takeover[OF assms(1) drifts_wf[OF d assms(2)] t1 nd, of me cfg] by blast
  have "run me (acquireMarker pl path cfg) [] w = (Inr (fl_new_holder path), [], w')"
    using run_acquireMarker_exists[OF calm_Nil assms(2,3), of me pl cfg] assms(4) st(1) t(1) \<open>st\<close>
    by (simp add: decideMarker_def)
  moreover have "effect w ((file_content w)(path \<mapsto> marker_text m')) w'"
    using effect_trans[OF drifts_effect[OF d assms(2)] t(5)] drifts_eqs(2)[OF d] by simp
  ultimately show ?thesis
    using t(2-4) drifts_eqs(8,10)[OF d] by (intro exI[of _ m'] exI[of _ w']) (simp add: local_host_def)
qed

text \<open>A running process of this host holds, under the strategies that ask for it.\<close>

lemma held_alive:
  assumes "quiet_platform pl" "pl_isAlive pl = isAlive_unix" "wf_world w"
    and "file_content w path = Some s" "parse_marker s = Inr m" "0 < m_pid m" "same_host w m"
    and "kill_res w (m_pid m) = None" "m_pidStart m = 0"
    and "fc_strategy cfg \<in> {StaleStrategyPIDFirst, StaleStrategyPIDOnly}"
  shows "held pl me cfg w path"
  unfolding held_def
proof (intro exI conjI allI impI)
  fix w' assume d: "drifts w w'"
  have al: "known_alive w' t m" "\<not> known_dead w' t m" for t
    using assms(6-9) drifts_eqs[OF d] by (auto simp: known_alive_def known_dead_def same_host_def local_host_def)
  show "\<not> fst (run me (isStale pl m cfg) [] w')"
    using assms(10) isStale_table[OF assms(1,2) drifts_wf[OF d assms(3)], of me m cfg] al
    by (auto simp: Let_def)
qed (use assms(4,5) in auto)

text \<open>Whatever the system answers, a holder is one for the path asked for, and not released.\<close>

lemma always_tryCreate: "always (tryCreateMarker pl path cfg) (\<lambda>r. \<forall>h. r = Inr h \<longrightarrow> h = fl_new_holder path)"
  by (auto simp: tryCreateMarker_def split: sum.split option.split intro!: always_triv)

lemma always_takeover: "always (takeoverMarker pl path cfg) (\<lambda>r. \<forall>h. r = Inr h \<longrightarrow> h = fl_new_holder path)"
  by (auto simp: takeoverMarker_def split: sum.split option.split intro!: always_triv)

lemma always_acquireMarker: "always (acquireMarker pl path cfg) (\<lambda>r. \<forall>h. r = Inr h \<longrightarrow> h = fl_new_holder path)"
proof -
  have d: "always (decideMarker pl path cfg m) (\<lambda>r. \<forall>h. r = Inr h \<longrightarrow> h = fl_new_holder path)" for m
    using always_takeover[of pl path cfg] by (auto simp: decideMarker_def intro!: always_triv)
  show ?thesis
    unfolding acquireMarker_def always_bind
    by (rule always_mono[OF always_tryCreate])
      (auto split: sum.split intro!: always_triv always_mono[OF always_tryCreate] d)
qed

section \<open>A directory ready for locks\<close>

definition ready :: "string \<Rightarrow> world \<Rightarrow> bool" where
  "ready dir w \<longleftrightarrow> wf_world w \<and> dir \<noteq> [] \<and> is_dir w (path_clean dir) \<and>
     (\<forall>k \<ge> temp_seq w. lookup w (join_prefix (path_clean dir) @ ''.filelock-fence-'' @ dec k) = None \<and>
        lookup w (join_prefix (path_clean dir) @ ''.filelock-takeover-'' @ dec k) = None)"

lemma ready_temp:
  assumes "ready dir w"
  shows "temp_ok (path_clean dir) ''.filelock-fence-'' w" "temp_ok (path_clean dir) ''.filelock-takeover-'' w"
  using assms temp_free_first[of w "join_prefix (path_clean dir) @ ''.filelock-fence-''"]
    temp_free_first[of w "join_prefix (path_clean dir) @ ''.filelock-takeover-''"]
  by (simp_all add: ready_def temp_ok_def)

lemma readyD:
  "ready dir w \<Longrightarrow> wf_world w" "ready dir w \<Longrightarrow> dir \<noteq> []" "ready dir w \<Longrightarrow> is_dir w (path_clean dir)"
  by (simp_all add: ready_def)

lemma ready_effect:
  assumes "ready dir w" "effect w fc w'" "\<And>p. \<not> no_digit_end p \<Longrightarrow> fc p = file_content w p"
  shows "ready dir w'"
proof -
  have l: "lookup w' (x @ y @ dec k) = None" if "lookup w (x @ y @ dec k) = None" for x y k
    using that effectD[OF assms(2)] assms(3)[of "x @ y @ dec k"] temp_name_digit[of "x @ y @ dec k" x y k]
    by (auto simp: lookup_None_iff)
  show ?thesis
    unfolding ready_def
  proof (intro conjI allI impI)
    show "wf_world w'" "dir \<noteq> []" "is_dir w' (path_clean dir)"
      using assms(1) effectD(1,3)[OF assms(2)] by (simp_all add: ready_def)
    fix k assume "temp_seq w' \<le> k"
    then have "temp_seq w \<le> k" using effectD(11)[OF assms(2)] by simp
    with assms(1) show "lookup w' (join_prefix (path_clean dir) @ ''.filelock-fence-'' @ dec k) = None"
      "lookup w' (join_prefix (path_clean dir) @ ''.filelock-takeover-'' @ dec k) = None"
      by (simp_all only: ready_def l)
  qed
qed

lemma ready_drifts: "drifts w w' \<Longrightarrow> ready dir w \<Longrightarrow> ready dir w'"
  using ready_effect[OF _ drifts_effect] readyD(1) by blast

section \<open>Paths\<close>

lemma slotMarkerPath_alt: "slotMarkerPath dir n i = markerPath dir (n @ ''.'' @ itoa i)"
  by (simp add: slotMarkerPath_def markerPath_def)

lemma markerPath_eq: "CHR ''/'' \<notin> set n \<Longrightarrow> markerPath dir n = join_prefix dir @ n @ ''.lock''"
  unfolding markerPath_def by (rule path_join_plain) (rule plain_ext)

lemma fencePath_eq: "CHR ''/'' \<notin> set n \<Longrightarrow> fencePath dir n = join_prefix dir @ n @ ''.fence''"
  unfolding fencePath_def by (rule path_join_plain) (rule plain_ext)

lemma markerPath_dir: "dir \<noteq> [] \<Longrightarrow> CHR ''/'' \<notin> set n \<Longrightarrow> path_dir (markerPath dir n) = path_clean dir"
  unfolding markerPath_def by (rule path_dir_join) (simp_all add: plain_ext)

lemma marker_not_fence: "CHR ''/'' \<notin> set n \<Longrightarrow> CHR ''/'' \<notin> set m \<Longrightarrow> markerPath dir n \<noteq> fencePath dir m"
proof -
  assume "CHR ''/'' \<notin> set n" "CHR ''/'' \<notin> set m"
  then have "last (markerPath dir n) = CHR ''k''" "last (fencePath dir m) = CHR ''e''"
    by (simp_all add: markerPath_eq fencePath_eq)
  then show ?thesis by auto
qed

lemma markerPath_inject:
  "CHR ''/'' \<notin> set n \<Longrightarrow> CHR ''/'' \<notin> set m \<Longrightarrow> markerPath dir n = markerPath dir m \<longleftrightarrow> n = m"
  by (simp add: markerPath_eq)

lemma slot_path_plain:
  assumes "CHR ''/'' \<notin> set n"
  shows "\<exists>x. CHR ''/'' \<notin> set x \<and> slot_path dir n i = markerPath dir x"
  using assms plain_slot[OF assms, of i] unfolding slot_path_def slotMarkerPath_alt by metis

lemma slot_path_inject:
  assumes "CHR ''/'' \<notin> set n" "CHR ''/'' \<notin> set m" "i = - 1 \<and> j = - 1 \<or> 0 \<le> i \<and> 0 \<le> j"
  shows "slot_path dir n i = slot_path dir m j \<longleftrightarrow> n = m \<and> i = j"
proof (cases "0 \<le> i")
  case True
  then have "slot_path dir n i = slot_path dir m j \<longleftrightarrow> n @ ''.'' @ itoa i = m @ ''.'' @ itoa j"
    using assms(3) markerPath_inject[OF plain_slot[OF assms(1), of i] plain_slot[OF assms(2), of j]]
    by (simp add: slot_path_def slotMarkerPath_alt)
  then show ?thesis using True assms(3) itoa_after_inject[of i j "CHR ''.''" n m] by (auto simp: is_digit_def)
next
  case False
  then show ?thesis using assms markerPath_inject[OF assms(1,2)] by (auto simp: slot_path_def)
qed

lemma slot_path_not_fence:
  assumes "CHR ''/'' \<notin> set n" "CHR ''/'' \<notin> set m"
  shows "slot_path dir n i \<noteq> fencePath dir m"
  using slot_path_plain[OF assms(1), of dir i] marker_not_fence[OF _ assms(2)] by metis

lemma slot_path_facts:
  assumes "dir \<noteq> []" "CHR ''/'' \<notin> set n"
  shows "path_dir (slot_path dir n i) = path_clean dir" "slot_path dir n i \<noteq> fencePath dir n"
    "no_digit_end (slot_path dir n i)" "no_digit_end (fencePath dir n)"
proof -
  obtain x where x: "CHR ''/'' \<notin> set x" "slot_path dir n i = markerPath dir x"
    using slot_path_plain[OF assms(2)] by blast
  show "path_dir (slot_path dir n i) = path_clean dir" "slot_path dir n i \<noteq> fencePath dir n"
    using x assms by (simp_all add: markerPath_dir marker_not_fence)
  show "no_digit_end (slot_path dir n i)" "no_digit_end (fencePath dir n)"
    using x assms last_lock[of "join_prefix dir @ x"] last_lock[of "join_prefix dir @ n"]
    by (simp_all add: markerPath_eq fencePath_eq)
qed

section \<open>One slot\<close>

definition slot_cfg :: "fl_config \<Rightarrow> int \<Rightarrow> fl_config" where
  "slot_cfg cfg slot = (if slot \<ge> 0 then cfg\<lparr>fc_slot := slot, fc_slotIsSet := True\<rparr> else cfg)"

lemma slot_cfg_simps [simp]:
  "fc_dir (slot_cfg cfg i) = fc_dir cfg" "fc_strategy (slot_cfg cfg i) = fc_strategy cfg"
  "fc_traceID (slot_cfg cfg i) = fc_traceID cfg" "isStale pl m (slot_cfg cfg i) = isStale pl m cfg"
  "held pl me (slot_cfg cfg i) w p = held pl me cfg w p"
  by (simp_all add: slot_cfg_def)

lemma acquireSlot_alt:
  "acquireSlot pl name cfg slot =
     bind (acquireMarker pl (slot_path (fc_dir cfg) name slot) (slot_cfg cfg slot)) (\<lambda>r. case r of
       Inl e \<Rightarrow> Ret (Inl e)
     | Inr h \<Rightarrow> bind (bumpFence ''filelock'' (fc_dir cfg) name) (\<lambda>t. Ret (Inr (h\<lparr>fh_token := t\<rparr>))))"
  by (simp add: acquireSlot_def slot_path_def slot_cfg_def Let_def)

lemma run_acquireSlot_won:
  assumes "ready (fc_dir cfg) w" "CHR ''/'' \<notin> set name" "\<not> is_dir w (fencePath (fc_dir cfg) name)"
    and "run me (acquireMarker pl (slot_path (fc_dir cfg) name slot) (slot_cfg cfg slot)) [] w =
      (Inr (fl_new_holder (slot_path (fc_dir cfg) name slot)), [], w1)"
    and "effect w ((file_content w)(slot_path (fc_dir cfg) name slot \<mapsto> s)) w1"
  shows "\<exists>w'. run me (acquireSlot pl name cfg slot) [] w =
      (Inr ((fl_new_holder (slot_path (fc_dir cfg) name slot))
         \<lparr>fh_token := fence_value w (fencePath (fc_dir cfg) name) + 1\<rparr>), [], w') \<and>
    effect w ((file_content w)(slot_path (fc_dir cfg) name slot \<mapsto> s,
      fencePath (fc_dir cfg) name \<mapsto> dec (unat (fence_value w (fencePath (fc_dir cfg) name) + 1)) @ [NL])) w'"
proof -
  let ?d = "fc_dir cfg" and ?f = "fencePath (fc_dir cfg) name" and ?p = "slot_path (fc_dir cfg) name slot"
  note pf = slot_path_facts[OF readyD(2)[OF assms(1)] assms(2)]
  have r1: "ready ?d w1" using ready_effect[OF assms(1,5)] pf(3) by (metis fun_upd_apply)
  have v: "fence_value w1 ?f = fence_value w ?f"
    using effectD(2)[OF assms(5)] pf(2)[of slot] by (simp add: fence_value_def)
  have t: "temp_ok (path_dir ?f) (''.'' @ ''filelock'' @ ''-fence-'') w1"
    using ready_temp(1)[OF r1] fencePath_dir[OF readyD(2)[OF assms(1)] assms(2)] by simp
  obtain w' where w': "run me (bumpFence ''filelock'' ?d name) [] w1 = (fence_value w1 ?f + 1, [], w')"
      "effect w1 ((file_content w1)(?f \<mapsto> dec (unat (fence_value w1 ?f + 1)) @ [NL])) w'"
    using run_bumpFence[OF readyD(1)[OF r1] t] assms(3) effectD(3)[OF assms(5)] by auto
  have "effect w ((file_content w)(?p \<mapsto> s, ?f \<mapsto> dec (unat (fence_value w ?f + 1)) @ [NL])) w'"
    using effect_trans[OF assms(5) w'(2)] by (simp only: v effectD(2)[OF assms(5)])
  then show ?thesis using assms(4) w'(1) by (simp add: acquireSlot_alt v)
qed

lemma run_acquireSlot_held:
  assumes "quiet_platform pl" "wf_world w" "held pl me cfg w (slot_path (fc_dir cfg) name slot)"
  shows "\<exists>w'. run me (acquireSlot pl name cfg slot) [] w = (Inl fl_ErrLocked, [], w') \<and> drifts w w'"
  using run_acquireMarker_held[OF assms(1,2), of me "slot_cfg cfg slot" "slot_path (fc_dir cfg) name slot"] assms(3)
  by (auto simp: acquireSlot_alt)

lemma ErrLocked_is [simp]: "errors_is fl_ErrLocked fl_ErrLocked"
  by simp

text \<open>Held slots are passed over.\<close>

lemma run_acquire_slots_skip:
  assumes "quiet_platform pl" "wf_world w" "\<forall>i \<in> set is. held pl me cfg w (slot_path (fc_dir cfg) name i)"
  shows "\<exists>w'. run me (acquire_slots pl name cfg (is @ js)) [] w = run me (acquire_slots pl name cfg js) [] w' \<and> drifts w w'"
  using assms(2,3)
proof (induction "is" arbitrary: w)
  case Nil
  show ?case by (intro exI[of _ w]) simp
next
  case (Cons i "is")
  obtain w1 where 1: "run me (acquireSlot pl name cfg i) [] w = (Inl fl_ErrLocked, [], w1)" "drifts w w1"
    using run_acquireSlot_held[OF assms(1) Cons.prems(1), of me cfg name i] Cons.prems(2) by auto
  have "\<forall>i \<in> set is. held pl me cfg w1 (slot_path (fc_dir cfg) name i)"
    using Cons.prems(2) held_drifts[OF 1(2)] by simp
  from Cons.IH[OF drifts_wf[OF 1(2) Cons.prems(1)] this]
  obtain w' where "run me (acquire_slots pl name cfg (is @ js)) [] w1 = run me (acquire_slots pl name cfg js) [] w'"
    "drifts w1 w'" by blast
  with 1 drifts_trans[OF 1(2)] show ?case by (intro exI[of _ w']) simp
qed

lemma always_acquireSlot: "always (acquireSlot pl name cfg i) (\<lambda>r. \<forall>h. r = Inr h \<longrightarrow> \<not> fh_released h)"
  unfolding acquireSlot_alt always_bind
  by (rule always_mono[OF always_acquireMarker])
    (auto split: sum.split intro!: always_triv simp: fl_new_holder_def)

lemma always_acquire_slots: "always (acquire_slots pl name cfg is) (\<lambda>r. \<forall>h. r = Inr h \<longrightarrow> \<not> fh_released h)"
proof (induction "is")
  case (Cons i "is")
  show ?case unfolding acquire_slots.simps always_bind
    by (rule always_mono[OF always_acquireSlot]) (use Cons in \<open>auto split: sum.split\<close>)
qed simp

lemma always_body: "always (acquire_body pl name cfg) (\<lambda>r. \<forall>h. r = Inr h \<longrightarrow> \<not> fh_released h)"
  using always_acquireSlot always_acquire_slots by (auto simp: acquire_body_def split: option.split)

section \<open>Acquire as a whole\<close>

text \<open>The events of an acquire that ended with \<open>e\<close>, with or without the gauge.\<close>

definition acquire_events :: "observeOptions \<Rightarrow> ctx \<Rightarrow> string \<Rightarrow> err \<Rightarrow> duration \<Rightarrow> obs_event list" where
  "acquire_events obs c name e d =
     snd (start_span obs c ''filelock.Acquire'') @ finish_span obs e @ fl_recordAcquire obs name (fl_outcomeFor e) d e @
     (if e = None then fl_recordActive obs name 1 else [])"

definition finish_holder :: "observeOptions \<Rightarrow> string \<Rightarrow> gtime \<Rightarrow> fl_holder \<Rightarrow> fl_holder" where
  "finish_holder obs name now h = h\<lparr>fh_observe := obs, fh_name := name, fh_acquiredAt := now\<rparr>"

lemma fl_outcome_acquired [simp]: "fl_outcomeFor e = OutcomeAcquired \<longleftrightarrow> e = None"
  by (simp add: fl_outcomeFor_def)

text \<open>Under every schedule: the result is that of the body, its error picks the events.\<close>

lemma run_fl_acquire_any:
  assumes "run me (fl_acquire pl c name cfg) es w = ((r, evs), es', w')"
  obtains r0 d es0 es1 w0 w1 where
    "run me (acquire_body pl name (cfg\<lparr>fc_traceID := extract_trace (fc_observe cfg) c\<rparr>)) es0 w0 = (r0, es1, w1)"
    "err_of r = err_of r0" "evs = acquire_events (fc_observe cfg) c name (err_of r) d"
    "\<And>h. r0 = Inr h \<Longrightarrow> \<exists>now. r = Inr (finish_holder (fc_observe cfg) name now h)"
    "\<And>e. r0 = Inl e \<Longrightarrow> r = Inl e"
proof -
  let ?b = "acquire_body pl name (cfg\<lparr>fc_traceID := extract_trace (fc_observe cfg) c\<rparr>)"
  obtain r0 es1 w1 where b: "run me ?b (tick_rest es) (tick_env es w) = (r0, es1, w1)"
    by (cases "run me ?b (tick_rest es) (tick_env es w)") auto
  define d where "d = time_sub (clock (tick_env es1 w1)) (clock (tick_env es w))"
  have "err_of r = err_of r0 \<and> evs = acquire_events (fc_observe cfg) c name (err_of r) d \<and>
      (\<forall>h. r0 = Inr h \<longrightarrow> (\<exists>now. r = Inr (finish_holder (fc_observe cfg) name now h))) \<and>
      (\<forall>e. r0 = Inl e \<longrightarrow> r = Inl e)"
  proof (cases r0)
    case (Inl e)
    then show ?thesis using assms b
      by (auto simp: fl_acquire_def Let_def err_of_def acquire_events_def d_def)
  next
    case (Inr h)
    then show ?thesis using assms b
      by (auto simp: fl_acquire_def Let_def err_of_def acquire_events_def d_def finish_holder_def)
  qed
  with that[OF b] show thesis by blast
qed

text \<open>In a quiet environment.\<close>

lemma run_fl_acquire_quiet:
  assumes "run me (acquire_body pl name (cfg\<lparr>fc_traceID := extract_trace (fc_observe cfg) c\<rparr>)) [] w = (r, [], w')"
  shows "run me (fl_acquire pl c name cfg) [] w =
    ((map_sum id (finish_holder (fc_observe cfg) name (clock w')) r,
      acquire_events (fc_observe cfg) c name (err_of r) (time_sub (clock w') (clock w))), [], w')"
  using assms by (cases r) (simp_all add: fl_acquire_def Let_def err_of_def acquire_events_def finish_holder_def)

lemma run_acquire_body_single:
  assumes "ready (fc_dir cfg) w" "ctx_err w = None" "fc_maxConcurrent cfg \<le> 1"
  shows "run me (acquire_body pl name cfg) [] w = run me (acquireSlot pl name cfg (- 1)) [] w"
  using assms readyD[OF assms(1)] by (simp add: acquire_body_def)

lemma run_acquire_body_slots:
  assumes "ready (fc_dir cfg) w" "ctx_err w = None" "1 < fc_maxConcurrent cfg"
  shows "run me (acquire_body pl name cfg) [] w =
    run me (acquire_slots pl name cfg (fl_slots (fc_maxConcurrent cfg))) [] w"
  using assms readyD[OF assms(1)] by (simp add: acquire_body_def)

lemma effect_marker_fence_clock: "effect w fc w' \<Longrightarrow> clock w' = clock w"
  by (rule effectD(5))

lemma gauge_acquire_events:
  "gauge r n (acquire_events obs c name e d) = (if e = None \<and> metrics obs = Some r \<and> name = n then 1 else 0)"
  by (simp add: acquire_events_def)

lemma attempts_acquire_events:
  "attempts r (acquire_events obs c name e d) = (if metrics obs = Some r then [(name, fl_outcomeFor e)] else [])"
  by (simp add: acquire_events_def)

section \<open>The concrete host\<close>

lemma locks_paths [simp]:
  "path_clean ''/locks'' = ''/locks''" "join_prefix ''/locks'' = ''/locks/''"
  by (simp_all add: path_clean_def clean_stack_def clean_step_def rooted_def join_prefix_def)

lemma job_paths [simp]:
  "markerPath ''/locks'' ''job'' = ''/locks/job.lock''" "fencePath ''/locks'' ''job'' = ''/locks/job.fence''"
  "slot_path ''/locks'' ''job'' (- 1) = ''/locks/job.lock''"
  by (simp_all add: markerPath_eq fencePath_eq slot_path_def)

lemma ready_host [simp]: "ready ''/locks'' host_world"
  by (simp add: ready_def)

lemma ready_put:
  assumes "ready dir w" "lookup w p = None" "no_digit_end p"
  shows "ready dir (put_file p s w)"
proof (rule ready_effect[OF assms(1)])
  show "effect w ((file_content w)(p \<mapsto> s)) (put_file p s w)"
    using readyD(1)[OF assms(1)] assms(2) by (simp add: effect_def is_dir_def[of w p])
  show "((file_content w)(p \<mapsto> s)) q = file_content w q" if "\<not> no_digit_end q" for q
    using that assms(3) by auto
qed

text \<open>A marker of the running process 4242, and of a process that is gone.\<close>

definition host_marker :: "int \<Rightarrow> marker" where
  "host_marker pid = empty_marker\<lparr>m_pid := pid, m_host := ''web1'', m_acquired := 1000\<rparr>"

lemma host_marker_fields [simp]:
  "m_pid (host_marker pid) = pid" "m_host (host_marker pid) = ''web1''" "m_pidStart (host_marker pid) = 0"
  "m_acquired (host_marker pid) = 1000" "same_host host_world (host_marker pid)"
  by (simp_all add: host_marker_def empty_marker_def same_host_def local_host_def)

lemma host_marker_ok [simp]: "int64_range pid \<Longrightarrow> parse_marker (marker_text (host_marker pid)) = Inr (host_marker pid)"
proof -
  assume "int64_range pid"
  moreover have "line_value ''web1''" "line_value []"
    by (auto intro!: line_value_graphic simp: graphic_def)
  ultimately have "marker_ok (host_marker pid)"
    by (simp add: marker_ok_def host_marker_def empty_marker_def max_rfc3339_def second_def int64_range_def)
  then show ?thesis by (rule parse_marker_text)
qed

definition held_world :: "int \<Rightarrow> world" where
  "held_world pid = put_file ''/locks/job.lock'' (marker_text (host_marker pid)) host_world"

lemma held_world_simps [simp]:
  "ready ''/locks'' (held_world pid)" "ctx_err (held_world pid) = None" "wf_world (held_world pid)"
  "file_content (held_world pid) ''/locks/job.lock'' = Some (marker_text (host_marker pid))"
  "is_dir (held_world pid) = is_dir host_world" "boot_cache (held_world pid) = (\<lambda>_. None)"
  "lookup (held_world pid) ''/locks/job.lock'' = Some (FileEntry 1)"
proof -
  show "ready ''/locks'' (held_world pid)"
    unfolding held_world_def by (rule ready_put) (simp_all add: no_digit_end_def is_digit_def)
  then show "wf_world (held_world pid)" by (rule readyD)
qed (simp_all add: held_world_def is_dir_def[of host_world "''/locks/job.lock''"])

lemma held_host [simp]:
  "fc_strategy cfg = StaleStrategyPIDFirst \<Longrightarrow> held darwin me cfg (held_world 4242) ''/locks/job.lock''"
  by (rule held_alive[where m = "host_marker 4242" and s = "marker_text (host_marker 4242)"])
    (simp_all add: int64_range_def same_host_def local_host_def held_world_def)

end
