(* ===== verification/Filelock_Props.thy ===== *)
theory Filelock_Props
  imports Filelock_Spec
begin

text \<open>
  The properties of acquiring and releasing a marker file when the process is not disturbed:
  which slot it gets, what it leaves on disk, what it answers when it does not get one.
\<close>

section \<open>Slots\<close>

definition fl_slots_of :: "fl_config \<Rightarrow> int list" where
  "fl_slots_of cfg = (if fc_maxConcurrent cfg \<le> 1 then [- 1] else fl_slots (fc_maxConcurrent cfg))"

lemma slots_of_trace [simp]: "fl_slots_of (cfg\<lparr>fc_traceID := t\<rparr>) = fl_slots_of cfg"
  by (simp add: fl_slots_of_def)

lemma fl_slots_kind: "i \<in> set (fl_slots_of cfg) \<Longrightarrow> j \<in> set (fl_slots_of cfg) \<Longrightarrow> i = - 1 \<and> j = - 1 \<or> 0 \<le> i \<and> 0 \<le> j"
  by (auto simp: fl_slots_of_def fl_slots_def split: if_splits)

text \<open>The body of \<open>acquire\<close> ends with the first slot that does not answer \<open>ErrLocked\<close>.\<close>

lemma run_body_slot:
  assumes "quiet_platform pl" "ready (fc_dir cfg) w" "ctx_err w = None" "fl_slots_of cfg = is @ slot # js"
    and "\<forall>i \<in> set is. held pl me cfg w (slot_path (fc_dir cfg) name i)"
  shows "\<exists>w1. drifts w w1 \<and> (\<forall>r es w'. run me (acquireSlot pl name cfg slot) [] w1 = (r, es, w') \<longrightarrow>
    (\<forall>e. r = Inl e \<longrightarrow> \<not> errors_is e fl_ErrLocked) \<longrightarrow> run me (acquire_body pl name cfg) [] w = (r, es, w'))"
proof (cases "fc_maxConcurrent cfg \<le> 1")
  case True
  with assms(4) have "is = []" "slot = - 1" by (auto simp: fl_slots_of_def Cons_eq_append_conv)
  then show ?thesis
    by (intro exI[of _ w]) (simp add: run_acquire_body_single[OF assms(2,3) True])
next
  case False
  obtain w1 where "run me (acquire_slots pl name cfg (is @ slot # js)) [] w = run me (acquire_slots pl name cfg (slot # js)) [] w1"
      "drifts w w1"
    using run_acquire_slots_skip[OF assms(1) readyD(1)[OF assms(2)] assms(5)] by blast
  then show ?thesis
    using False assms(4) run_acquire_body_slots[OF assms(2,3), of me pl name]
    by (intro exI[of _ w1]) (auto simp: fl_slots_of_def split: sum.splits)
qed

lemma run_body_locked:
  assumes "quiet_platform pl" "ready (fc_dir cfg) w" "ctx_err w = None"
    and "\<forall>i \<in> set (fl_slots_of cfg). held pl me cfg w (slot_path (fc_dir cfg) name i)"
  shows "\<exists>w1. run me (acquire_body pl name cfg) [] w = (Inl fl_ErrLocked, [], w1) \<and> drifts w w1"
proof (cases "fc_maxConcurrent cfg \<le> 1")
  case True
  then show ?thesis
    using run_acquireSlot_held[OF assms(1) readyD(1)[OF assms(2)]] assms(4)
      run_acquire_body_single[OF assms(2,3) True] by (simp add: fl_slots_of_def)
next
  case False
  then have s: "fl_slots_of cfg = fl_slots (fc_maxConcurrent cfg)" by (simp add: fl_slots_of_def)
  obtain w1 where "run me (acquire_slots pl name cfg (fl_slots_of cfg @ [])) [] w = run me (acquire_slots pl name cfg []) [] w1"
      "drifts w w1"
    using run_acquire_slots_skip[OF assms(1) readyD(1)[OF assms(2)] assms(4)] by blast
  then show ?thesis
    using False s run_acquire_body_slots[OF assms(2,3), of me pl name] by (intro exI[of _ w1]) simp
qed

text \<open>A held path stays held, a free one free, when nothing but reads happens.\<close>

lemma effect_drifts: "drifts w w1 \<Longrightarrow> wf_world w \<Longrightarrow> effect w1 fc w' \<Longrightarrow> effect w fc w'"
  using effect_trans[OF drifts_effect] by blast

text \<open>
  Winning a slot: given that \<open>acquireMarker\<close> wins its path in every state that reads alone may
  have led to, \<open>Acquire\<close> answers the holder of that slot.
\<close>

definition won_slot :: "platform \<Rightarrow> int \<Rightarrow> ctx \<Rightarrow> string \<Rightarrow> fl_config \<Rightarrow> int \<Rightarrow> world \<Rightarrow> bool" where
  "won_slot pl me c name cfg slot w \<longleftrightarrow> (\<exists>h evs w' m.
    run me (fl_acquire pl c name cfg) [] w = ((Inr h, evs), [], w') \<and>
    fh_path h = slot_path (fc_dir cfg) name slot \<and> fh_name h = name \<and> fh_acquiredAt h = clock w \<and>
    \<not> fh_released h \<and> fl_Token h = fence_value w (fencePath (fc_dir cfg) name) + 1 \<and>
    m_pid m = me \<and> m_host m = local_host w \<and> m_acquired m = clock w \<and>
    effect w ((file_content w)(slot_path (fc_dir cfg) name slot \<mapsto> marker_text m,
      fencePath (fc_dir cfg) name \<mapsto> dec (unat (fl_Token h)) @ [NL])) w')"

lemma run_acquire_win:
  assumes "quiet_platform pl" "ready (fc_dir cfg) w" "ctx_err w = None" "CHR ''/'' \<notin> set name"
    and "\<not> is_dir w (fencePath (fc_dir cfg) name)" "fl_slots_of cfg = is @ slot # js"
    and "\<forall>i \<in> set is. held pl me cfg w (slot_path (fc_dir cfg) name i)"
    and win: "\<And>w1. drifts w w1 \<Longrightarrow> ready (fc_dir cfg) w1 \<Longrightarrow> \<exists>m w2.
      run me (acquireMarker pl (slot_path (fc_dir cfg) name slot)
          (slot_cfg (cfg\<lparr>fc_traceID := extract_trace (fc_observe cfg) c\<rparr>) slot)) [] w1 =
        (Inr (fl_new_holder (slot_path (fc_dir cfg) name slot)), [], w2) \<and>
      m_pid m = me \<and> m_host m = local_host w1 \<and> m_acquired m = clock w1 \<and>
      effect w1 ((file_content w1)(slot_path (fc_dir cfg) name slot \<mapsto> marker_text m)) w2"
  shows "won_slot pl me c name cfg slot w"
proof -
  let ?cfg = "cfg\<lparr>fc_traceID := extract_trace (fc_observe cfg) c\<rparr>"
  let ?p = "slot_path (fc_dir cfg) name slot" and ?f = "fencePath (fc_dir cfg) name"
  have held: "\<forall>i \<in> set is. held pl me ?cfg w (slot_path (fc_dir ?cfg) name i)" using assms(7) by simp
  obtain w1 where w1: "drifts w w1" "\<And>r es w'. run me (acquireSlot pl name ?cfg slot) [] w1 = (r, es, w') \<Longrightarrow>
      (\<forall>e. r = Inl e \<longrightarrow> \<not> errors_is e fl_ErrLocked) \<Longrightarrow> run me (acquire_body pl name ?cfg) [] w = (r, es, w')"
    using run_body_slot[OF assms(1) _ assms(3) _ held, of slot js] assms(2,6) by auto
  note eq = drifts_eqs[OF w1(1)]
  have r1: "ready (fc_dir cfg) w1" using ready_drifts[OF w1(1) assms(2)] .
  obtain m w2 where w2: "run me (acquireMarker pl ?p (slot_cfg ?cfg slot)) [] w1 = (Inr (fl_new_holder ?p), [], w2)"
      "m_pid m = me" "m_host m = local_host w1" "m_acquired m = clock w1"
      "effect w1 ((file_content w1)(?p \<mapsto> marker_text m)) w2"
    using win[OF w1(1) r1] by blast
  obtain w' where w': "run me (acquireSlot pl name ?cfg slot) [] w1 =
      (Inr ((fl_new_holder ?p)\<lparr>fh_token := fence_value w1 ?f + 1\<rparr>), [], w')"
      "effect w1 ((file_content w1)(?p \<mapsto> marker_text m, ?f \<mapsto> dec (unat (fence_value w1 ?f + 1)) @ [NL])) w'"
    using run_acquireSlot_won[where cfg = ?cfg and w = w1 and name = name and pl = pl and slot = slot
        and me = me and ?w1.0 = w2 and s = "marker_text m"] r1 assms(4,5) eq(3) w2 by auto
  have v: "fence_value w1 ?f = fence_value w ?f" by (simp add: fence_value_def eq)
  have "run me (acquire_body pl name ?cfg) [] w =
      (Inr ((fl_new_holder ?p)\<lparr>fh_token := fence_value w ?f + 1\<rparr>), [], w')"
    using w1(2)[OF w'(1)] by (simp add: v)
  note run = run_fl_acquire_quiet[OF this]
  have eff: "effect w ((file_content w)(?p \<mapsto> marker_text m, ?f \<mapsto> dec (unat (fence_value w ?f + 1)) @ [NL])) w'"
    using effect_drifts[OF w1(1) readyD(1)[OF assms(2)] w'(2)] by (simp only: v eq(2))
  let ?h = "finish_holder (fc_observe cfg) name (clock w') ((fl_new_holder ?p)\<lparr>fh_token := fence_value w ?f + 1\<rparr>)"
  from run obtain evs where "run me (fl_acquire pl c name cfg) [] w = ((Inr ?h, evs), [], w')" by simp
  then show ?thesis
    unfolding won_slot_def using eff effectD(5)[OF eff] eq(8,10) w2(2-4)
    by (intro exI[of _ ?h] exI[of _ evs] exI[of _ w'] exI[of _ m])
      (simp add: finish_holder_def fl_new_holder_def fl_Token_def local_host_def)
qed

lemma won_slotE:
  assumes "won_slot pl me c name cfg slot w"
  obtains h evs w' m where "run me (fl_acquire pl c name cfg) [] w = ((Inr h, evs), [], w')"
    "fh_path h = slot_path (fc_dir cfg) name slot" "fl_Token h = fence_value w (fencePath (fc_dir cfg) name) + 1"
    "m_pid m = me" "m_host m = local_host w" "m_acquired m = clock w"
    "effect w ((file_content w)(slot_path (fc_dir cfg) name slot \<mapsto> marker_text m,
      fencePath (fc_dir cfg) name \<mapsto> dec (unat (fl_Token h)) @ [NL])) w'"
  using assms unfolding won_slot_def by blast

lemma acquire_free_slot:
  assumes "quiet_platform pl" "ready (fc_dir cfg) w" "ctx_err w = None" "CHR ''/'' \<notin> set name"
    and "\<not> is_dir w (fencePath (fc_dir cfg) name)" "fl_slots_of cfg = is @ slot # js"
    and "\<forall>i \<in> set is. held pl me cfg w (slot_path (fc_dir cfg) name i)"
    and "lookup w (slot_path (fc_dir cfg) name slot) = None"
  shows "won_slot pl me c name cfg slot w"
proof (rule run_acquire_win[OF assms(1-7)])
  fix w1 assume d: "drifts w w1" and r: "ready (fc_dir cfg) w1"
  let ?p = "slot_path (fc_dir cfg) name slot"
  let ?c = "slot_cfg (cfg\<lparr>fc_traceID := extract_trace (fc_observe cfg) c\<rparr>) slot"
  have "is_dir w1 (path_dir ?p)" using slot_path_facts(1)[OF readyD(2)[OF r] assms(4)] readyD(3)[OF r] by simp
  then obtain w2 where "run me (acquireMarker pl ?p ?c) [] w1 = (Inr (fl_new_holder ?p), [], w2)"
    "effect w1 ((file_content w1)(?p \<mapsto> marker_text (own_marker pl ?c me ?p w1))) w2"
    using run_acquireMarker_new[OF assms(1) readyD(1)[OF r]] assms(8) drifts_eqs(1)[OF d] by metis
  then show "\<exists>m w2. run me (acquireMarker pl ?p ?c) [] w1 = (Inr (fl_new_holder ?p), [], w2) \<and>
      m_pid m = me \<and> m_host m = local_host w1 \<and> m_acquired m = clock w1 \<and>
      effect w1 ((file_content w1)(?p \<mapsto> marker_text m)) w2"
    by (intro exI[of _ "own_marker pl ?c me ?p w1"] exI[of _ w2]) simp
qed

text \<open>A marker that is stale now, and after reads that change nothing.\<close>

definition stale_at :: "platform \<Rightarrow> int \<Rightarrow> fl_config \<Rightarrow> world \<Rightarrow> string \<Rightarrow> bool" where
  "stale_at pl me cfg w path \<longleftrightarrow> (\<exists>s m. file_content w path = Some s \<and> parse_marker s = Inr m \<and>
     (\<forall>w'. drifts w w' \<longrightarrow> fst (run me (isStale pl m cfg) [] w')))"

lemma stale_at_dead:
  assumes "quiet_platform pl" "pl_isAlive pl = isAlive_unix" "wf_world w"
    and "file_content w path = Some s" "parse_marker s = Inr m" "0 < m_pid m" "same_host w m"
    and "kill_res w (m_pid m) = Some ESRCH" "fc_strategy cfg \<in> {StaleStrategyPIDFirst, StaleStrategyPIDOnly}"
  shows "stale_at pl me cfg w path"
  unfolding stale_at_def
proof (intro exI conjI allI impI)
  fix w' assume d: "drifts w w'"
  have "known_dead w' t m" for t
    using assms(6-8) drifts_eqs[OF d] by (auto simp: known_dead_def same_host_def local_host_def)
  then show "fst (run me (isStale pl m cfg) [] w')"
    using assms(9) isStale_table[OF assms(1,2) drifts_wf[OF d assms(3)], of me m cfg] by (auto simp: Let_def)
qed (use assms(4,5) in auto)

section \<open>Winning a slot\<close>

text \<open>C13: With a directory in order and nobody interfering, \<open>Acquire\<close> takes the first slot that is
  not held (the only one, for a singleton lock): it answers a holder for exactly that path, with
  the name's next fencing token and the time of the acquire, puts there a marker with the
  caller's pid and host and the time, advances the fence and changes no other file.\<close>

theorem filelock_acquire_free:
  assumes "quiet_platform pl" "ready (fc_dir cfg) w" "ctx_err w = None" "CHR ''/'' \<notin> set name"
    and "\<not> is_dir w (fencePath (fc_dir cfg) name)" "fl_slots_of cfg = is @ slot # js"
    and "\<forall>i \<in> set is. held pl me cfg w (slot_path (fc_dir cfg) name i)"
    and "lookup w (slot_path (fc_dir cfg) name slot) = None"
  shows "\<exists>h evs w' m. run me (fl_acquire pl c name cfg) [] w = ((Inr h, evs), [], w') \<and>
    fh_path h = slot_path (fc_dir cfg) name slot \<and> fh_name h = name \<and> fh_acquiredAt h = clock w \<and>
    \<not> fh_released h \<and> fl_Token h = fence_value w (fencePath (fc_dir cfg) name) + 1 \<and>
    m_pid m = me \<and> m_host m = local_host w \<and> m_acquired m = clock w \<and>
    effect w ((file_content w)(slot_path (fc_dir cfg) name slot \<mapsto> marker_text m,
      fencePath (fc_dir cfg) name \<mapsto> dec (unat (fl_Token h)) @ [NL])) w'"
  using acquire_free_slot[OF assms] by (simp only: won_slot_def)

theorem filelock_acquire_free_witness:
  "\<exists>h evs w'. run 7 (fl_acquire darwin (\<lambda>_. None) ''job'' (fl_defaultConfig ''/locks'')) [] host_world = ((Inr h, evs), [], w') \<and>
     fh_path h = ''/locks/job.lock'' \<and> fl_Token h = 1 \<and> file_content w' ''/locks/job.fence'' = Some ''1\<newline>''"
proof -
  have a: "fc_dir (fl_defaultConfig ''/locks'') = ''/locks''" "fl_slots_of (fl_defaultConfig ''/locks'') = [] @ (- 1) # []"
    by (simp_all add: fl_defaultConfig_def fl_slots_of_def)
  have v: "fence_value host_world ''/locks/job.fence'' = 0" by (simp add: fence_value_def)
  from filelock_acquire_free[where pl = darwin and w = host_world and name = "''job''" and me = 7
      and c = "\<lambda>_. None", OF _ _ _ _ _ a(2)]
  obtain h evs w' where "run 7 (fl_acquire darwin (\<lambda>_. None) ''job'' (fl_defaultConfig ''/locks'')) [] host_world = ((Inr h, evs), [], w')"
    "fh_path h = ''/locks/job.lock''" "fl_Token h = 1" "file_content w' ''/locks/job.fence'' = Some (dec 1 @ [NL])"
    by (auto simp: a v is_dir_def effect_def)
  moreover have "dec 1 @ [NL] = ''1\<newline>''" by code_simp
  ultimately show ?thesis by (metis)
qed

text \<open>C14: When every slot is held, \<open>Acquire\<close> answers \<open>ErrLocked\<close>, and what is on disk stays as it
  was, fence included.\<close>

theorem filelock_acquire_all_held:
  assumes "quiet_platform pl" "ready (fc_dir cfg) w" "ctx_err w = None"
    and "\<forall>i \<in> set (fl_slots_of cfg). held pl me cfg w (slot_path (fc_dir cfg) name i)"
  shows "\<exists>evs w'. run me (fl_acquire pl c name cfg) [] w = ((Inl fl_ErrLocked, evs), [], w') \<and>
    effect w (file_content w) w'"
proof -
  let ?cfg = "cfg\<lparr>fc_traceID := extract_trace (fc_observe cfg) c\<rparr>"
  obtain w1 where "run me (acquire_body pl name ?cfg) [] w = (Inl fl_ErrLocked, [], w1)" "drifts w w1"
    using run_body_locked[OF assms(1), of ?cfg w me name] assms(2-4) by auto
  with drifts_effect[OF _ readyD(1)[OF assms(2)]] run_fl_acquire_quiet[of me pl name cfg c w]
  show ?thesis by auto
qed

theorem filelock_acquire_all_held_witness:
  "\<exists>evs w'. run 7 (fl_acquire darwin (\<lambda>_. None) ''job'' (fl_defaultConfig ''/locks'')) [] (held_world 4242)
      = ((Inl fl_ErrLocked, evs), [], w') \<and>
     effect (held_world 4242) (file_content (held_world 4242)) w'"
  by (rule filelock_acquire_all_held) (simp_all add: fl_defaultConfig_def fl_slots_of_def)

lemma acquire_stale_slot:
  assumes "quiet_platform pl" "ready (fc_dir cfg) w" "ctx_err w = None" "CHR ''/'' \<notin> set name"
    and "\<not> is_dir w (fencePath (fc_dir cfg) name)" "fl_slots_of cfg = is @ slot # js"
    and "\<forall>i \<in> set is. held pl me cfg w (slot_path (fc_dir cfg) name i)"
    and "stale_at pl me cfg w (slot_path (fc_dir cfg) name slot)"
  shows "won_slot pl me c name cfg slot w"
proof -
  let ?p = "slot_path (fc_dir cfg) name slot"
  let ?c = "slot_cfg (cfg\<lparr>fc_traceID := extract_trace (fc_observe cfg) c\<rparr>) slot"
  obtain s m where m: "file_content w ?p = Some s" "parse_marker s = Inr m"
      "\<And>w'. drifts w w' \<Longrightarrow> fst (run me (isStale pl m cfg) [] w')"
    using assms(8) by (auto simp: stale_at_def)
  show "won_slot pl me c name cfg slot w"
  proof (rule run_acquire_win[OF assms(1-7)])
    fix w1 assume d: "drifts w w1" and r: "ready (fc_dir cfg) w1"
    have "temp_ok (path_dir ?p) ''.filelock-takeover-'' w1"
      using slot_path_facts(1)[OF readyD(2)[OF r] assms(4)] ready_temp(2)[OF r] by simp
    moreover have "fst (run me (isStale pl m ?c) [] (bump_fd w1))"
      using m(3)[OF drifts_trans[OF d drifts_bump]] by simp
    ultimately show "\<exists>m w2. run me (acquireMarker pl ?p ?c) [] w1 = (Inr (fl_new_holder ?p), [], w2) \<and>
        m_pid m = me \<and> m_host m = local_host w1 \<and> m_acquired m = clock w1 \<and>
        effect w1 ((file_content w1)(?p \<mapsto> marker_text m)) w2"
      using run_acquireMarker_stale[OF assms(1) readyD(1)[OF r] _ m(2)] m(1) drifts_eqs(2)[OF d] by auto
  qed
qed

text \<open>C3: A slot whose marker is stale is taken over: the marker of the dead holder is replaced by
  the caller's, which gets a holder for the path and the name's next fencing token, and no other
  file but the fence changes, the temporary file included.\<close>

theorem filelock_takeover:
  assumes "quiet_platform pl" "ready (fc_dir cfg) w" "ctx_err w = None" "CHR ''/'' \<notin> set name"
    and "\<not> is_dir w (fencePath (fc_dir cfg) name)" "fl_slots_of cfg = is @ slot # js"
    and "\<forall>i \<in> set is. held pl me cfg w (slot_path (fc_dir cfg) name i)"
    and "stale_at pl me cfg w (slot_path (fc_dir cfg) name slot)"
  shows "\<exists>h evs w' m. run me (fl_acquire pl c name cfg) [] w = ((Inr h, evs), [], w') \<and>
    fh_path h = slot_path (fc_dir cfg) name slot \<and> fh_name h = name \<and> fh_acquiredAt h = clock w \<and>
    \<not> fh_released h \<and> fl_Token h = fence_value w (fencePath (fc_dir cfg) name) + 1 \<and>
    m_pid m = me \<and> m_host m = local_host w \<and> m_acquired m = clock w \<and>
    effect w ((file_content w)(slot_path (fc_dir cfg) name slot \<mapsto> marker_text m,
      fencePath (fc_dir cfg) name \<mapsto> dec (unat (fl_Token h)) @ [NL])) w'"
  using acquire_stale_slot[OF assms] by (simp only: won_slot_def)

theorem filelock_takeover_witness:
  "\<exists>h evs w'. run 7 (fl_acquire darwin (\<lambda>_. None) ''job'' (fl_defaultConfig ''/locks'')) [] (held_world 99) = ((Inr h, evs), [], w') \<and>
     fh_path h = ''/locks/job.lock'' \<and> fl_Token h = 1"
proof -
  have a: "fc_dir (fl_defaultConfig ''/locks'') = ''/locks''" "fl_slots_of (fl_defaultConfig ''/locks'') = [] @ (- 1) # []"
    by (simp_all add: fl_defaultConfig_def fl_slots_of_def)
  have v: "fence_value (held_world 99) ''/locks/job.fence'' = 0" by (simp add: fence_value_def held_world_def)
  have st: "stale_at darwin 7 (fl_defaultConfig ''/locks'') (held_world 99) ''/locks/job.lock''"
    by (rule stale_at_dead[where m = "host_marker 99" and s = "marker_text (host_marker 99)"])
      (simp_all add: int64_range_def same_host_def local_host_def held_world_def fl_defaultConfig_def)
  from filelock_takeover[where pl = darwin and w = "held_world 99" and name = "''job''" and me = 7
      and c = "\<lambda>_. None", OF _ _ _ _ _ a(2)]
  obtain h evs w' where "run 7 (fl_acquire darwin (\<lambda>_. None) ''job'' (fl_defaultConfig ''/locks'')) [] (held_world 99) = ((Inr h, evs), [], w')"
    "fh_path h = ''/locks/job.lock''" "fl_Token h = 1"
    by (auto simp: a v st is_dir_def)
  then show ?thesis by metis
qed

section \<open>Not getting one\<close>

text \<open>A marker with a process number that is not a number.\<close>

lemma bad_pid_marker: "parse_marker ''pid=x'' = Inl (Wrap ''filelock: marker pid'' (ErrMsg ''strconv.Atoi''))"
proof -
  have "trim_space ''pid=x'' = ''pid=x''" "trim_space ''pid'' = ''pid''" "trim_space ''x'' = ''x''" by code_simp+
  moreover have "cut (CHR ''='') ''pid=x'' = Some (''pid'', ''x'')" "atoi ''x'' = None" "drop_cr ''pid=x'' = ''pid=x''"
    by code_simp+
  ultimately show ?thesis by (simp add: parse_marker_def marker_line_def marker_field_def)
qed

text \<open>A slot whose marker does not parse is never taken over and never passed over: \<open>Acquire\<close>
  answers the parser's error, wrapped, and the files stay as they were, also under a stale
  window that is long over.\<close>

theorem filelock_corrupt_marker:
  assumes "quiet_platform pl" "ready (fc_dir cfg) w" "ctx_err w = None" "fl_slots_of cfg = is @ slot # js"
    and "\<forall>i \<in> set is. held pl me cfg w (slot_path (fc_dir cfg) name i)"
    and "file_content w (slot_path (fc_dir cfg) name slot) = Some s" "parse_marker s = Inl e"
  shows "\<exists>evs w'. run me (fl_acquire pl c name cfg) [] w = ((Inl (Wrap ''filelock: read marker'' e), evs), [], w') \<and>
    effect w (file_content w) w'"
proof -
  let ?cfg = "cfg\<lparr>fc_traceID := extract_trace (fc_observe cfg) c\<rparr>"
  let ?p = "slot_path (fc_dir cfg) name slot"
  have held: "\<forall>i \<in> set is. held pl me ?cfg w (slot_path (fc_dir ?cfg) name i)" using assms(5) by simp
  obtain w1 where w1: "drifts w w1" "\<And>r es w'. run me (acquireSlot pl name ?cfg slot) [] w1 = (r, es, w') \<Longrightarrow>
      (\<forall>e. r = Inl e \<longrightarrow> \<not> errors_is e fl_ErrLocked) \<Longrightarrow> run me (acquire_body pl name ?cfg) [] w = (r, es, w')"
    using run_body_slot[OF assms(1) _ assms(3) _ held, of slot js] assms(2,4) by auto
  have wf1: "wf_world w1" using drifts_wf[OF w1(1) readyD(1)[OF assms(2)]] .
  have c1: "file_content w1 ?p = Some s" using assms(6) drifts_eqs(2)[OF w1(1)] by simp
  have "run me (acquireSlot pl name ?cfg slot) [] w1 = (Inl (Wrap ''filelock: read marker'' e), [], bump_fd w1)"
    using run_acquireMarker_exists[OF calm_Nil wf1 c1, of me pl "slot_cfg ?cfg slot"] assms(7)
    by (simp add: acquireSlot_alt)
  moreover have "\<not> errors_is (Wrap ''filelock: read marker'' e) fl_ErrLocked"
    using parse_marker_error[OF assms(7)] by (simp add: fl_ErrLocked_def)
  ultimately have "run me (acquire_body pl name ?cfg) [] w = (Inl (Wrap ''filelock: read marker'' e), [], bump_fd w1)"
    using w1(2) by blast
  with run_fl_acquire_quiet[OF this] drifts_effect[OF drifts_trans[OF w1(1) drifts_bump] readyD(1)[OF assms(2)]]
  show ?thesis by auto
qed

theorem filelock_corrupt_marker_witness:
  "\<exists>evs w' e. run 7 (fl_acquire darwin (\<lambda>_. None) ''job'' (fl_defaultConfig ''/locks'')) []
      (put_file ''/locks/job.lock'' ''pid=x'' host_world) = ((Inl (Wrap ''filelock: read marker'' e), evs), [], w')"
proof -
  let ?w = "put_file ''/locks/job.lock'' ''pid=x'' host_world"
  have r: "ready ''/locks'' ?w" by (rule ready_put) (simp_all add: no_digit_end_def is_digit_def)
  note e = bad_pid_marker
  have a: "fc_dir (fl_defaultConfig ''/locks'') = ''/locks''" "fl_slots_of (fl_defaultConfig ''/locks'') = [] @ (- 1) # []"
    by (simp_all add: fl_defaultConfig_def fl_slots_of_def)
  have h: "\<forall>i \<in> set []. held darwin 7 (fl_defaultConfig ''/locks'') ?w (slot_path (fc_dir (fl_defaultConfig ''/locks'')) ''job'' i)"
    and p: "slot_path ''/locks'' ''job'' (- 1) = ''/locks/job.lock''"
    and q: "quiet_platform darwin" "ctx_err ?w = None" "file_content ?w ''/locks/job.lock'' = Some ''pid=x''"
    by (simp_all add: a)
  from filelock_corrupt_marker[OF q(1) _ q(2) a(2) h _ e, unfolded a(1) p, OF r q(3), of "\<lambda>_. None"]
  show ?thesis by metis
qed

text \<open>The empty file a process leaves that dies between creating its marker and writing it.\<close>

lemma empty_marker_held:
  "file_content w path = Some [] \<Longrightarrow> held pl me cfg w path"
proof -
  have "isStale pl empty_marker cfg = Ret False"
    by (auto simp: isStale_def probeMarker_def timeExpired_def empty_marker_def isZero_def split: StaleStrategy.split)
  moreover have "parse_marker [] = Inr empty_marker" by (simp add: parse_marker_def)
  ultimately show "file_content w path = Some [] \<Longrightarrow> held pl me cfg w path" by (auto simp: held_def)
qed

text \<open>Between the exclusive creation of a marker and its first byte the lock cannot be stolen: an
  empty marker counts as held under every strategy, every stale window and every platform.  For
  the same reason the empty marker of a process that died in between is never reclaimed.\<close>

theorem filelock_empty_marker_is_held:
  assumes "quiet_platform pl" "ready (fc_dir cfg) w" "ctx_err w = None"
    and "\<forall>i \<in> set (fl_slots_of cfg). file_content w (slot_path (fc_dir cfg) name i) = Some []"
  shows "\<exists>evs w'. run me (fl_acquire pl c name cfg) [] w = ((Inl fl_ErrLocked, evs), [], w') \<and>
    effect w (file_content w) w'"
proof -
  let ?cfg = "cfg\<lparr>fc_traceID := extract_trace (fc_observe cfg) c\<rparr>"
  have "\<forall>i \<in> set (fl_slots_of ?cfg). held pl me ?cfg w (slot_path (fc_dir ?cfg) name i)"
    using assms(4) empty_marker_held by simp
  then obtain w1 where "run me (acquire_body pl name ?cfg) [] w = (Inl fl_ErrLocked, [], w1)" "drifts w w1"
    using run_body_locked[OF assms(1), of ?cfg w me name] assms(2,3) by auto
  with drifts_effect[OF _ readyD(1)[OF assms(2)]] run_fl_acquire_quiet[of me pl name cfg c w]
  show ?thesis by auto
qed

theorem filelock_empty_marker_is_held_witness:
  "\<exists>evs w'. run 7 (fl_acquire linux (\<lambda>_. None) ''job'' ((fl_defaultConfig ''/locks'')
        \<lparr>fc_strategy := StaleStrategyTimeOnly, fc_staleAfter := 1, fc_staleAfterIsOn := True\<rparr>)) []
      (put_file ''/locks/job.lock'' [] host_world) = ((Inl fl_ErrLocked, evs), [], w')"
proof -
  let ?w = "put_file ''/locks/job.lock'' [] host_world"
  let ?cfg = "(fl_defaultConfig ''/locks'')\<lparr>fc_strategy := StaleStrategyTimeOnly, fc_staleAfter := 1, fc_staleAfterIsOn := True\<rparr>"
  have r: "ready ''/locks'' ?w" by (rule ready_put) (simp_all add: no_digit_end_def is_digit_def)
  have a: "fc_dir ?cfg = ''/locks''" "fl_slots_of ?cfg = [- 1]"
    by (simp_all add: fl_defaultConfig_def fl_slots_of_def)
  from filelock_empty_marker_is_held[where pl = linux and cfg = ?cfg and w = ?w and name = "''job''" and me = 7
      and c = "\<lambda>_. None"] r
  show ?thesis by (auto simp: a)
qed

text \<open>A marker that cannot be written (a full disk, say) is removed again: with the first write
  failing with any error, the acquire fails with that error and leaves no file behind.\<close>

theorem filelock_failed_write_leaves_nothing:
  assumes "wf_world w" "lookup w path = None" "is_dir w (path_dir path)" "\<not> errors_is (Errno n) os_ErrExist"
  shows "\<exists>w'. run me (acquireMarker darwin path cfg) (replicate 5 (id, None) @ [(id, Some n)]) w =
      (Inl (Wrap ''filelock: write marker'' (Wrap ''write'' (Errno n))), [], w') \<and> effect w (file_content w) w'"
proof -
  let ?m = "marker_of cfg me 0 (local_host w) (clock w)"
  obtain c cs where ch: "buf_chunks [] (identity_lines ?m @ debug_lines ?m) = c # cs"
  proof (cases "buf_chunks [] (identity_lines ?m @ debug_lines ?m)")
    case Nil
    then have "concat (identity_lines ?m @ debug_lines ?m) = []" using concat_buf_chunks[of "[]"] by (metis append_Nil concat.simps(1))
    then show ?thesis by (simp add: identity_lines_def line_def)
  qed (use that in blast)
  let ?es = "replicate 5 (id, None) @ [(id, Some n)] :: env"
  have es: "?es = [(id, None), (id, None), (id, None), (id, None), (id, None), (id, Some n)]"
    by (simp add: eval_nat_numeral)
  have h: "(case host_res w of Inl e \<Rightarrow> ''unknown'' | Inr h \<Rightarrow> if h = [] then ''unknown'' else h) = local_host w"
    by (simp add: local_host_def)
  have t: "run me (tryCreateMarker darwin path cfg) ?es w =
      (Inl (Wrap ''filelock: write marker'' (Wrap ''write'' (Errno n))), [], del_name path (put_file path [] w))"
    unfolding es using assms ch
    by (simp add: tryCreateMarker_def buildMarker_def startTime_other_def hostname_def writeMarker_def h)
  have "\<not> errors_is (Wrap ''filelock: write marker'' (Wrap ''write'' (Errno n))) os_ErrExist"
    using assms(4) by (simp add: os_ErrExist_def)
  then show ?thesis
    using t assms same_env_trans[OF same_env_states(2)[of w path "[]"] same_env_states(3)[of _ path]]
    by (auto simp: acquireMarker_def effect_def is_dir_def[of w path] file_content_def[of w path] fun_eq_iff)
qed

theorem filelock_failed_write_leaves_nothing_witness:
  "\<exists>w'. run 7 (acquireMarker darwin ''/locks/job.lock'' (fl_defaultConfig ''/locks'')) (replicate 5 (id, None) @ [(id, Some ENOSPC)]) host_world =
      (Inl (Wrap ''filelock: write marker'' (Wrap ''write'' (Errno ENOSPC))), [], w') \<and>
      effect host_world (file_content host_world) w'"
  by (rule filelock_failed_write_leaves_nothing)
    (simp_all add: os_ErrExist_def path_dir_def path_clean_def clean_stack_def clean_step_def rooted_def)

section \<open>Events\<close>

text \<open>Under every schedule of faults and interference an acquire reports exactly one attempt,
  with the lock's name and the outcome of its result, and raises the gauge of the name by one
  if and only if it answers a holder.\<close>

theorem filelock_acquire_events:
  assumes "run me (fl_acquire pl c name cfg) es w = ((r, evs), es', w')" "metrics (fc_observe cfg) = Some rec"
  shows "attempts rec evs = [(name, case r of Inr h \<Rightarrow> OutcomeAcquired
      | Inl e \<Rightarrow> if errors_is e fl_ErrLocked then OutcomeErrLocked else OutcomeError)] \<and>
    gauge rec n evs = (if \<not> isl r \<and> n = name then 1 else 0)"
proof -
  obtain d where "evs = acquire_events (fc_observe cfg) c name (err_of r) d"
    using run_fl_acquire_any[OF assms(1)] by metis
  then show ?thesis
    using assms(2) by (cases r)
      (auto simp: gauge_acquire_events attempts_acquire_events err_of_def fl_outcomeFor_def outcome_for_def)
qed

theorem filelock_acquire_events_witness:
  "attempts 5 (snd (fst (run 7 (fl_acquire darwin (\<lambda>_. None) ''job''
      ((fl_defaultConfig ''/locks'')\<lparr>fc_observe := no_observe\<lparr>metrics := Some 5\<rparr>\<rparr>)) [(id, None), (id, None), (id, Some EACCES)] host_world)))
     = [(''job'', OutcomeError)]"
proof -
  let ?p = "fl_acquire darwin (\<lambda>_. None) ''job'' ((fl_defaultConfig ''/locks'')\<lparr>fc_observe := no_observe\<lparr>metrics := Some 5\<rparr>\<rparr>)"
  obtain r evs es' w' where r: "run 7 ?p [(id, None), (id, None), (id, Some EACCES)] host_world = ((r, evs), es', w')"
    by (metis prod_cases3 surj_pair)
  then have "r = Inl (Wrap ''filelock: mkdir'' (Errno EACCES))"
    by (auto simp: fl_acquire_def Let_def acquire_body_def err_of_def fl_outcomeFor_def outcome_for_def
        sentinel_defs outcome_defs)
  with filelock_acquire_events[OF r, of 5] r show ?thesis by (simp add: sentinel_defs)
qed

lemma run_Release_any:
  assumes "run me (fl_Release h) es w = ((e, h', evs), es', w')" "\<not> fh_released h"
  shows "h' = h\<lparr>fh_released := True\<rparr> \<and> (\<exists>d. evs = (if isZero (fh_acquiredAt h) then []
    else fl_recordHold (fh_observe h) (fh_name h) d) @ fl_recordActive (fh_observe h) (fh_name h) (- 1))"
proof -
  obtain w1 r where "sys_remove (fh_path h) (tick_fault es) (tick_env es w) = (w1, r)" by fastforce
  with assms show ?thesis by (auto simp: fl_Release_def Let_def split: if_splits)
qed

text \<open>\<open>Release\<close>, under every schedule: a first call marks the holder released and lowers the gauge
  by one even when the file cannot be removed; any later call on the holder returns nil, issues
  no system call and no event.\<close>

theorem filelock_release_once:
  assumes "run me (fl_Release h) es w = ((e, h', evs), es', w')"
  shows "fh_released h' \<and> run me2 (fl_Release h') es2 w2 = ((None, h', []), es2, w2) \<and>
    (fh_released h \<longrightarrow> e = None \<and> evs = [] \<and> w' = w) \<and>
    (\<not> fh_released h \<longrightarrow> attempts rec evs = [] \<and>
       gauge rec n evs = (if metrics (fh_observe h) = Some rec \<and> n = fh_name h then - 1 else 0))"
proof (cases "fh_released h")
  case True
  with assms show ?thesis by (auto simp: fl_Release_def)
next
  case False
  from run_Release_any[OF assms this] show ?thesis
    using False by (auto simp: fl_Release_def[of "h\<lparr>fh_released := True\<rparr>"])
qed

theorem filelock_release_once_witness:
  "fh_released (fst (snd (fst (run 7 (fl_Release (fl_new_holder ''/locks/job.lock'')) [(id, Some EROFS)] host_world))))"
proof -
  obtain e h' evs es' w' where r: "run 7 (fl_Release (fl_new_holder ''/locks/job.lock'')) [(id, Some EROFS)] host_world = ((e, h', evs), es', w')"
    by (metis prod_cases3 surj_pair)
  from filelock_release_once[OF r] r show ?thesis by simp
qed

lemma gauge_balance:
  assumes "run me (bind (fl_acquire pl c name cfg) (\<lambda>(r, evs). case r of
      Inl e \<Rightarrow> Ret evs
    | Inr h \<Rightarrow> bind (fl_Release h) (\<lambda>(e, h', evs1). bind (fl_Release h') (\<lambda>(e', h'', evs2). Ret (evs @ evs1 @ evs2)))))
    es w = (all, es', w')"
  shows "gauge rec n all = 0"
proof -
  obtain r evs es1 w1 where a: "run me (fl_acquire pl c name cfg) es w = ((r, evs), es1, w1)"
    by (metis prod_cases3 surj_pair)
  obtain r0 d where x: "err_of r = err_of r0" "evs = acquire_events (fc_observe cfg) c name (err_of r) d"
      "\<And>h. r0 = Inr h \<Longrightarrow> \<exists>now. r = Inr (finish_holder (fc_observe cfg) name now h)"
      "\<And>h. r0 = Inr h \<Longrightarrow> \<not> fh_released h"
  proof (rule run_fl_acquire_any[OF a])
    fix r0 d es0 es1 w0 w1
    assume run: "run me (acquire_body pl name (cfg\<lparr>fc_traceID := extract_trace (fc_observe cfg) c\<rparr>)) es0 w0 = (r0, es1, w1)"
      and x: "err_of r = err_of r0" "evs = acquire_events (fc_observe cfg) c name (err_of r) d"
        "\<And>h. r0 = Inr h \<Longrightarrow> \<exists>now. r = Inr (finish_holder (fc_observe cfg) name now h)"
    have "\<forall>h. r0 = Inr h \<longrightarrow> \<not> fh_released h"
      using always_run[OF always_body, of me pl name "cfg\<lparr>fc_traceID := extract_trace (fc_observe cfg) c\<rparr>" es0 w0] run
      by simp
    with x that show thesis by blast
  qed
  show ?thesis
  proof (cases r)
    case (Inl e)
    then show ?thesis using assms a x(2) by (auto simp: gauge_acquire_events err_of_def)
  next
    case (Inr h)
    then obtain h0 where "r0 = Inr h0" using x(1) by (cases r0) (auto simp: err_of_def)
    with x(3,4) Inr obtain now where h: "h = finish_holder (fc_observe cfg) name now h0" "\<not> fh_released h"
      by (auto simp: finish_holder_def)
    obtain e h' evs1 es2 w2 where b: "run me (fl_Release h) es1 w1 = ((e, h', evs1), es2, w2)"
      by (metis prod_cases3 surj_pair)
    from run_Release_any[OF b h(2)]
    have g: "gauge rec n evs1 = (if metrics (fc_observe cfg) = Some rec \<and> n = name then - 1 else 0)"
      and h': "fh_released h'"
      by (auto simp: h(1) finish_holder_def)
    have "run me (fl_Release h') es2 w2 = ((None, h', []), es2, w2)" using h' by (simp add: fl_Release_def)
    with assms a b Inr have "all = evs @ evs1" by simp
    then show ?thesis
      using g x(2) Inr by (auto simp: gauge_acquire_events err_of_def)
  qed
qed


section \<open>Releasing\<close>

lemma run_Release_quiet:
  assumes "wf_world w" "\<not> fh_released h" "\<not> is_dir w (fh_path h)"
  shows "\<exists>evs w'. run me (fl_Release h) [] w = ((None, h\<lparr>fh_released := True\<rparr>, evs), [], w') \<and>
    effect w ((file_content w)(fh_path h := None)) w'"
proof (cases "lookup w (fh_path h)")
  case None
  have "release_err (Some ENOENT) = None" by (simp add: release_err_def)
  moreover have "(file_content w)(fh_path h := None) = file_content w"
    using None by (auto simp: file_content_def fun_eq_iff)
  ultimately show ?thesis
    using assms None by (auto simp: fl_Release_def Let_def effect_def)
next
  case (Some x)
  then obtain i where "lookup w (fh_path h) = Some (FileEntry i)"
    using assms(3) by (cases x) (auto simp: is_dir_def)
  moreover have "release_err None = None" by (simp add: release_err_def)
  ultimately show ?thesis
    using assms by (auto simp: fl_Release_def Let_def effect_def)
qed

text \<open>\<open>Release\<close> of a holder removes its marker and touches no other file, and is content when the
  marker is gone already; a failing remove is reported and leaves the marker in place.\<close>

theorem filelock_release_removes_marker:
  assumes "wf_world w" "\<not> fh_released h" "\<not> is_dir w (fh_path h)"
  shows "(\<exists>evs w'. run me (fl_Release h) [] w = ((None, h\<lparr>fh_released := True\<rparr>, evs), [], w') \<and>
      effect w ((file_content w)(fh_path h := None)) w') \<and>
    (errors_is (Errno n) os_ErrNotExist \<or> (\<exists>evs. run me (fl_Release h) [(id, Some n)] w =
      ((Some (Wrap ''filelock: remove'' (Wrap ''remove'' (Errno n))), h\<lparr>fh_released := True\<rparr>, evs), [], w)))"
proof
  show "\<exists>evs w'. run me (fl_Release h) [] w = ((None, h\<lparr>fh_released := True\<rparr>, evs), [], w') \<and>
      effect w ((file_content w)(fh_path h := None)) w'"
    by (rule run_Release_quiet[OF assms])
  show "errors_is (Errno n) os_ErrNotExist \<or> (\<exists>evs. run me (fl_Release h) [(id, Some n)] w =
      ((Some (Wrap ''filelock: remove'' (Wrap ''remove'' (Errno n))), h\<lparr>fh_released := True\<rparr>, evs), [], w))"
  proof (cases "errors_is (Errno n) os_ErrNotExist")
    case False
    then have "\<not> errors_is (Wrap ''remove'' (Errno n)) os_ErrNotExist" by (simp add: os_ErrNotExist_def)
    with assms show ?thesis by (simp add: fl_Release_def Let_def release_err_def)
  qed simp
qed

theorem filelock_release_removes_marker_witness:
  "\<exists>evs w'. run 7 (fl_Release (fl_new_holder ''/locks/job.lock'')) [] (held_world 7) =
      ((None, (fl_new_holder ''/locks/job.lock'')\<lparr>fh_released := True\<rparr>, evs), [], w') \<and>
     file_content w' ''/locks/job.lock'' = None"
  using filelock_release_removes_marker[of "held_world 7" "fl_new_holder ''/locks/job.lock''" 7 ENOSPC]
  by (auto simp: fl_new_holder_def is_dir_def effect_def)

text \<open>C18: \<open>Factory.WithLock\<close> on a free slot runs the function while the caller's marker stands and
  takes the marker away again whatever the function does, a panic included; what it reports is
  what the function did, and on disk only the fence has changed.\<close>

theorem filelock_WithLock_releases:
  assumes "quiet_platform pl" "cfg = fl_applyOptions (fl_defaults f) opts" "ready (fc_dir cfg) w" "ctx_err w = None"
    and "CHR ''/'' \<notin> set name" "\<not> is_dir w (fencePath (fc_dir cfg) name)" "fl_slots_of cfg = is @ slot # js"
    and "\<forall>i \<in> set is. held pl me cfg w (slot_path (fc_dir cfg) name i)"
    and "lookup w (slot_path (fc_dir cfg) name slot) = None"
    and fn: "\<And>w1. wf_world w1 \<Longrightarrow> \<exists>x w2. run me fn [] w1 = (x, [], w2) \<and> effect w1 (file_content w1) w2"
  shows "\<exists>x evs w1 w2 w'. run me (fl_Factory_WithLock pl c f name fn opts) [] w = ((x, evs), [], w') \<and>
    run me fn [] w1 = (x, [], w2) \<and> file_content w1 (slot_path (fc_dir cfg) name slot) \<noteq> None \<and>
    effect w ((file_content w)(fencePath (fc_dir cfg) name \<mapsto>
      dec (unat (fence_value w (fencePath (fc_dir cfg) name) + 1)) @ [NL])) w'"
proof -
  let ?p = "slot_path (fc_dir cfg) name slot" and ?f = "fencePath (fc_dir cfg) name"
  let ?v = "dec (unat (fence_value w ?f + 1)) @ [NL]"
  obtain h evs w1 m where h: "run me (fl_acquire pl c name cfg) [] w = ((Inr h, evs), [], w1)"
      "fh_path h = ?p" "\<not> fh_released h" "effect w ((file_content w)(?p \<mapsto> marker_text m, ?f \<mapsto> ?v)) w1"
    using acquire_free_slot[OF assms(1,3-9), of c] unfolding won_slot_def by auto
  note pf = slot_path_facts(2)[OF readyD(2)[OF assms(3)] assms(5)]
  obtain x w2 where x: "run me fn [] w1 = (x, [], w2)" "effect w1 (file_content w1) w2"
    using fn[OF effectD(1)[OF h(4)]] by blast
  have e2: "effect w ((file_content w)(?p \<mapsto> marker_text m, ?f \<mapsto> ?v)) w2"
    using effect_trans[OF h(4) x(2)] effectD(2)[OF h(4)] by simp
  have nd: "\<not> is_dir w2 (fh_path h)"
    using effectD(3)[OF e2] assms(9) h(2) by (simp add: is_dir_def[of w])
  obtain evs' w' where r: "run me (fl_Release h) [] w2 = ((None, h\<lparr>fh_released := True\<rparr>, evs'), [], w')"
      "effect w2 ((file_content w2)(fh_path h := None)) w'"
    using run_Release_quiet[OF effectD(1)[OF e2] h(3) nd] by blast
  have fc: "(file_content w2)(fh_path h := None) = (file_content w)(?f \<mapsto> ?v)"
    using effectD(2)[OF e2] h(2) pf[of slot] assms(9)
    by (auto simp: fun_eq_iff file_content_def[of w ?p])
  have "merge_release x None = x" by (cases x) (auto simp: merge_release_def split: option.splits)
  then have "run me (fl_Factory_WithLock pl c f name fn opts) [] w = ((x, evs @ evs'), [], w')"
    using h(1) x(1) r(1) assms(2) by (simp add: fl_Factory_WithLock_def fl_with_def fl_Factory_Acquire_def Let_def)
  moreover have "file_content w1 ?p \<noteq> None" using effectD(2)[OF h(4)] pf[of slot] by simp
  ultimately show ?thesis
    using x(1) effect_trans[OF e2 r(2)] fc by auto
qed

theorem filelock_WithLock_releases_witness:
  "\<exists>evs w'. run 7 (fl_Factory_WithLock darwin (\<lambda>_. None) (fl_NewFactory ''/locks'' []) ''job'' (Ret (Panicked ''boom'')) []) [] host_world
      = ((Panicked ''boom'', evs), [], w') \<and> file_content w' ''/locks/job.lock'' = None"
proof -
  have a: "fc_dir (fl_defaults (fl_NewFactory ''/locks'' [])) = ''/locks''"
    "fl_slots_of (fl_applyOptions (fl_defaults (fl_NewFactory ''/locks'' [])) []) = [] @ (- 1) # []"
    by (simp_all add: fl_defaultConfig_def fl_slots_of_def fl_NewFactory_def)
  from filelock_WithLock_releases[where pl = darwin and w = host_world and name = "''job''" and me = 7
      and c = "\<lambda>_. None" and fn = "Ret (Panicked ''boom'')", OF _ refl _ _ _ _ a(2)]
  show ?thesis by (auto simp: a is_dir_def effect_def)
qed

end
