(* ===== verification/Handle_Table.thy ===== *)
theory Handle_Table
  imports Gocronlock
begin

text \<open>
  A backend whose state is a state of the world and the list of the holders it gave out.  What one
  acquire and one release do to the world is stated as a locale; from it follows that all clients
  together get the answers of a table, the contract of \<open>Lock_Table\<close>.  The file locks and the
  server locks are shown to keep that contract by what their calls do to the world.
\<close>

section \<open>The clients of a world\<close>

record ('w, 'o) clients =
  cl_world :: 'w
  cl_objs :: "'o list"

text \<open>Holders are numbered in the order they are given out; a release updates its holder.\<close>

definition client_ask :: "('q \<Rightarrow> 'w \<Rightarrow> 'o res \<times> 'w) \<Rightarrow> 'q \<Rightarrow> ('w, 'o) clients \<Rightarrow> nat res \<times> ('w, 'o) clients" where
  "client_ask acq q s =
     (case acq q (cl_world s) of
        (Inl e, w) \<Rightarrow> (Inl e, s\<lparr>cl_world := w\<rparr>)
      | (Inr x, w) \<Rightarrow> (Inr (length (cl_objs s)), s\<lparr>cl_world := w, cl_objs := cl_objs s @ [x]\<rparr>))"

definition client_give :: "('o \<Rightarrow> 'w \<Rightarrow> (err \<times> 'o) \<times> 'w) \<Rightarrow> nat \<Rightarrow> ('w, 'o) clients \<Rightarrow> err \<times> ('w, 'o) clients" where
  "client_give rel h s =
     (if length (cl_objs s) \<le> h then (None, s)
      else (case rel (cl_objs s ! h) (cl_world s) of
        ((e, x), w) \<Rightarrow> (e, s\<lparr>cl_world := w, cl_objs := (cl_objs s)[h := x]\<rparr>)))"

text \<open>One client seen through the shared interface: \<open>mk\<close> makes its requests.\<close>

definition client_Locker ::
  "('q \<Rightarrow> 'w \<Rightarrow> 'o res \<times> 'w) \<Rightarrow> ('o \<Rightarrow> 'w \<Rightarrow> (err \<times> 'o) \<times> 'w) \<Rightarrow> (err \<times> string \<Rightarrow> 'q) \<Rightarrow> (('w, 'o) clients, nat) Locker" where
  "client_Locker acq rel mk =
     \<lparr>Locker_Acquire = (\<lambda>ctx name. client_ask acq (mk (ctx, name))), Holder_Release = client_give rel\<rparr>"

section \<open>The table of the clients\<close>

text \<open>What is true of the plain names outside \<open>N\<close> stays true.\<close>

definition others ::
  "('n \<Rightarrow> bool) \<Rightarrow> ('w \<Rightarrow> 'o \<Rightarrow> 'n \<Rightarrow> bool) \<Rightarrow> ('w \<Rightarrow> 'n \<Rightarrow> bool) \<Rightarrow> 'n set \<Rightarrow> 'w \<Rightarrow> 'w \<Rightarrow> bool" where
  "others plain holds free N w w' \<longleftrightarrow> (\<forall>n. plain n \<longrightarrow> n \<notin> N \<longrightarrow>
     (\<forall>x. holds w x n \<longrightarrow> holds w' x n) \<and> (free w n \<longrightarrow> free w' n))"

definition client_rows ::
  "('n \<Rightarrow> bool) \<Rightarrow> ('w \<Rightarrow> 'o \<Rightarrow> 'n \<Rightarrow> bool) \<Rightarrow> ('w \<Rightarrow> 'n \<Rightarrow> bool) \<Rightarrow> ('o \<Rightarrow> bool) \<Rightarrow> 'w \<Rightarrow> 'o list \<Rightarrow> ('n \<Rightarrow> nat option) \<Rightarrow> bool" where
  "client_rows plain holds free released w objs t \<longleftrightarrow>
     (\<forall>n h. t n = Some h \<longrightarrow> plain n \<and> h < length objs \<and> holds w (objs ! h) n) \<and>
     (\<forall>h < length objs. (\<forall>n. t n \<noteq> Some h) \<longrightarrow> released (objs ! h)) \<and>
     (\<forall>n. plain n \<longrightarrow> t n = None \<longrightarrow> free w n)"

definition client_table ::
  "('n \<Rightarrow> bool) \<Rightarrow> ('w \<Rightarrow> bool) \<Rightarrow> ('w \<Rightarrow> 'o \<Rightarrow> 'n \<Rightarrow> bool) \<Rightarrow> ('w \<Rightarrow> 'n \<Rightarrow> bool) \<Rightarrow> ('o \<Rightarrow> bool) \<Rightarrow>
     ('w, 'o) clients \<Rightarrow> ('n \<Rightarrow> nat option) \<Rightarrow> nat \<Rightarrow> bool" where
  "client_table plain ok holds free released s t k \<longleftrightarrow> ok (cl_world s) \<and>
     client_rows plain holds free released (cl_world s) (cl_objs s) t \<and> length (cl_objs s) = k"

lemma client_tableD:
  assumes "client_table plain ok holds free released s t k"
  shows "ok (cl_world s)" "client_rows plain holds free released (cl_world s) (cl_objs s) t" "length (cl_objs s) = k"
  using assms by (simp_all add: client_table_def)

lemma client_rowsD:
  assumes "client_rows plain holds free released w objs t"
  shows "t n = Some h \<Longrightarrow> plain n" "t n = Some h \<Longrightarrow> h < length objs"
    "t n = Some h \<Longrightarrow> holds w (objs ! h) n"
    "h < length objs \<Longrightarrow> \<forall>n. t n \<noteq> Some h \<Longrightarrow> released (objs ! h)"
    "plain n \<Longrightarrow> t n = None \<Longrightarrow> free w n"
  using assms by (auto simp: client_rows_def)

lemma othersD:
  assumes "others plain holds free N w w'" "plain n" "n \<notin> N"
  shows "holds w x n \<Longrightarrow> holds w' x n" "free w n \<Longrightarrow> free w' n"
  using assms unfolding others_def by blast+

lemma client_table_new:
  assumes "ok w" "\<And>n. plain n \<Longrightarrow> free w n"
  shows "client_table plain ok holds free released \<lparr>cl_world = w, cl_objs = []\<rparr> (\<lambda>_. None) 0"
  using assms by (simp add: client_table_def client_rows_def)

lemma client_rows_others:
  assumes "client_rows plain holds free released w objs t" "others plain holds free {} w w'"
  shows "client_rows plain holds free released w' objs t"
  using client_rowsD[OF assms(1)] othersD[OF assms(2)] unfolding client_rows_def by blast

text \<open>A new holder, and one given back.\<close>

lemma client_rows_granted:
  assumes "client_rows plain holds free released w objs t" "others plain holds free {name} w w'"
    and "plain name" "t name = None" "holds w' x name"
  shows "client_rows plain holds free released w' (objs @ [x]) (t(name \<mapsto> length objs))"
  unfolding client_rows_def
proof (intro conjI allI impI)
  note rd = client_rowsD[OF assms(1)]
  fix n h assume n: "(t(name \<mapsto> length objs)) n = Some h"
  have "plain n \<and> h < length (objs @ [x]) \<and> holds w' ((objs @ [x]) ! h) n"
  proof (cases "n = name")
    case True
    with n have "h = length objs" by simp
    with True assms(3,5) show ?thesis by simp
  next
    case False
    with n have "t n = Some h" by simp
    from rd(1-3)[OF this] othersD(1)[OF assms(2)] False show ?thesis by (simp add: nth_append)
  qed
  then show "plain n" "h < length (objs @ [x])" "holds w' ((objs @ [x]) ! h) n" by blast+
next
  fix h assume h: "h < length (objs @ [x])" "\<forall>n. (t(name \<mapsto> length objs)) n \<noteq> Some h"
  have "h \<noteq> length objs" using h(2)[rule_format, of name] by simp
  then have l: "h < length objs" using h(1) by simp
  have "t n \<noteq> Some h" for n using h(2)[rule_format, of n] assms(4) by (cases "n = name") simp_all
  with client_rowsD(4)[OF assms(1) l] l show "released ((objs @ [x]) ! h)" by (simp add: nth_append)
next
  fix n assume n: "plain n" "(t(name \<mapsto> length objs)) n = None"
  then have "n \<noteq> name" "t n = None" by (auto split: if_splits)
  with n client_rowsD(5)[OF assms(1)] othersD(2)[OF assms(2)] show "free w' n" by simp
qed

lemma client_rows_given:
  assumes "client_rows plain holds free released w objs t" "others plain holds free {name} w w'"
    and "t name = Some h" "released x'" "free w' name" "\<And>n. t n = Some h \<Longrightarrow> n = name"
  shows "client_rows plain holds free released w' (objs[h := x']) (give_up h t)"
  unfolding client_rows_def
proof (intro conjI allI impI)
  note rd = client_rowsD[OF assms(1)]
  fix n g assume "give_up h t n = Some g"
  then have n: "t n = Some g" "g \<noteq> h" by (auto simp: give_up_def split: if_splits)
  then have "n \<noteq> name" using assms(3) by auto
  with n rd(1-3)[OF n(1)] othersD(1)[OF assms(2)]
  show "plain n" "g < length (objs[h := x'])" "holds w' (objs[h := x'] ! g) n" by simp_all
next
  fix g assume g: "g < length (objs[h := x'])" "\<forall>n. give_up h t n \<noteq> Some g"
  show "released (objs[h := x'] ! g)"
  proof (cases "g = h")
    case True
    then show ?thesis using assms(4) client_rowsD(2)[OF assms(1,3)] by simp
  next
    case False
    have "t n \<noteq> Some g" for n
      using g(2)[rule_format, of n] False by (cases "t n = Some h") (simp_all add: give_up_def)
    with False client_rowsD(4)[OF assms(1), of g] g(1) show ?thesis by simp
  qed
next
  fix n assume n: "plain n" "give_up h t n = None"
  show "free w' n"
  proof (cases "n = name")
    case False
    then have "t n = None" using n(2) assms(6)[of n] by (auto simp: give_up_def split: if_splits)
    with False client_rowsD(5)[OF assms(1) n(1)] othersD(2)[OF assms(2) n(1)] show ?thesis by simp
  qed (simp add: assms(5))
qed

section \<open>What a backend does to the world\<close>

text \<open>
  \<open>ok w\<close> is what a backend relies on and keeps; \<open>holds w x n\<close> says that the holder \<open>x\<close> has the slot
  \<open>n\<close>, and \<open>free w n\<close> that nobody has it.
\<close>

locale client_lock =
  fixes acq :: "'q \<Rightarrow> 'w \<Rightarrow> 'o res \<times> 'w"
    and rel :: "'o \<Rightarrow> 'w \<Rightarrow> (err \<times> 'o) \<times> 'w"
    and slots :: "'q \<Rightarrow> 'n list"
    and allowed :: "'q \<Rightarrow> bool"
    and fails :: "'q \<Rightarrow> gerr option"
    and plain :: "'n \<Rightarrow> bool"
    and ok :: "'w \<Rightarrow> bool"
    and holds :: "'w \<Rightarrow> 'o \<Rightarrow> 'n \<Rightarrow> bool"
    and free :: "'w \<Rightarrow> 'n \<Rightarrow> bool"
    and released :: "'o \<Rightarrow> bool"
  assumes allowed_plain: "allowed q \<Longrightarrow> n \<in> set (slots q) \<Longrightarrow> plain n"
    and asked_fails: "ok w \<Longrightarrow> allowed q \<Longrightarrow> fails q = Some e \<Longrightarrow>
      \<exists>w'. acq q w = (Inl e, w') \<and> ok w' \<and> others plain holds free {} w w'"
    and asked_held: "ok w \<Longrightarrow> allowed q \<Longrightarrow> fails q = None \<Longrightarrow> \<forall>n \<in> set (slots q). \<exists>x. holds w x n \<Longrightarrow>
      \<exists>w'. acq q w = (Inl lock_ErrLocked, w') \<and> ok w' \<and> others plain holds free {} w w'"
    and asked_free: "ok w \<Longrightarrow> allowed q \<Longrightarrow> fails q = None \<Longrightarrow>
      slots q = us @ n # vs \<Longrightarrow> \<forall>u \<in> set us. \<exists>x. holds w x u \<Longrightarrow> free w n \<Longrightarrow>
      \<exists>x w'. acq q w = (Inr x, w') \<and> ok w' \<and> holds w' x n \<and> others plain holds free {n} w w'"
    and given: "ok w \<Longrightarrow> plain n \<Longrightarrow> holds w x n \<Longrightarrow>
      \<exists>x' w'. rel x w = ((None, x'), w') \<and> released x' \<and> ok w' \<and> free w' n \<and> others plain holds free {n} w w'"
    and given_again: "released x \<Longrightarrow> rel x w = ((None, x), w)"
    and holds_one: "plain n \<Longrightarrow> plain m \<Longrightarrow> holds w x n \<Longrightarrow> holds w x m \<Longrightarrow> n = m"
begin

lemma client_give_table:
  assumes "client_table plain ok holds free released s t k"
  shows "\<exists>s'. client_give rel h s = (None, s') \<and> client_table plain ok holds free released s' (give_up h t) k"
proof (cases "\<exists>n. t n = Some h")
  case False
  then have gu: "give_up h t = t" by (auto simp: give_up_def)
  note td = client_tableD[OF assms]
  have "released (cl_objs s ! h)" if "h < length (cl_objs s)" using client_rowsD(4)[OF td(2) that] False by blast
  then show ?thesis using assms gu given_again[of "cl_objs s ! h" "cl_world s"]
    by (cases "h < length (cl_objs s)") (simp_all add: client_give_def)
next
  case True
  then obtain name where name: "t name = Some h" by blast
  note td = client_tableD[OF assms]
  note rd = client_rowsD(1-3)[OF td(2) name]
  have one: "n = name" if "t n = Some h" for n
    using holds_one[OF client_rowsD(1)[OF td(2) that] rd(1) client_rowsD(3)[OF td(2) that] rd(3)] .
  from given[OF td(1) rd(1,3)] obtain x' w' where r: "rel (cl_objs s ! h) (cl_world s) = ((None, x'), w')"
    "released x'" "ok w'" "free w' name" "others plain holds free {name} (cl_world s) w'" by blast
  from client_rows_given[OF td(2) r(5) name r(2,4) one] r(1,3) rd(2) td(3)
  show ?thesis by (simp add: client_give_def client_table_def)
qed

end

sublocale client_lock \<subseteq> clients: lock_table "client_ask acq" "client_give rel" slots allowed fails lock_ErrLocked
  "client_table plain ok holds free released"
proof (unfold_locales, goal_cases)
  case (1 s t k q e)
  note td = client_tableD[OF 1(1)]
  from asked_fails[OF td(1) 1(2,3)] obtain w' where
    "acq q (cl_world s) = (Inl e, w')" "ok w'" "others plain holds free {} (cl_world s) w'" by blast
  with client_rows_others[OF td(2)] td(3) show ?case by (simp add: client_ask_def client_table_def)
next
  case (2 s t k q)
  note td = client_tableD[OF 2(1)]
  have "\<forall>n \<in> set (slots q). \<exists>x. holds (cl_world s) x n"
    using 2(4) client_rowsD(3)[OF td(2)] unfolding first_free_None by blast
  from asked_held[OF td(1) 2(2,3) this] obtain w' where
    "acq q (cl_world s) = (Inl lock_ErrLocked, w')" "ok w'" "others plain holds free {} (cl_world s) w'" by blast
  with client_rows_others[OF td(2)] td(3) show ?case by (simp add: client_ask_def client_table_def)
next
  case (3 s t k q n)
  note td = client_tableD[OF 3(1)]
  obtain us vs where sl: "slots q = us @ n # vs" "\<forall>u \<in> set us. \<exists>h. t u = Some h" "t n = None"
    using 3(4) by (rule first_free_Some)
  have p: "plain n" using allowed_plain[OF 3(2)] sl(1) by simp
  have us: "\<forall>u \<in> set us. \<exists>x. holds (cl_world s) x u" using sl(2) client_rowsD(3)[OF td(2)] by blast
  from asked_free[OF td(1) 3(2,3) sl(1) us client_rowsD(5)[OF td(2) p sl(3)]] obtain x w' where w':
    "acq q (cl_world s) = (Inr x, w')" "ok w'" "holds w' x n" "others plain holds free {n} (cl_world s) w'" by blast
  from client_rows_granted[OF td(2) w'(4) p sl(3) w'(3)]
  show ?case using w'(1,2) td(3) by (simp add: client_ask_def client_table_def del: fun_upd_apply)
next
  case (4 s t k h)
  show ?case by (rule client_give_table[OF 4])
qed

sublocale client_lock \<subseteq> proc: locker_table "client_Locker acq rel mk" "\<lambda>q. slots (mk q)" "\<lambda>q. allowed (mk q)"
  "\<lambda>q. fails (mk q)" "client_table plain ok holds free released" for mk
proof -
  have "locker_request (client_Locker acq rel mk) = (\<lambda>q. client_ask acq (mk q))"
    by (auto simp: locker_request_def client_Locker_def fun_eq_iff)
  moreover have "Holder_Release (client_Locker acq rel mk) = client_give rel" by (simp add: client_Locker_def)
  ultimately show "locker_table (client_Locker acq rel mk) (\<lambda>q. slots (mk q)) (\<lambda>q. allowed (mk q))
      (\<lambda>q. fails (mk q)) (client_table plain ok holds free released)"
    using clients.restricted[of mk] by (simp add: locker_table_def)
qed

end
