(* ===== verification/Host_Table.thy ===== *)
theory Host_Table
  imports Handle_Table
begin

text \<open>
  The processes of a host that take locks through files, as clients of \<open>Handle_Table\<close>: each call is
  a program run undisturbed on the machine.
\<close>

text \<open>A request comes from a process, with what its context's \<open>Err\<close> answers, for a name; a holder belongs to its process.\<close>

definition host_acq ::
  "(string \<Rightarrow> ('h res \<times> obs_event list) prog) \<Rightarrow> int \<times> err \<times> string \<Rightarrow> world \<Rightarrow> (int \<times> 'h) res \<times> world" where
  "host_acq acq = (\<lambda>(me, ctx, name) w. case run me (acq name) [] (w\<lparr>ctx_err := ctx\<rparr>) of
     ((r, evs), es, w') \<Rightarrow> (map_sum (\<lambda>e. e) (Pair me) r, w'))"

definition host_rel ::
  "('h \<Rightarrow> (err \<times> 'h \<times> obs_event list) prog) \<Rightarrow> int \<times> 'h \<Rightarrow> world \<Rightarrow> (err \<times> int \<times> 'h) \<times> world" where
  "host_rel rel = (\<lambda>(me, h) w. case run me (rel h) [] w of ((e, h', evs), es, w') \<Rightarrow> ((e, me, h'), w'))"

text \<open>A request whose context is done is refused with its error, the package's own sentinel translated.\<close>

definition host_fails :: "gerr \<Rightarrow> int \<times> err \<times> string \<Rightarrow> gerr option" where
  "host_fails own q = map_option (\<lambda>e. if e = own then lock_ErrLocked else e) (fst (snd q))"

abbreviation slash_free :: "string \<Rightarrow> bool" where
  "slash_free n \<equiv> CHR ''/'' \<notin> set n"

text \<open>A row of the table is a slot of a name; a lock with one holder has the slot \<open>-1\<close> only.\<close>

definition host_slots :: "int list \<Rightarrow> int \<times> err \<times> string \<Rightarrow> (string \<times> int) list" where
  "host_slots is q = map (Pair (snd (snd q))) is"

definition host_row :: "int list \<Rightarrow> string \<times> int \<Rightarrow> bool" where
  "host_row is r \<longleftrightarrow> slash_free (fst r) \<and> snd r \<in> set is"

lemma host_row [simp]: "host_row is (n, i) \<longleftrightarrow> slash_free n \<and> i \<in> set is"
  by (simp add: host_row_def)

definition host_allowed :: "(int \<Rightarrow> bool) \<Rightarrow> int \<times> err \<times> string \<Rightarrow> bool" where
  "host_allowed alive q \<longleftrightarrow> alive (fst q) \<and> slash_free (snd (snd q))"

text \<open>The file system does not depend on the context.\<close>

lemma ctx_files [simp]:
  "lookup (w\<lparr>ctx_err := c\<rparr>) = lookup w" "is_dir (w\<lparr>ctx_err := c\<rparr>) = is_dir w"
  "file_content (w\<lparr>ctx_err := c\<rparr>) = file_content w"
proof -
  have l: "lookup (w\<lparr>ctx_err := c\<rparr>) = lookup w" by (simp add: lookup_def fun_eq_iff)
  then show "is_dir (w\<lparr>ctx_err := c\<rparr>) = is_dir w" "file_content (w\<lparr>ctx_err := c\<rparr>) = file_content w"
    by (simp_all add: is_dir_def file_content_def fun_eq_iff split: option.splits entry.splits)
  show "lookup (w\<lparr>ctx_err := c\<rparr>) = lookup w" by (rule l)
qed

text \<open>The laws of a backend over the machine, as facts about runs.\<close>

locale host_lock =
  fixes acq :: "string \<Rightarrow> ('h res \<times> obs_event list) prog"
    and rel :: "'h \<Rightarrow> (err \<times> 'h \<times> obs_event list) prog"
    and own :: gerr
    and "is" :: "int list"
    and alive :: "int \<Rightarrow> bool"
    and ok :: "world \<Rightarrow> bool"
    and holds :: "world \<Rightarrow> int \<times> 'h \<Rightarrow> string \<times> int \<Rightarrow> bool"
    and free :: "world \<Rightarrow> string \<times> int \<Rightarrow> bool"
    and released :: "'h \<Rightarrow> bool"
  assumes run_done: "ok w \<Longrightarrow> alive me \<Longrightarrow> slash_free n \<Longrightarrow>
      \<exists>evs w'. run me (acq n) [] (w\<lparr>ctx_err := Some e\<rparr>) = ((Inl (if e = own then lock_ErrLocked else e), evs), [], w') \<and>
        ok w' \<and> others (host_row is) holds free {} w w'"
    and run_held: "ok w \<Longrightarrow> alive me \<Longrightarrow> slash_free n \<Longrightarrow> \<forall>i \<in> set is. \<exists>x. holds w x (n, i) \<Longrightarrow>
      \<exists>evs w'. run me (acq n) [] (w\<lparr>ctx_err := None\<rparr>) = ((Inl lock_ErrLocked, evs), [], w') \<and>
        ok w' \<and> others (host_row is) holds free {} w w'"
    and run_free: "ok w \<Longrightarrow> alive me \<Longrightarrow> slash_free n \<Longrightarrow> is = us @ i # vs \<Longrightarrow>
      \<forall>u \<in> set us. \<exists>x. holds w x (n, u) \<Longrightarrow> free w (n, i) \<Longrightarrow>
      \<exists>h evs w'. run me (acq n) [] (w\<lparr>ctx_err := None\<rparr>) = ((Inr h, evs), [], w') \<and>
        ok w' \<and> holds w' (me, h) (n, i) \<and> others (host_row is) holds free {(n, i)} w w'"
    and run_release: "ok w \<Longrightarrow> host_row is r \<Longrightarrow> holds w (me, h) r \<Longrightarrow>
      \<exists>h' evs w'. run me (rel h) [] w = ((None, h', evs), [], w') \<and>
        released h' \<and> ok w' \<and> free w' r \<and> others (host_row is) holds free {r} w w'"
    and run_again: "released h \<Longrightarrow> run me (rel h) [] w = ((None, h, []), [], w)"
    and holds_one_slot: "host_row is r \<Longrightarrow> host_row is r' \<Longrightarrow> holds w x r \<Longrightarrow> holds w x r' \<Longrightarrow> r = r'"

sublocale host_lock \<subseteq> client_lock "host_acq acq" "host_rel rel" "host_slots is" "host_allowed alive" "host_fails own"
  "host_row is" ok holds free "\<lambda>x. released (snd x)"
proof (unfold_locales, goal_cases)
  case (1 q r)
  then show ?case by (auto simp: host_allowed_def host_slots_def)
next
  case (2 w q e)
  obtain me ctx n where q: "q = (me, ctx, n)" by (cases q)
  with 2(3) obtain x where x: "ctx = Some x" "(if x = own then lock_ErrLocked else x) = e" by (auto simp: host_fails_def)
  have "alive me" "slash_free n" using 2(2) q by (simp_all add: host_allowed_def)
  from run_done[OF 2(1) this, of x] show ?case unfolding q x by (auto simp: host_acq_def x(1))
next
  case (3 w q)
  obtain me ctx n where q: "q = (me, ctx, n)" by (cases q)
  have c: "ctx = None" "alive me" "slash_free n" using 3(2,3) q by (simp_all add: host_fails_def host_allowed_def)
  have "\<forall>i \<in> set is. \<exists>x. holds w x (n, i)" using 3(4) by (simp add: host_slots_def q)
  from run_held[OF 3(1) c(2,3) this] show ?case by (auto simp: host_acq_def c(1) q)
next
  case (4 w q us r vs)
  obtain me ctx n where q: "q = (me, ctx, n)" by (cases q)
  have c: "ctx = None" "alive me" "slash_free n" using 4(2,3) q by (simp_all add: host_fails_def host_allowed_def)
  obtain us' i vs' where sl: "is = us' @ i # vs'" "us = map (Pair n) us'" "r = (n, i)"
    using 4(4) by (auto simp: host_slots_def q map_eq_append_conv map_eq_Cons_conv)
  have "\<forall>u \<in> set us'. \<exists>x. holds w x (n, u)" "free w (n, i)" using 4(5,6) sl(2,3) by simp_all
  from run_free[OF 4(1) c(2,3) sl(1) this] obtain h evs w' where
    "run me (acq n) [] (w\<lparr>ctx_err := None\<rparr>) = ((Inr h, evs), [], w')" "ok w'" "holds w' (me, h) r" "others (host_row is) holds free {r} w w'"
    unfolding sl(3) by blast
  then show ?case by (intro exI[of _ "(me, h)"] exI[of _ w']) (simp add: host_acq_def c(1) q)
next
  case (5 w r x)
  obtain me h where x: "x = (me, h)" by (cases x)
  from run_release[OF 5(1,2), of me h] 5(3) x obtain h' evs w' where
    "run me (rel h) [] w = ((None, h', evs), [], w')" "released h'" "ok w'" "free w' r" "others (host_row is) holds free {r} w w'"
    by blast
  then show ?case by (intro exI[of _ "(me, h')"] exI[of _ w']) (simp add: host_rel_def x)
next
  case (6 x w)
  then show ?case by (cases x) (simp add: host_rel_def run_again)
next
  case (7 r r' w x)
  then show ?case by (rule holds_one_slot)
qed

end
