(* ===== verification/Filelock_Table.thy ===== *)
theory Filelock_Table
  imports Filelock_Props Host_Table
begin

text \<open>
  \<open>filelock\<close> with any number of slots, on a system without process start times, keeps the contract of
  \<open>Lock_Table\<close>: any running processes of a host acquire and release any names, each call
  undisturbed, over one file system.  So does the scheduler's adapter in one of the processes.
\<close>

section \<open>Who holds what\<close>

definition fl_holds :: "(int \<Rightarrow> bool) \<Rightarrow> string \<Rightarrow> world \<Rightarrow> int \<times> fl_holder \<Rightarrow> string \<times> int \<Rightarrow> bool" where
  "fl_holds alive dir w x = (\<lambda>(n, i). alive (fst x) \<and> \<not> fh_released (snd x) \<and> fh_path (snd x) = slot_path dir n i \<and>
     (\<exists>m. file_content w (slot_path dir n i) = Some (marker_text m) \<and> marker_ok m \<and>
        m_pid m = fst x \<and> m_pidStart m = 0 \<and> m_host m = local_host w))"

definition fl_unheld :: "string \<Rightarrow> world \<Rightarrow> string \<times> int \<Rightarrow> bool" where
  "fl_unheld dir w = (\<lambda>(n, i). lookup w (slot_path dir n i) = None)"

lemma fl_states:
  "fl_holds alive dir w x (n, i) \<longleftrightarrow> alive (fst x) \<and> \<not> fh_released (snd x) \<and> fh_path (snd x) = slot_path dir n i \<and>
     (\<exists>m. file_content w (slot_path dir n i) = Some (marker_text m) \<and> marker_ok m \<and>
        m_pid m = fst x \<and> m_pidStart m = 0 \<and> m_host m = local_host w)"
  "fl_unheld dir w (n, i) \<longleftrightarrow> lookup w (slot_path dir n i) = None"
  by (simp_all add: fl_holds_def fl_unheld_def)

text \<open>
  A strategy that asks for the process; a lock directory in order; processes that run; a host name,
  a time, slot numbers and a trace identifier that fit the lines of a marker.
\<close>

definition fl_traced :: "ctx \<Rightarrow> fl_config \<Rightarrow> int \<Rightarrow> fl_config" where
  "fl_traced c cfg i = slot_cfg (cfg\<lparr>fc_traceID := extract_trace (fc_observe cfg) c\<rparr>) i"

definition fl_host :: "ctx \<Rightarrow> fl_config \<Rightarrow> (int \<Rightarrow> bool) \<Rightarrow> world \<Rightarrow> bool" where
  "fl_host c cfg alive w \<longleftrightarrow> fc_strategy cfg \<in> {StaleStrategyPIDFirst, StaleStrategyPIDOnly} \<and>
     ready (fc_dir cfg) w \<and> local_host w \<noteq> ''unknown'' \<and>
     (\<forall>n i. slash_free n \<longrightarrow> \<not> is_dir w (fencePath (fc_dir cfg) n) \<and> \<not> is_dir w (slot_path (fc_dir cfg) n i)) \<and>
     (\<forall>p. alive p \<longrightarrow> 0 < p \<and> int64_range p \<and> kill_res w p = None) \<and>
     (\<forall>i \<in> set (fl_slots_of cfg). marker_ok (marker_of (fl_traced c cfg i) 1 0 (local_host w) (clock w)))"

lemma fl_hostD:
  assumes "fl_host c cfg alive w"
  shows "fc_strategy cfg \<in> {StaleStrategyPIDFirst, StaleStrategyPIDOnly}" "ready (fc_dir cfg) w"
    "slash_free n \<Longrightarrow> \<not> is_dir w (fencePath (fc_dir cfg) n)"
    "slash_free n \<Longrightarrow> \<not> is_dir w (slot_path (fc_dir cfg) n i)"
    "alive p \<Longrightarrow> 0 < p" "alive p \<Longrightarrow> int64_range p" "alive p \<Longrightarrow> kill_res w p = None"
    "i \<in> set (fl_slots_of cfg) \<Longrightarrow> marker_ok (marker_of (fl_traced c cfg i) 1 0 (local_host w) (clock w))"
    "local_host w \<noteq> ''unknown''"
  using assms by (simp_all add: fl_host_def)

abbreviation fl_others :: "fl_config \<Rightarrow> (int \<Rightarrow> bool) \<Rightarrow> (string \<times> int) set \<Rightarrow> world \<Rightarrow> world \<Rightarrow> bool" where
  "fl_others cfg alive \<equiv> others (host_row (fl_slots_of cfg)) (fl_holds alive (fc_dir cfg)) (fl_unheld (fc_dir cfg))"

text \<open>None of this depends on the context, and it survives changes to marker and fence files.\<close>

lemma fl_ready_ctx [simp]: "ready dir (w\<lparr>ctx_err := e\<rparr>) = ready dir w" "local_host (w\<lparr>ctx_err := e\<rparr>) = local_host w"
  by (simp_all add: ready_def wf_world_def local_host_def)

lemma fl_ctx [simp]:
  "fl_host c cfg alive (w\<lparr>ctx_err := e\<rparr>) = fl_host c cfg alive w" "fl_holds alive dir (w\<lparr>ctx_err := e\<rparr>) = fl_holds alive dir w"
  "fl_unheld dir (w\<lparr>ctx_err := e\<rparr>) = fl_unheld dir w"
  by (simp_all add: fl_host_def fl_holds_def fl_unheld_def fun_eq_iff)

lemma fl_others_ctx [simp]:
  "fl_others cfg alive N (w\<lparr>ctx_err := e\<rparr>) w' = fl_others cfg alive N w w'"
  "fl_others cfg alive N w (w'\<lparr>ctx_err := e\<rparr>) = fl_others cfg alive N w w'"
  by (simp_all add: others_def)

lemma fl_host_effect:
  assumes "fl_host c cfg alive w" "effect w fc w'" "\<And>p. \<not> no_digit_end p \<Longrightarrow> fc p = file_content w p"
  shows "fl_host c cfg alive w'"
  using assms(1) ready_effect[OF _ assms(2,3)] effectD[OF assms(2)] by (simp add: fl_host_def local_host_def)

lemma fl_others_effect:
  assumes "effect w fc w'"
    and "\<And>n i. slash_free n \<Longrightarrow> i \<in> set (fl_slots_of cfg) \<Longrightarrow> (n, i) \<notin> N \<Longrightarrow>
      fc (slot_path (fc_dir cfg) n i) = file_content w (slot_path (fc_dir cfg) n i)"
  shows "fl_others cfg alive N w w'"
  using effectD[OF assms(1)] assms(2) by (auto simp: others_def lookup_None_iff local_host_def host_row_def fl_states)

section \<open>What the calls do\<close>

lemma fl_factory_run:
  "run me (fl_factoryAdapter_Acquire pl c f name) [] w =
     (case run me (fl_acquire pl c name (fl_defaults f)) [] w of ((r, evs), es, w') \<Rightarrow> ((fl_translate r, evs), es, w'))"
  by (simp add: fl_factoryAdapter_Acquire_def fl_Factory_Acquire_def case_prod_beta)

lemma fl_ask_fails:
  assumes "fl_host c (fl_defaults f) alive w"
  shows "\<exists>evs w'. run me (fl_factoryAdapter_Acquire pl c f n) [] (w\<lparr>ctx_err := Some e\<rparr>) =
      ((Inl (if e = fl_ErrLocked then lock_ErrLocked else e), evs), [], w') \<and>
    fl_host c (fl_defaults f) alive w' \<and> fl_others (fl_defaults f) alive {} w w'"
proof -
  let ?w = "w\<lparr>ctx_err := Some e\<rparr>" and ?cfg = "(fl_defaults f)\<lparr>fc_traceID := extract_trace (fc_observe (fl_defaults f)) c\<rparr>"
  have "run me (acquire_body pl n ?cfg) [] ?w = (Inl e, [], ?w)" by (simp add: acquire_body_def)
  from run_fl_acquire_quiet[OF this] assms show ?thesis
    by (auto simp: fl_factory_run fl_translate_def others_def)
qed

text \<open>The marker of a running process of this host is held.\<close>

lemma fl_holds_held:
  assumes "fl_host c cfg alive w" "fl_holds alive (fc_dir cfg) w x (n, i)"
  shows "held darwin me cfg w (slot_path (fc_dir cfg) n i)"
proof -
  obtain m where m: "file_content w (slot_path (fc_dir cfg) n i) = Some (marker_text m)" "marker_ok m"
    "m_pid m = fst x" "m_pidStart m = 0" "m_host m = local_host w" "alive (fst x)"
    using assms(2) by (auto simp: fl_states)
  note hd = fl_hostD[OF assms(1)]
  have "same_host w m" using m(5) hd(9) by (simp add: same_host_def local_host_def split: sum.splits)
  moreover have "0 < m_pid m" "kill_res w (m_pid m) = None" using hd(5,7) m(3,6) by auto
  ultimately show ?thesis
    using held_alive[of darwin w "slot_path (fc_dir cfg) n i" "marker_text m" m] m(1,2,4) hd(1) readyD(1)[OF hd(2)]
    by (simp add: parse_marker_text)
qed

lemma fl_ask_busy:
  assumes "fl_host c (fl_defaults f) alive w"
    and "\<forall>i \<in> set (fl_slots_of (fl_defaults f)). \<exists>x. fl_holds alive (fc_dir (fl_defaults f)) w x (n, i)"
  shows "\<exists>evs w'. run me (fl_factoryAdapter_Acquire darwin c f n) [] (w\<lparr>ctx_err := None\<rparr>) = ((Inl lock_ErrLocked, evs), [], w') \<and>
    fl_host c (fl_defaults f) alive w' \<and> fl_others (fl_defaults f) alive {} w w'"
proof -
  let ?w = "w\<lparr>ctx_err := None\<rparr>" and ?cfg = "fl_defaults f"
  let ?tcfg = "?cfg\<lparr>fc_traceID := extract_trace (fc_observe ?cfg) c\<rparr>"
  have ok: "fl_host c ?cfg alive ?w" using assms(1) by simp
  note hd = fl_hostD[OF ok]
  have "held darwin me ?cfg ?w (slot_path (fc_dir ?cfg) n i)" if "i \<in> set (fl_slots_of ?cfg)" for i
  proof -
    from assms(2) that obtain x where "fl_holds alive (fc_dir ?cfg) ?w x (n, i)" by auto
    then show ?thesis by (rule fl_holds_held[OF ok])
  qed
  then have "\<forall>i \<in> set (fl_slots_of ?tcfg). held darwin me ?tcfg ?w (slot_path (fc_dir ?tcfg) n i)" by simp
  then obtain w' where w': "run me (acquire_body darwin n ?tcfg) [] ?w = (Inl fl_ErrLocked, [], w')" "drifts ?w w'"
    using run_body_locked[where cfg = ?tcfg and w = ?w and pl = darwin and me = me and name = n] hd(2) by auto
  have eff: "effect ?w (file_content ?w) w'" by (rule drifts_effect[OF w'(2) readyD(1)[OF hd(2)]])
  show ?thesis
    using run_fl_acquire_quiet[OF w'(1)] fl_host_effect[OF ok eff refl] fl_others_effect[OF eff refl]
    by (simp add: fl_factory_run fl_translate_def)
qed

text \<open>A slot with no marker: the new marker names the caller, and a reader gets it back.\<close>

lemma own_marker_darwin:
  assumes "fl_host c cfg alive w" "alive me" "i \<in> set (fl_slots_of cfg)" "drifts w w1"
    and m_def: "m = own_marker darwin (fl_traced c cfg i) me path w1"
  shows "marker_ok m" "m_pidStart m = 0" "m_pid m = me" "m_host m = local_host w"
proof -
  have "start_of darwin me u p = 0" for u p by (simp add: start_of_def startTime_other_def)
  then have m: "m = marker_of (fl_traced c cfg i) me 0 (local_host w) (clock w)"
    using drifts_eqs(8,10)[OF assms(4)] by (simp add: m_def own_marker_def new_marker_def local_host_def)
  show "marker_ok m" "m_pidStart m = 0" "m_pid m = me" "m_host m = local_host w"
    using fl_hostD(6)[OF assms(1,2)] fl_hostD(8)[OF assms(1,3)] by (simp_all add: m marker_ok_def marker_of_def)
qed

lemma fl_slot_had:
  assumes "fl_host c cfg alive w" "ctx_err w = None" "alive me" "slash_free n" "fl_slots_of cfg = us @ i # vs"
    and "\<forall>u \<in> set us. \<exists>x. fl_holds alive (fc_dir cfg) w x (n, u)" "fl_unheld (fc_dir cfg) w (n, i)"
  shows "\<exists>h m w'. run me (acquire_body darwin n (cfg\<lparr>fc_traceID := extract_trace (fc_observe cfg) c\<rparr>)) [] w = (Inr h, [], w') \<and>
    \<not> fh_released h \<and> fh_path h = slot_path (fc_dir cfg) n i \<and> marker_ok m \<and> m_pid m = me \<and> m_pidStart m = 0 \<and> m_host m = local_host w \<and>
    effect w ((file_content w)(slot_path (fc_dir cfg) n i \<mapsto> marker_text m, fencePath (fc_dir cfg) n \<mapsto> dec (unat (fh_token h)) @ [NL])) w'"
proof -
  let ?tcfg = "cfg\<lparr>fc_traceID := extract_trace (fc_observe cfg) c\<rparr>"
  let ?p = "slot_path (fc_dir cfg) n i" and ?f = "fencePath (fc_dir cfg) n" and ?c = "fl_traced c cfg i"
  note hd = fl_hostD[OF assms(1)]
  have i: "i \<in> set (fl_slots_of cfg)" using assms(5) by simp
  have "\<forall>u \<in> set us. held darwin me ?tcfg w (slot_path (fc_dir ?tcfg) n u)"
    using assms(6) fl_holds_held[OF assms(1), of _ n _ me] by (simp del: split_paired_Ex) blast
  then obtain w1 where w1: "drifts w w1" "\<And>r es w'. run me (acquireSlot darwin n ?tcfg i) [] w1 = (r, es, w') \<Longrightarrow>
      (\<forall>e. r = Inl e \<longrightarrow> \<not> errors_is e fl_ErrLocked) \<Longrightarrow> run me (acquire_body darwin n ?tcfg) [] w = (r, es, w')"
    using run_body_slot[of darwin ?tcfg w us i vs me n] hd(2) assms(2,5) by auto
  have r1: "ready (fc_dir cfg) w1" by (rule ready_drifts[OF w1(1) hd(2)])
  note eq = drifts_eqs[OF w1(1)]
  let ?m = "own_marker darwin ?c me ?p w1"
  have "is_dir w1 (path_dir ?p)" using slot_path_facts(1)[OF readyD(2)[OF r1] assms(4)] readyD(3)[OF r1] by simp
  then obtain w2 where w2: "run me (acquireMarker darwin ?p ?c) [] w1 = (Inr (fl_new_holder ?p), [], w2)"
      "effect w1 ((file_content w1)(?p \<mapsto> marker_text ?m)) w2"
    using run_acquireMarker_new[of darwin w1 ?p me ?c] readyD(1)[OF r1] assms(7) eq(1) by (auto simp: fl_states)
  have nd: "\<not> is_dir w1 ?f" using hd(3)[OF assms(4)] eq(3) by simp
  obtain w' v where w': "run me (acquireSlot darwin n ?tcfg i) [] w1 = (Inr ((fl_new_holder ?p)\<lparr>fh_token := v\<rparr>), [], w')"
      "effect w1 ((file_content w1)(?p \<mapsto> marker_text ?m, ?f \<mapsto> dec (unat v) @ [NL])) w'"
    using run_acquireSlot_won[where cfg = ?tcfg and slot = i and w = w1 and name = n and pl = darwin and me = me
        and ?w1.0 = w2 and s = "marker_text ?m"] r1 assms(4) nd w2 by (auto simp: fl_traced_def)
  have "effect w ((file_content w)(?p \<mapsto> marker_text ?m, ?f \<mapsto> dec (unat v) @ [NL])) w'"
    using effect_drifts[OF w1(1) readyD(1)[OF hd(2)] w'(2)] by (simp only: eq(2))
  then show ?thesis
    using w1(2)[OF w'(1)] own_marker_darwin[OF assms(1,3) i w1(1) refl, of ?p]
    by (intro exI[of _ "(fl_new_holder ?p)\<lparr>fh_token := v\<rparr>"] exI[of _ ?m] exI[of _ w']) (simp add: fl_new_holder_def)
qed

lemma fl_ask_free:
  assumes "fl_host c (fl_defaults f) alive w" "alive me" "slash_free n" "fl_slots_of (fl_defaults f) = us @ i # vs"
    and "\<forall>u \<in> set us. \<exists>x. fl_holds alive (fc_dir (fl_defaults f)) w x (n, u)" "fl_unheld (fc_dir (fl_defaults f)) w (n, i)"
  shows "\<exists>h evs w'. run me (fl_factoryAdapter_Acquire darwin c f n) [] (w\<lparr>ctx_err := None\<rparr>) = ((Inr h, evs), [], w') \<and>
    fl_host c (fl_defaults f) alive w' \<and> fl_holds alive (fc_dir (fl_defaults f)) w' (me, h) (n, i) \<and>
    fl_others (fl_defaults f) alive {(n, i)} w w'"
proof -
  let ?w = "w\<lparr>ctx_err := None\<rparr>" and ?cfg = "fl_defaults f"
  let ?p = "slot_path (fc_dir ?cfg) n i" and ?f = "fencePath (fc_dir ?cfg) n"
  have ok: "fl_host c ?cfg alive ?w" using assms(1) by simp
  have i: "i \<in> set (fl_slots_of ?cfg)" using assms(4) by simp
  obtain h m w' where h: "run me (acquire_body darwin n (?cfg\<lparr>fc_traceID := extract_trace (fc_observe ?cfg) c\<rparr>)) [] ?w = (Inr h, [], w')"
    "\<not> fh_released h" "fh_path h = ?p" "marker_ok m" "m_pid m = me" "m_pidStart m = 0" "m_host m = local_host ?w"
    "effect ?w ((file_content ?w)(?p \<mapsto> marker_text m, ?f \<mapsto> dec (unat (fh_token h)) @ [NL])) w'"
    using fl_slot_had[OF ok _ assms(2-4)] assms(5,6) by auto
  note pf = slot_path_facts[OF readyD(2)[OF fl_hostD(2)[OF ok]] assms(3)]
  have host: "fl_host c ?cfg alive w'"
    by (rule fl_host_effect[OF ok h(8)]) (use pf(3)[of i] pf(4) in auto)
  have oth: "fl_others ?cfg alive {(n, i)} ?w w'"
  proof (rule fl_others_effect[OF h(8)])
    fix n' j assume n': "slash_free n'" "j \<in> set (fl_slots_of ?cfg)" "(n', j) \<notin> {(n, i)}"
    have "slot_path (fc_dir ?cfg) n' j \<noteq> ?p"
      using slot_path_inject[OF n'(1) assms(3) fl_slots_kind[OF n'(2) i]] n'(3) by simp
    then show "((file_content ?w)(?p \<mapsto> marker_text m, ?f \<mapsto> dec (unat (fh_token h)) @ [NL])) (slot_path (fc_dir ?cfg) n' j) =
        file_content ?w (slot_path (fc_dir ?cfg) n' j)"
      using slot_path_not_fence[OF n'(1) assms(3)] by simp
  qed
  have new: "fl_holds alive (fc_dir ?cfg) w' (me, finish_holder (fc_observe ?cfg) n (clock w') h) (n, i)"
    using h(2-7) effectD(2,6)[OF h(8)] assms(2) pf(2)[of i]
    by (auto simp: fl_states finish_holder_def local_host_def intro!: exI[of _ m])
  show ?thesis using run_fl_acquire_quiet[OF h(1)] host oth new by (simp add: fl_factory_run fl_translate_def)
qed

lemma fl_give_held:
  assumes "fl_host c cfg alive w" "host_row (fl_slots_of cfg) r" "fl_holds alive (fc_dir cfg) w (me, h) r"
  shows "\<exists>h' evs w'. run me (fl_holderAdapter_Release h) [] w = ((None, h', evs), [], w') \<and> fh_released h' \<and>
    fl_host c cfg alive w' \<and> fl_unheld (fc_dir cfg) w' r \<and> fl_others cfg alive {r} w w'"
proof -
  note hd = fl_hostD[OF assms(1)]
  obtain n i where r: "r = (n, i)" by (cases r)
  have n: "slash_free n" "i \<in> set (fl_slots_of cfg)" using assms(2) r by simp_all
  have h: "\<not> fh_released h" "fh_path h = slot_path (fc_dir cfg) n i" using assms(3) by (simp_all add: r fl_states)
  have nd: "\<not> is_dir w (fh_path h)" using hd(4)[OF n(1)] h(2) by simp
  obtain evs w' where run: "run me (fl_Release h) [] w = ((None, h\<lparr>fh_released := True\<rparr>, evs), [], w')"
      "effect w ((file_content w)(fh_path h := None)) w'"
    using run_Release_quiet[OF readyD(1)[OF hd(2)] h(1) nd] by blast
  have host: "fl_host c cfg alive w'"
    by (rule fl_host_effect[OF assms(1) run(2)]) (use slot_path_facts(3)[OF readyD(2)[OF hd(2)] n(1), of i] h(2) in auto)
  have "fl_unheld (fc_dir cfg) w' r"
    using effectD(2,3)[OF run(2)] nd by (simp add: r lookup_None_iff h(2) fl_states)
  moreover have "fl_others cfg alive {r} w w'"
  proof (rule fl_others_effect[OF run(2)])
    fix m j assume m: "slash_free m" "j \<in> set (fl_slots_of cfg)" "(m, j) \<notin> {r}"
    then have "slot_path (fc_dir cfg) m j \<noteq> fh_path h"
      using slot_path_inject[OF m(1) n(1) fl_slots_kind[OF m(2) n(2)]] by (auto simp: h(2) r)
    then show "((file_content w)(fh_path h := None)) (slot_path (fc_dir cfg) m j) = file_content w (slot_path (fc_dir cfg) m j)"
      by simp
  qed
  ultimately show ?thesis using run(1) host by (simp add: fl_holderAdapter_Release_def)
qed

interpretation flh: host_lock "fl_factoryAdapter_Acquire darwin c f" fl_holderAdapter_Release fl_ErrLocked "fl_slots_of (fl_defaults f)" alive
  "fl_host c (fl_defaults f) alive" "fl_holds alive (fc_dir (fl_defaults f))" "fl_unheld (fc_dir (fl_defaults f))" fh_released
  for c f alive
proof (unfold_locales, goal_cases)
  case (1 w me n e)
  show ?case by (rule fl_ask_fails[OF 1(1)])
next
  case (2 w me n)
  show ?case by (rule fl_ask_busy[OF 2(1,4)])
next
  case (3 w me n us i vs)
  show ?case by (rule fl_ask_free[OF 3])
next
  case (4 w r me h)
  show ?case by (rule fl_give_held[OF 4])
next
  case (5 h me w)
  then show ?case by (simp add: fl_holderAdapter_Release_def fl_Release_def)
next
  case (6 r r' w x)
  obtain n i m j where r: "r = (n, i)" "r' = (m, j)" by (cases r, cases r')
  have n: "slash_free n" "slash_free m" "i \<in> set (fl_slots_of (fl_defaults f))" "j \<in> set (fl_slots_of (fl_defaults f))"
    using 6(1,2) r by simp_all
  have "slot_path (fc_dir (fl_defaults f)) n i = slot_path (fc_dir (fl_defaults f)) m j" using 6(3,4) r by (simp add: fl_states)
  then show ?case using slot_path_inject[OF n(1,2) fl_slots_kind[OF n(3,4)]] r by simp
qed

section \<open>Properties\<close>


text \<open>The scheduler's adapter in process \<open>me\<close>.\<close>

lemma gocron_filelock_table:
  assumes "fl_host c (fl_defaults f) alive w" "alive me"
    and "\<And>n i. slash_free n \<Longrightarrow> lookup w (slot_path (fc_dir (fl_defaults f)) n i) = None"
    and "\<And>q. Ask q \<in> set cs \<Longrightarrow> slash_free (snd q)"
    and l: "l = client_Locker (host_acq (fl_factoryAdapter_Acquire darwin c f)) (host_rel fl_holderAdapter_Release) (Pair me)"
  shows "answers (gc_request l) (gc_return l) cs \<lparr>cl_world = w, cl_objs = []\<rparr> =
    table_answers (\<lambda>q. host_slots (fl_slots_of (fl_defaults f)) (me, q)) (\<lambda>q. host_fails fl_ErrLocked (me, q)) lock_ErrLocked cs (\<lambda>_. None) 0"
  unfolding l
  by (rule flh.proc.gocron_answers[OF client_table_new, OF assms(1)]) (use assms(2-4) in \<open>auto simp: host_row_def host_allowed_def fl_unheld_def\<close>)

lemma host_world_markers:
  assumes "slash_free n"
  shows "lookup host_world (slot_path ''/locks'' n i) = None" "lookup host_world (fencePath ''/locks'' n) = None"
proof -
  obtain x where "slash_free x" "slot_path ''/locks'' n i = markerPath ''/locks'' x" using slot_path_plain[OF assms] by blast
  then show "lookup host_world (slot_path ''/locks'' n i) = None"
    by (simp add: markerPath_eq join_prefix_def lookup_def host_world_def)
  show "lookup host_world (fencePath ''/locks'' n) = None"
    using assms by (simp add: fencePath_eq join_prefix_def lookup_def host_world_def)
qed

text \<open>A lock directory used with two slots per name.\<close>

lemma two_slots:
  "fl_defaults (fl_NewFactory ''/locks'' [fl_WithMaxConcurrent 2]) = (fl_defaultConfig ''/locks'')\<lparr>fc_maxConcurrent := 2\<rparr>"
  "fl_slots_of ((fl_defaultConfig ''/locks'')\<lparr>fc_maxConcurrent := 2\<rparr>) = [0, 1]"
  by (simp_all add: fl_NewFactory_def fl_WithMaxConcurrent_def fl_slots_of_def fl_slots_def upt_rec)

lemma host_world_filelock:
  "fl_host (\<lambda>_. None) (fl_defaults (fl_NewFactory ''/locks'' [fl_WithMaxConcurrent 2])) (\<lambda>p. p = 4242) host_world"
proof -
  let ?cfg = "(fl_defaultConfig ''/locks'')\<lparr>fc_maxConcurrent := 2\<rparr>"
  have tr: "extract_trace (fc_observe ?cfg) (\<lambda>_. None) = []"
    by (simp add: fl_defaultConfig_def extract_trace_def no_observe_def)
  have tr': "extract_trace no_observe (\<lambda>_. None) = []" by (simp add: extract_trace_def no_observe_def)
  have "line_value ''web1''" "line_value []" "line_value ''pid-first''" "line_value ''none''"
    by (auto intro!: line_value_graphic simp: graphic_def)
  then have "marker_ok (marker_of (fl_traced (\<lambda>_. None) ?cfg i) 1 0 (local_host host_world) (clock host_world))" if "i \<in> {0, 1}" for i
    using that by (auto simp: fl_traced_def slot_cfg_def tr tr' marker_ok_def marker_of_def fl_defaultConfig_def local_host_def
        max_rfc3339_def second_def int64_range_def)
  then show ?thesis
    unfolding two_slots fl_host_def is_dir_def
    using host_world_markers ready_host
    by (simp add: fl_defaultConfig_def local_host_def int64_range_def del: host_world_simps(15))
qed


end
