(* ===== verification/Flock_Config.thy ===== *)
theory Flock_Config
  imports Fence
begin

text \<open>
  The configuration of a kernel-fenced lock, \<open>flock/options.go\<close> and \<open>flock/observe.go\<close>: the
  options, how they resolve, and the hooks.  Unlike \<open>filelock\<close>, the trace identifier goes to the
  acquire line of the log, when there is one.
\<close>

section \<open>The configuration\<close>

definition fk_ErrLocked :: gerr where
  "fk_ErrLocked = Sentinel ''flock: already locked''"

declare fk_ErrLocked_def [sentinel_defs]

record fk_config =
  kc_dir :: string
  kc_maxConcurrent :: int
  kc_observe :: observeOptions

definition fk_defaultConfig :: "string \<Rightarrow> fk_config" where
  "fk_defaultConfig tempDir = \<lparr>kc_dir = tempDir, kc_maxConcurrent = 1, kc_observe = no_observe\<rparr>"

type_synonym fk_option = "(fk_config \<Rightarrow> fk_config) option"

fun fk_applyOptions :: "fk_config \<Rightarrow> fk_option list \<Rightarrow> fk_config" where
  "fk_applyOptions cfg [] = cfg"
| "fk_applyOptions cfg (None # opts) = fk_applyOptions cfg opts"
| "fk_applyOptions cfg (Some opt # opts) = fk_applyOptions (opt cfg) opts"

definition fk_WithDir :: "string \<Rightarrow> fk_option" where
  "fk_WithDir dir = Some (\<lambda>c. c\<lparr>kc_dir := dir\<rparr>)"

definition fk_WithMaxConcurrent :: "int \<Rightarrow> fk_option" where
  "fk_WithMaxConcurrent n = Some (\<lambda>c. c\<lparr>kc_maxConcurrent := (if n < 1 then 1 else n)\<rparr>)"

definition fk_WithMetrics :: "nat option \<Rightarrow> fk_option" where
  "fk_WithMetrics r = Some (\<lambda>c. c\<lparr>kc_observe := (kc_observe c)\<lparr>metrics := r\<rparr>\<rparr>)"

definition fk_WithSpanStarter :: "(ctx \<Rightarrow> string \<Rightarrow> ctx) option \<Rightarrow> fk_option" where
  "fk_WithSpanStarter s = Some (\<lambda>c. c\<lparr>kc_observe := (kc_observe c)\<lparr>span := s\<rparr>\<rparr>)"

definition fk_WithLogger :: "nat option \<Rightarrow> fk_option" where
  "fk_WithLogger l = Some (\<lambda>c. c\<lparr>kc_observe := (kc_observe c)\<lparr>logger := l\<rparr>\<rparr>)"

definition fk_WithTraceIDExtractor :: "(ctx \<Rightarrow> string) option \<Rightarrow> fk_option" where
  "fk_WithTraceIDExtractor ext = Some (\<lambda>c. c\<lparr>kc_observe := (kc_observe c)\<lparr>traceID_ext := ext\<rparr>\<rparr>)"

lemmas fk_option_defs [cfg_simps] =
  fk_WithDir_def fk_WithMaxConcurrent_def fk_WithMetrics_def fk_WithSpanStarter_def
  fk_WithLogger_def fk_WithTraceIDExtractor_def fk_defaultConfig_def

lemma fk_applyOptions_append [simp]:
  "fk_applyOptions cfg (xs @ ys) = fk_applyOptions (fk_applyOptions cfg xs) ys"
  by (induction cfg xs rule: fk_applyOptions.induct) auto

section \<open>The hooks\<close>

definition fk_startSpan :: "observeOptions \<Rightarrow> ctx \<Rightarrow> string \<Rightarrow> ctx \<times> obs_event list" where
  "fk_startSpan obs c op = start_span obs c op"

definition fk_recordAcquire ::
  "observeOptions \<Rightarrow> string \<Rightarrow> string \<Rightarrow> duration \<Rightarrow> string \<Rightarrow> err \<Rightarrow> obs_event list" where
  "fk_recordAcquire obs n oc d traceID e =
     metric_acquire obs n oc d @
     log_acquire ''flock'' obs n oc d (if traceID \<noteq> [] then Some traceID else None) e"

definition fk_recordActive :: "observeOptions \<Rightarrow> string \<Rightarrow> int \<Rightarrow> obs_event list" where
  "fk_recordActive obs n delta = record_active obs n delta"

definition fk_recordHold :: "observeOptions \<Rightarrow> string \<Rightarrow> duration \<Rightarrow> obs_event list" where
  "fk_recordHold obs n d = record_hold ''flock'' obs n d"

definition fk_extractTraceID :: "observeOptions \<Rightarrow> ctx \<Rightarrow> string" where
  "fk_extractTraceID obs c = extract_trace obs c"

definition fk_outcomeFor :: "err \<Rightarrow> string" where
  "fk_outcomeFor e = outcome_for fk_ErrLocked e"

lemma fk_hooks [simp]:
  "gauge r n (fk_recordAcquire obs m oc d t e) = 0"
  "gauge r n (fk_recordHold obs m d) = 0"
  "gauge r n (snd (fk_startSpan obs c op)) = 0"
  "gauge r n (fk_recordActive obs m k) = (if metrics obs = Some r \<and> m = n then k else 0)"
  "attempts r (fk_recordAcquire obs m oc d t e) = (if metrics obs = Some r then [(m, oc)] else [])"
  "attempts r (fk_recordHold obs m d) = []"
  "attempts r (fk_recordActive obs m k) = []"
  "attempts r (snd (fk_startSpan obs c op)) = []"
  by (simp_all add: fk_recordAcquire_def fk_recordActive_def fk_recordHold_def fk_startSpan_def)

lemma fk_outcome_acquired [simp]: "fk_outcomeFor e = OutcomeAcquired \<longleftrightarrow> e = None"
  by (simp add: fk_outcomeFor_def)

section \<open>Properties of the options\<close>

text \<open>The fields an option of the package sets; later options win, per-call over factory.\<close>

definition fk_public_option :: "fk_option \<Rightarrow> bool" where
  "fk_public_option opt \<longleftrightarrow> opt = None \<or> (\<exists>d. opt = fk_WithDir d) \<or> (\<exists>n. opt = fk_WithMaxConcurrent n) \<or>
     (\<exists>r. opt = fk_WithMetrics r) \<or> (\<exists>s. opt = fk_WithSpanStarter s) \<or>
     (\<exists>l. opt = fk_WithLogger l) \<or> (\<exists>e. opt = fk_WithTraceIDExtractor e)"

lemma fk_apply_max:
  "1 \<le> kc_maxConcurrent c \<Longrightarrow> list_all fk_public_option opts \<Longrightarrow> 1 \<le> kc_maxConcurrent (fk_applyOptions c opts)"
proof (induction c opts rule: fk_applyOptions.induct)
  case (3 cfg opt opts)
  from 3(2,3) have "1 \<le> kc_maxConcurrent (opt cfg)"
    by (auto simp: fk_public_option_def cfg_simps)
  with 3 show ?case by simp
qed simp_all

end
