(* ===== verification/Flock.thy ===== *)
theory Flock
  imports Flock_Config
begin

text \<open>
  \<open>flock/lock.go\<close>, \<open>lock_unix.go\<close>, \<open>lock_windows.go\<close>, \<open>holder.go\<close>, \<open>fence.go\<close>,
  \<open>factory.go\<close> and \<open>locker_adapter.go\<close>: a lock is the kernel's advisory lock on an open file.
  What the build tags select, the translation of the lock call's error, is a parameter with the
  two functions the repository has.
\<close>

section \<open>Holders and paths\<close>

record fk_holder =
  kh_path :: string
  kh_file :: nat
  kh_token :: "64 word"
  kh_name :: string
  kh_acquiredAt :: gtime
  kh_observe :: observeOptions
  kh_released :: bool

definition fk_Holder_Path :: "fk_holder \<Rightarrow> string" where
  "fk_Holder_Path h = kh_path h"

definition fk_Holder_Token :: "fk_holder \<Rightarrow> 64 word" where
  "fk_Holder_Token h = kh_token h"

definition lockPath :: "string \<Rightarrow> string \<Rightarrow> string" where
  "lockPath dir name = path_join dir (name @ ''.lock'')"

definition slotLockPath :: "string \<Rightarrow> string \<Rightarrow> int \<Rightarrow> string" where
  "slotLockPath dir name slot = path_join dir (name @ ''.'' @ itoa slot @ ''.lock'')"

section \<open>The kernel's lock\<close>

text \<open>
  \<open>EWOULDBLOCK\<close> and \<open>EAGAIN\<close> are one number on the platforms Go supports.
\<close>

definition tryLock_unix :: "nat \<Rightarrow> err prog" where
  "tryLock_unix fd = FlockNB fd (\<lambda>r. Ret (case r of
     None \<Rightarrow> None
   | Some e \<Rightarrow> if e = EWOULDBLOCK then Some fk_ErrLocked else Some (Errno e)))"

text \<open>
  \<open>LockFileEx\<close> answers 33 where \<open>flock\<close> answers \<open>EWOULDBLOCK\<close>.
\<close>

definition errLockViolation :: errno where
  "errLockViolation = ErrnoOther 33"

definition lockFileEx :: "fault \<Rightarrow> fault" where
  "lockFileEx r = (if r = Some EWOULDBLOCK then Some errLockViolation else r)"

definition tryLock_windows :: "nat \<Rightarrow> err prog" where
  "tryLock_windows fd = FlockNB fd (\<lambda>r. Ret (case lockFileEx r of
     None \<Rightarrow> None
   | Some e \<Rightarrow> if e = errLockViolation then Some fk_ErrLocked else Some (Errno e)))"

section \<open>Fencing\<close>

text \<open>\<open>flock/fence.go\<close> is the code of \<open>filelock/fence.go\<close> with another prefix.\<close>

definition fk_fencePath :: "string \<Rightarrow> string \<Rightarrow> string" where
  "fk_fencePath dir name = fencePath dir name"

definition fk_readFence :: "string \<Rightarrow> 64 word prog" where
  "fk_readFence path = readFence path"

definition fk_writeFence :: "string \<Rightarrow> 64 word \<Rightarrow> err prog" where
  "fk_writeFence path v = writeFence ''flock'' path v"

definition fk_bumpFence :: "string \<Rightarrow> string \<Rightarrow> 64 word prog" where
  "fk_bumpFence dir name =
     (let path = fk_fencePath dir name in
        bind (fk_readFence path) (\<lambda>prev.
          let nxt = prev + 1 in
            bind (fk_writeFence path nxt) (\<lambda>e. Ret (case e of Some x \<Rightarrow> 0 | None \<Rightarrow> nxt))))"

lemma fk_bumpFence_eq: "fk_bumpFence dir name = bumpFence ''flock'' dir name"
  by (simp add: fk_bumpFence_def bumpFence_def fk_fencePath_def fk_readFence_def fk_writeFence_def)

section \<open>Acquire\<close>

type_synonym try_lock = "nat \<Rightarrow> err prog"

definition fk_acquireSlot :: "try_lock \<Rightarrow> string \<Rightarrow> fk_config \<Rightarrow> int \<Rightarrow> fk_holder res prog" where
  "fk_acquireSlot tryLock name cfg slot =
     (let path = (if slot < 0 then lockPath (kc_dir cfg) name else slotLockPath (kc_dir cfg) name slot)
      in OpenRW path (\<lambda>r. case r of
           Inl e \<Rightarrow> Ret (Inl (Wrap ''flock: open'' (Wrap (''open '' @ path) (Errno e))))
         | Inr f \<Rightarrow>
             bind (tryLock f) (\<lambda>lockErr. case lockErr of
               Some err \<Rightarrow> CloseFd f (\<lambda>_.
                 if errors_is err fk_ErrLocked then Ret (Inl fk_ErrLocked)
                 else Ret (Inl (Wrap ''flock: lock'' err)))
             | None \<Rightarrow>
                 bind (fk_bumpFence (kc_dir cfg) name) (\<lambda>token.
                   Ret (Inr \<lparr>kh_path = path, kh_file = f, kh_token = token, kh_name = [], kh_acquiredAt = 0,
                              kh_observe = no_observe, kh_released = False\<rparr>)))))"

fun fk_acquire_slots :: "try_lock \<Rightarrow> string \<Rightarrow> fk_config \<Rightarrow> int list \<Rightarrow> fk_holder res prog" where
  "fk_acquire_slots tryLock name cfg [] = Ret (Inl fk_ErrLocked)"
| "fk_acquire_slots tryLock name cfg (slot # slots) =
     bind (fk_acquireSlot tryLock name cfg slot) (\<lambda>r. case r of
       Inr h \<Rightarrow> Ret (Inr h)
     | Inl e \<Rightarrow> if errors_is e fk_ErrLocked then fk_acquire_slots tryLock name cfg slots else Ret (Inl e))"

definition fk_acquire_body :: "try_lock \<Rightarrow> string \<Rightarrow> fk_config \<Rightarrow> fk_holder res prog" where
  "fk_acquire_body tryLock name cfg =
     CtxErr (\<lambda>ctxErr. case ctxErr of
       Some e \<Rightarrow> Ret (Inl e)
     | None \<Rightarrow>
         MkdirAll (kc_dir cfg) (\<lambda>mkErr. case mkErr of
           Some e \<Rightarrow> Ret (Inl (Wrap ''flock: mkdir'' (Errno e)))
         | None \<Rightarrow>
             if kc_maxConcurrent cfg \<le> 1 then fk_acquireSlot tryLock name cfg (- 1)
             else fk_acquire_slots tryLock name cfg (map int [0..<nat (kc_maxConcurrent cfg)])))"

definition fk_acquire ::
  "try_lock \<Rightarrow> ctx \<Rightarrow> string \<Rightarrow> fk_config \<Rightarrow> (fk_holder res \<times> obs_event list) prog" where
  "fk_acquire tryLock c name cfg =
     Now (\<lambda>start.
       let obs = kc_observe cfg;
           traceID = fk_extractTraceID obs c;
           ev1 = snd (fk_startSpan obs c ''flock.Acquire'')
       in bind (fk_acquire_body tryLock name cfg) (\<lambda>r.
            Now (\<lambda>done.
              let e = err_of r; outcome = fk_outcomeFor e;
                  evs = ev1 @ finish_span obs e @ fk_recordAcquire obs name outcome (time_sub done start) traceID e
              in if outcome = OutcomeAcquired then
                   (case r of
                      Inr h \<Rightarrow> Now (\<lambda>now. Ret
                        (Inr (h\<lparr>kh_observe := obs, kh_name := name, kh_acquiredAt := now\<rparr>),
                         evs @ fk_recordActive obs name 1))
                    | Inl x \<Rightarrow> Ret (r, evs @ fk_recordActive obs name 1))
                 else Ret (r, evs))))"

section \<open>Release\<close>

definition fk_release_err :: "fault \<Rightarrow> fault \<Rightarrow> err" where
  "fk_release_err closeErr removeErr =
     (if closeErr = None \<and> (case removeErr of None \<Rightarrow> True
          | Some e \<Rightarrow> errors_is (Wrap ''remove'' (Errno e)) os_ErrNotExist) then None
      else (case closeErr of
              Some e \<Rightarrow> Some (Wrap ''flock: close'' (Wrap ''close'' (Errno e)))
            | None \<Rightarrow> (case removeErr of
                Some e \<Rightarrow> Some (Wrap ''flock: remove'' (Wrap ''remove'' (Errno e)))
              | None \<Rightarrow> None)))"

definition fk_Release :: "fk_holder \<Rightarrow> (err \<times> fk_holder \<times> obs_event list) prog" where
  "fk_Release h =
     (if kh_released h then Ret (None, h, [])
      else
        CloseFd (kh_file h) (\<lambda>closeErr.
          RemovePath (kh_path h) (\<lambda>removeErr.
            let h' = h\<lparr>kh_released := True\<rparr>; e = fk_release_err closeErr removeErr;
                active = fk_recordActive (kh_observe h) (kh_name h) (- 1)
            in if \<not> isZero (kh_acquiredAt h)
               then Now (\<lambda>now. Ret (e, h',
                      fk_recordHold (kh_observe h) (kh_name h) (time_sub now (kh_acquiredAt h)) @ active))
               else Ret (e, h', active))))"

section \<open>Locks, factories and adapters\<close>

record fk_lock =
  fk_name :: string
  fk_cfg :: fk_config

definition fk_New :: "string \<Rightarrow> string \<Rightarrow> fk_option list \<Rightarrow> fk_lock" where
  "fk_New tempDir name opts = \<lparr>fk_name = name, fk_cfg = fk_applyOptions (fk_defaultConfig tempDir) opts\<rparr>"

definition fk_Lock_Name :: "fk_lock \<Rightarrow> string" where
  "fk_Lock_Name l = fk_name l"

definition fk_Lock_Path :: "fk_lock \<Rightarrow> string" where
  "fk_Lock_Path l = lockPath (kc_dir (fk_cfg l)) (fk_name l)"

definition fk_Lock_Acquire ::
  "try_lock \<Rightarrow> ctx \<Rightarrow> fk_lock \<Rightarrow> fk_option list \<Rightarrow> (fk_holder res \<times> obs_event list) prog" where
  "fk_Lock_Acquire tryLock c l opts =
     (let cfg = fk_applyOptions (fk_cfg l) opts in fk_acquire tryLock c (fk_name l) cfg)"

record fk_factory =
  fk_defaults :: fk_config

definition fk_NewFactory :: "string \<Rightarrow> fk_option list \<Rightarrow> fk_factory" where
  "fk_NewFactory tempDir opts = \<lparr>fk_defaults = fk_applyOptions (fk_defaultConfig tempDir) opts\<rparr>"

definition fk_Factory_Acquire ::
  "try_lock \<Rightarrow> ctx \<Rightarrow> fk_factory \<Rightarrow> string \<Rightarrow> fk_option list \<Rightarrow> (fk_holder res \<times> obs_event list) prog" where
  "fk_Factory_Acquire tryLock c f name opts =
     (let cfg = fk_applyOptions (fk_defaults f) opts in fk_acquire tryLock c name cfg)"

definition fk_with :: "(fk_holder res \<times> obs_event list) prog \<Rightarrow> fn_res prog \<Rightarrow> (fn_res \<times> obs_event list) prog" where
  "fk_with acq fn =
     bind acq (\<lambda>(r, evs). case r of
       Inl acqErr \<Rightarrow> Ret (Returned (Some acqErr), evs)
     | Inr holder \<Rightarrow>
         bind fn (\<lambda>x. bind (fk_Release holder) (\<lambda>(relErr, h', evs').
           Ret (merge_release x relErr, evs @ evs'))))"

definition fk_Factory_WithLock ::
  "try_lock \<Rightarrow> ctx \<Rightarrow> fk_factory \<Rightarrow> string \<Rightarrow> fn_res prog \<Rightarrow> fk_option list \<Rightarrow> (fn_res \<times> obs_event list) prog" where
  "fk_Factory_WithLock tryLock c f name fn opts = fk_with (fk_Factory_Acquire tryLock c f name opts) fn"

definition fk_WithLock ::
  "try_lock \<Rightarrow> ctx \<Rightarrow> fk_lock \<Rightarrow> fn_res prog \<Rightarrow> fk_option list \<Rightarrow> (fn_res \<times> obs_event list) prog" where
  "fk_WithLock tryLock c l fn opts = fk_with (fk_Lock_Acquire tryLock c l opts) fn"

definition fk_translate :: "fk_holder res \<Rightarrow> fk_holder res" where
  "fk_translate r = (case r of
     Inl e \<Rightarrow> if e = fk_ErrLocked then Inl lock_ErrLocked else Inl e
   | Inr h \<Rightarrow> Inr h)"

definition fk_factoryAdapter_Acquire ::
  "try_lock \<Rightarrow> ctx \<Rightarrow> fk_factory \<Rightarrow> string \<Rightarrow> (fk_holder res \<times> obs_event list) prog" where
  "fk_factoryAdapter_Acquire tryLock c f name =
     bind (fk_Factory_Acquire tryLock c f name []) (\<lambda>(r, evs). Ret (fk_translate r, evs))"

definition fk_lockAdapter_Acquire ::
  "try_lock \<Rightarrow> ctx \<Rightarrow> fk_lock \<Rightarrow> string \<Rightarrow> (fk_holder res \<times> obs_event list) prog" where
  "fk_lockAdapter_Acquire tryLock c l _ =
     bind (fk_Lock_Acquire tryLock c l []) (\<lambda>(r, evs). Ret (fk_translate r, evs))"

definition fk_holderAdapter_Release :: "fk_holder \<Rightarrow> (err \<times> fk_holder \<times> obs_event list) prog" where
  "fk_holderAdapter_Release h = fk_Release h"

end
