(* ===== verification/Flock_Spec.thy ===== *)
theory Flock_Spec
  imports Flock
begin

text \<open>
  What the programs of \<open>flock\<close> do when the process is not disturbed: opening and locking a slot,
  passing over slots that another open file has locked, the fence, and the events.
\<close>

section \<open>Paths\<close>

definition fk_slot_path :: "string \<Rightarrow> string \<Rightarrow> int \<Rightarrow> string" where
  "fk_slot_path dir name slot = (if slot < 0 then lockPath dir name else slotLockPath dir name slot)"

lemma slotLockPath_alt: "slotLockPath dir n i = lockPath dir (n @ ''.'' @ itoa i)"
  by (simp add: slotLockPath_def lockPath_def)

lemma lockPath_eq: "CHR ''/'' \<notin> set n \<Longrightarrow> lockPath dir n = join_prefix dir @ n @ ''.lock''"
  unfolding lockPath_def by (rule path_join_plain) (rule plain_ext)

lemma fk_fencePath_eq: "CHR ''/'' \<notin> set n \<Longrightarrow> fencePath dir n = join_prefix dir @ n @ ''.fence''"
  unfolding fencePath_def by (rule path_join_plain) (rule plain_ext)

lemma fk_slot_plain:
  assumes "CHR ''/'' \<notin> set n"
  obtains x where "CHR ''/'' \<notin> set x" "fk_slot_path dir n i = lockPath dir x"
  using assms plain_slot[OF assms, of i] that unfolding fk_slot_path_def slotLockPath_alt by metis

lemma lockPath_plain:
  assumes "CHR ''/'' \<notin> set n" "CHR ''/'' \<notin> set m"
  shows "lockPath dir n = lockPath dir m \<longleftrightarrow> n = m" "lockPath dir n \<noteq> fencePath dir m"
proof -
  show "lockPath dir n = lockPath dir m \<longleftrightarrow> n = m" using assms by (simp add: lockPath_eq)
  have "last (lockPath dir n) = CHR ''k''" "last (fencePath dir m) = CHR ''e''" using assms by (simp_all add: lockPath_eq fk_fencePath_eq)
  then show "lockPath dir n \<noteq> fencePath dir m" by auto
qed

lemma fk_slot_path_inject:
  assumes "CHR ''/'' \<notin> set n" "CHR ''/'' \<notin> set m" "i = - 1 \<and> j = - 1 \<or> 0 \<le> i \<and> 0 \<le> j"
  shows "fk_slot_path dir n i = fk_slot_path dir m j \<longleftrightarrow> n = m \<and> i = j"
proof (cases "0 \<le> i")
  case True
  then have "fk_slot_path dir n i = fk_slot_path dir m j \<longleftrightarrow> n @ ''.'' @ itoa i = m @ ''.'' @ itoa j"
    using assms(3) lockPath_plain(1)[OF plain_slot[OF assms(1), of i] plain_slot[OF assms(2), of j]]
    by (simp add: fk_slot_path_def slotLockPath_alt)
  then show ?thesis using True assms(3) itoa_after_inject[of i j "CHR ''.''" n m] by (auto simp: is_digit_def)
next
  case False
  then show ?thesis using assms lockPath_plain(1)[OF assms(1,2)] by (auto simp: fk_slot_path_def)
qed

lemma fk_slot_not_fence:
  assumes "CHR ''/'' \<notin> set n" "CHR ''/'' \<notin> set m"
  shows "fk_slot_path dir n i \<noteq> fencePath dir m"
  using fk_slot_plain[OF assms(1), of dir i] lockPath_plain(2)[OF _ assms(2)] by metis

lemma fk_slot_facts:
  assumes "dir \<noteq> []" "CHR ''/'' \<notin> set n"
  shows "path_dir (fk_slot_path dir n i) = path_clean dir" "fk_slot_path dir n i \<noteq> fencePath dir n"
    "no_digit_end (fk_slot_path dir n i)" "no_digit_end (fencePath dir n)"
proof -
  obtain x where x: "CHR ''/'' \<notin> set x" "fk_slot_path dir n i = lockPath dir x"
    using fk_slot_plain[OF assms(2)] by blast
  show "path_dir (fk_slot_path dir n i) = path_clean dir"
    unfolding x(2) lockPath_def by (rule path_dir_join) (use assms x plain_ext in auto)
  have "last (lockPath dir x) = CHR ''k''" "last (fencePath dir n) = CHR ''e''"
    using x assms by (simp_all add: lockPath_eq fk_fencePath_eq)
  then show "fk_slot_path dir n i \<noteq> fencePath dir n" using x(2) by auto
  show "no_digit_end (fk_slot_path dir n i)" "no_digit_end (fencePath dir n)"
    using x assms last_lock[of "join_prefix dir @ x"] last_lock[of "join_prefix dir @ n"]
    by (simp_all add: lockPath_eq fk_fencePath_eq)
qed

section \<open>A directory ready for locks\<close>

definition fk_ready :: "string \<Rightarrow> world \<Rightarrow> bool" where
  "fk_ready dir w \<longleftrightarrow> wf_world w \<and> dir \<noteq> [] \<and> is_dir w (path_clean dir) \<and>
     (\<forall>k \<ge> temp_seq w. lookup w (join_prefix (path_clean dir) @ ''.flock-fence-'' @ dec k) = None)"

lemma fk_readyD:
  "fk_ready dir w \<Longrightarrow> wf_world w" "fk_ready dir w \<Longrightarrow> dir \<noteq> []" "fk_ready dir w \<Longrightarrow> is_dir w (path_clean dir)"
  by (simp_all add: fk_ready_def)

lemma fk_ready_temp:
  "fk_ready dir w \<Longrightarrow> temp_ok (path_clean dir) (''.'' @ ''flock'' @ ''-fence-'') w"
  using temp_free_first[of w "join_prefix (path_clean dir) @ ''.flock-fence-''"]
  by (simp add: fk_ready_def temp_ok_def)

text \<open>States with the same directories and the same files but for those whose names do not end in a digit.\<close>

lemma fk_ready_transfer:
  assumes "fk_ready dir w" "wf_world w'" "is_dir w' = is_dir w" "temp_seq w \<le> temp_seq w'"
    and "\<And>p. \<not> no_digit_end p \<Longrightarrow> file_content w' p = file_content w p"
  shows "fk_ready dir w'"
proof -
  have l: "lookup w' (x @ y @ dec k) = None" if "lookup w (x @ y @ dec k) = None" for x y k
    using that assms(3) assms(5)[of "x @ y @ dec k"] temp_name_digit[of "x @ y @ dec k" x y k]
    by (auto simp: lookup_None_iff)
  show ?thesis
    unfolding fk_ready_def
  proof (intro conjI allI impI)
    show "wf_world w'" "dir \<noteq> []" "is_dir w' (path_clean dir)" using assms(1-3) by (simp_all add: fk_ready_def)
    fix k assume "temp_seq w' \<le> k"
    then have "temp_seq w \<le> k" using assms(4) by simp
    with assms(1) show "lookup w' (join_prefix (path_clean dir) @ ''.flock-fence-'' @ dec k) = None"
      by (simp only: fk_ready_def l)
  qed
qed

section \<open>Opening and locking\<close>

lemma flocks_state [simp]:
  "lookup (w\<lparr>flocks := x\<rparr>) = lookup w" "is_dir (w\<lparr>flocks := x\<rparr>) = is_dir w"
  "file_content (w\<lparr>flocks := x\<rparr>) = file_content w"
proof -
  have l: "lookup (w\<lparr>flocks := x\<rparr>) = lookup w" "inodes (w\<lparr>flocks := x\<rparr>) = inodes w"
    by (simp_all add: lookup_def fun_eq_iff)
  show "lookup (w\<lparr>flocks := x\<rparr>) = lookup w" "is_dir (w\<lparr>flocks := x\<rparr>) = is_dir w"
    "file_content (w\<lparr>flocks := x\<rparr>) = file_content w"
    by (rule ext; unfold file_content_def is_dir_def l; rule refl)+
qed

text \<open>The state after \<open>OpenFile\<close> with \<open>O_CREATE\<close>: a new open file on the inode at the path.\<close>

definition opened :: "int \<Rightarrow> string \<Rightarrow> nat \<Rightarrow> world \<Rightarrow> world \<Rightarrow> bool" where
  "opened me p i w w1 \<longleftrightarrow> wf_world w1 \<and> lookup w1 = (lookup w)(p \<mapsto> FileEntry i) \<and>
     fds w1 = AList.update (next_fd w) (me, i) (fds w) \<and> flocks w1 = flocks w \<and> next_fd w1 = Suc (next_fd w) \<and>
     file_content w1 = (file_content w)(p \<mapsto> (case file_content w p of None \<Rightarrow> [] | Some s \<Rightarrow> s)) \<and>
     is_dir w1 = is_dir w \<and> temp_seq w1 = temp_seq w \<and> clock w1 = clock w \<and> ctx_err w1 = ctx_err w \<and>
     kill_res w1 = kill_res w \<and> host_res w1 = host_res w \<and>
     (lookup w p = Some (FileEntry i) \<or> lookup w p = None \<and> i = next_ino w)"

lemma openedD:
  assumes "opened me p i w w1"
  shows "wf_world w1" "lookup w1 = (lookup w)(p \<mapsto> FileEntry i)" "fds w1 = AList.update (next_fd w) (me, i) (fds w)"
    "flocks w1 = flocks w" "next_fd w1 = Suc (next_fd w)"
    "file_content w1 = (file_content w)(p \<mapsto> (case file_content w p of None \<Rightarrow> [] | Some s \<Rightarrow> s))"
    "is_dir w1 = is_dir w" "temp_seq w1 = temp_seq w" "clock w1 = clock w" "ctx_err w1 = ctx_err w"
    "kill_res w1 = kill_res w" "host_res w1 = host_res w"
    "lookup w p = Some (FileEntry i) \<or> lookup w p = None \<and> i = next_ino w"
  using assms by (simp_all only: opened_def)

lemma wf_lookup: "wf_world w \<Longrightarrow> lookup w p = Some (FileEntry i) \<Longrightarrow> 0 < i \<and> i < next_ino w"
  unfolding wf_world_def by blast

lemma wf_flocked:
  "wf_world w \<Longrightarrow> i < next_ino w \<Longrightarrow> fd < next_fd w \<Longrightarrow> wf_world (w\<lparr>flocks := (i, fd) # flocks w\<rparr>)"
  unfolding wf_world_def flocks_state by simp

lemma wf_fresh:
  assumes "wf_world w"
  shows "map_of (flocks w) (next_ino w) = None" "next_fd w \<notin> fst ` set (fds w)" "next_fd w \<notin> snd ` set (flocks w)"
proof -
  show "next_fd w \<notin> snd ` set (flocks w)" using assms unfolding wf_world_def by fastforce
  have "next_ino w \<notin> fst ` set (flocks w)" using assms unfolding wf_world_def by fastforce
  then show "map_of (flocks w) (next_ino w) = None" by (simp add: map_of_eq_None_iff)
  show "next_fd w \<notin> fst ` set (fds w)" using assms unfolding wf_world_def by blast
qed

lemma wf_with_fd:
  assumes "wf_world w" "lookup w p = Some (FileEntry i)"
  shows "wf_world (with_fd me i w)"
proof -
  have "fst ` set (AList.update (next_fd w) (me, i) (fds w)) = insert (next_fd w) (fst ` set (fds w))"
    by (simp add: dom_update)
  then show ?thesis
    using assms(1) unfolding wf_world_def with_fd_def open_fd_def by (auto simp: lookup_def less_Suc_eq)
qed

lemma run_open_rw:
  assumes "wf_world w" "\<not> is_dir w p" "is_dir w (path_dir p)"
  shows "\<exists>w1 i. sys_open_rw me p None w = (w1, Inr (next_fd w)) \<and> opened me p i w w1"
proof (cases "lookup w p")
  case None
  have wf: "wf_world (open_file me p [] w)" using assms(1) by simp
  have "lookup (open_file me p [] w) = (lookup w)(p \<mapsto> FileEntry (next_ino w))"
    "is_dir (open_file me p [] w) = is_dir w"
    "file_content (open_file me p [] w) = (file_content w)(p \<mapsto> [])"
    using assms(1,2) None
    by (auto simp: open_file_def with_fd_def open_fd_def lookup_def file_content_def is_dir_def fun_eq_iff
        wf_world_def split: option.splits entry.splits)
  moreover have "file_content w p = None" using None by (simp add: file_content_def)
  ultimately have "opened me p (next_ino w) w (open_file me p [] w)"
    unfolding opened_def using wf None
    by (simp add: open_file_def with_fd_def open_fd_def)
  with None assms(3) show ?thesis by (intro exI[of _ "open_file me p [] w"] exI[of _ "next_ino w"]) simp
next
  case (Some e)
  then obtain i where i: "lookup w p = Some (FileEntry i)" using assms(2) by (cases e) (auto simp: is_dir_def)
  have eq: "lookup (with_fd me i w) = lookup w" "inodes (with_fd me i w) = inodes w"
    by (simp_all add: with_fd_def open_fd_def lookup_def fun_eq_iff)
  have "file_content (with_fd me i w) = file_content w" "is_dir (with_fd me i w) = is_dir w"
    by (rule ext; unfold file_content_def is_dir_def eq; rule refl)+
  moreover have "lookup w = (lookup w)(p \<mapsto> FileEntry i)" "file_content w p = Some (inodes w i)"
    using i by (auto simp: file_content_def)
  ultimately have "opened me p i w (with_fd me i w)"
    unfolding opened_def eq using i wf_with_fd[OF assms(1) i]
    by (auto simp: with_fd_def open_fd_def)
  with i show ?thesis by (intro exI[of _ "with_fd me i w"] exI[of _ i]) simp
qed

section \<open>One slot\<close>

text \<open>The two translations of the lock call.\<close>

definition native_lock :: "try_lock \<Rightarrow> bool" where
  "native_lock tlk \<longleftrightarrow> tlk = tryLock_unix \<or> tlk = tryLock_windows"

lemma run_tryLock:
  assumes "native_lock tlk" "map_of (fds w) fd = Some (me', i)"
  shows "map_of (flocks w) i = None \<Longrightarrow> run me (tlk fd) [] w = (None, [], w\<lparr>flocks := (i, fd) # flocks w\<rparr>)"
    "map_of (flocks w) i = Some g \<Longrightarrow> g \<noteq> fd \<Longrightarrow> run me (tlk fd) [] w = (Some fk_ErrLocked, [], w)"
  using assms by (auto simp: native_lock_def tryLock_unix_def tryLock_windows_def lockFileEx_def sys_flock_def)

text \<open>A path some open file has locked, and one that can be locked.\<close>

definition fk_locked :: "world \<Rightarrow> string \<Rightarrow> bool" where
  "fk_locked w p \<longleftrightarrow> (\<exists>i g. lookup w p = Some (FileEntry i) \<and> map_of (flocks w) i = Some g)"

definition fk_free :: "world \<Rightarrow> string \<Rightarrow> bool" where
  "fk_free w p \<longleftrightarrow> \<not> is_dir w p \<and> (\<forall>i. lookup w p = Some (FileEntry i) \<longrightarrow> map_of (flocks w) i = None)"

lemma fk_states [simp]:
  "fk_locked (bump_fd w) p = fk_locked w p" "fk_free (bump_fd w) p = fk_free w p"
  by (simp_all add: fk_locked_def fk_free_def)

lemma fk_slot_alt:
  "fk_acquireSlot tlk name cfg slot =
     OpenRW (fk_slot_path (kc_dir cfg) name slot) (\<lambda>r. case r of
           Inl e \<Rightarrow> Ret (Inl (Wrap ''flock: open'' (Wrap (''open '' @ fk_slot_path (kc_dir cfg) name slot) (Errno e))))
         | Inr f \<Rightarrow>
             bind (tlk f) (\<lambda>lockErr. case lockErr of
               Some err \<Rightarrow> CloseFd f (\<lambda>_.
                 if errors_is err fk_ErrLocked then Ret (Inl fk_ErrLocked)
                 else Ret (Inl (Wrap ''flock: lock'' err)))
             | None \<Rightarrow>
                 bind (fk_bumpFence (kc_dir cfg) name) (\<lambda>token.
                   Ret (Inr \<lparr>kh_path = fk_slot_path (kc_dir cfg) name slot, kh_file = f, kh_token = token, kh_name = [], kh_acquiredAt = 0,
                              kh_observe = no_observe, kh_released = False\<rparr>))))"
  by (simp add: fk_acquireSlot_def fk_slot_path_def Let_def)

lemma run_slot_locked:
  assumes "native_lock tlk" "wf_world w" "fk_locked w (fk_slot_path (kc_dir cfg) name slot)"
  shows "run me (fk_acquireSlot tlk name cfg slot) [] w = (Inl fk_ErrLocked, [], bump_fd w)"
proof -
  obtain i g where i: "lookup w (fk_slot_path (kc_dir cfg) name slot) = Some (FileEntry i)" "map_of (flocks w) i = Some g"
    using assms(3) by (auto simp: fk_locked_def)
  have "g \<noteq> next_fd w" using assms(2) map_of_SomeD[OF i(2)] by (fastforce simp: wf_world_def)
  moreover have "flocks (with_fd me i w) = flocks w" by (simp add: with_fd_def open_fd_def)
  ultimately have "run me (tlk (next_fd w)) [] (with_fd me i w) = (Some fk_ErrLocked, [], with_fd me i w)"
    using run_tryLock(2)[OF assms(1) fds_with_fd] i(2) by simp
  then show ?thesis using i(1) assms(2) by (simp add: fk_slot_alt)
qed

text \<open>What a successful acquire leaves: the lock on the inode at the path, held by the holder's file.\<close>

definition fk_owns :: "int \<Rightarrow> fk_holder \<Rightarrow> world \<Rightarrow> world \<Rightarrow> bool" where
  "fk_owns me h w w' \<longleftrightarrow> wf_world w' \<and> is_dir w' = is_dir w \<and> temp_seq w \<le> temp_seq w' \<and> clock w' = clock w \<and>
     ctx_err w' = ctx_err w \<and> kill_res w' = kill_res w \<and> host_res w' = host_res w \<and>
     (\<exists>i. lookup w' (kh_path h) = Some (FileEntry i) \<and> map_of (flocks w) i = None \<and>
        (lookup w (kh_path h) = Some (FileEntry i) \<or> lookup w (kh_path h) = None \<and> i = next_ino w) \<and>
        flocks w' = (i, kh_file h) # flocks w \<and>
        fds w' = AList.update (kh_file h) (me, i) (fds w)) \<and>
     kh_file h \<notin> fst ` set (fds w) \<and> kh_file h \<notin> snd ` set (flocks w)"

lemma run_slot_free:
  assumes "native_lock tlk" "fk_ready (kc_dir cfg) w" "CHR ''/'' \<notin> set name" "\<not> is_dir w (fencePath (kc_dir cfg) name)"
    and "fk_free w (fk_slot_path (kc_dir cfg) name slot)"
  shows "\<exists>h w'. run me (fk_acquireSlot tlk name cfg slot) [] w = (Inr h, [], w') \<and> fk_owns me h w w' \<and>
    kh_path h = fk_slot_path (kc_dir cfg) name slot \<and> \<not> kh_released h \<and>
    kh_token h = fence_value w (fencePath (kc_dir cfg) name) + 1 \<and>
    file_content w' = (file_content w)(kh_path h \<mapsto> (case file_content w (kh_path h) of None \<Rightarrow> [] | Some s \<Rightarrow> s),
      fencePath (kc_dir cfg) name \<mapsto> dec (unat (kh_token h)) @ [NL]) \<and>
    (\<forall>q. q \<noteq> kh_path h \<longrightarrow> q \<noteq> fencePath (kc_dir cfg) name \<longrightarrow> lookup w' q = lookup w q)"
proof -
  let ?p = "fk_slot_path (kc_dir cfg) name slot" and ?f = "fencePath (kc_dir cfg) name"
  note wf = fk_readyD(1)[OF assms(2)]
  note pf = fk_slot_facts(1-3)[OF fk_readyD(2)[OF assms(2)] assms(3), of slot]
  obtain w1 i where o: "sys_open_rw me ?p None w = (w1, Inr (next_fd w))" "opened me ?p i w w1"
    using run_open_rw[OF wf, of ?p me] assms(5) pf(1) fk_readyD(3)[OF assms(2)] by (auto simp: fk_free_def)
  note od = openedD[OF o(2)]
  have free: "map_of (flocks w) i = None"
    using od(13) wf_fresh(1)[OF wf] assms(5) unfolding fk_free_def by blast
  let ?w2 = "w1\<lparr>flocks := (i, next_fd w) # flocks w1\<rparr>"
  have l1: "lookup w1 ?p = Some (FileEntry i)" by (simp add: od(2))
  have fd: "map_of (fds w1) (next_fd w) = Some (me, i)" by (simp add: od(3))
  have l: "run me (tlk (next_fd w)) [] w1 = (None, [], ?w2)"
    using run_tryLock(1)[OF assms(1) fd] free by (simp add: od(4))
  have wf2: "wf_world ?w2"
    using wf_flocked[OF od(1)] wf_lookup[OF od(1) l1] od(5) by simp
  have fv: "fence_value ?w2 ?f = fence_value w ?f" using pf(2) by (simp add: fence_value_def od(6))
  have "fk_ready (kc_dir cfg) ?w2"
    by (rule fk_ready_transfer[OF assms(2) wf2]) (use pf(3) in \<open>auto simp: od(6-8)\<close>)
  then have t: "temp_ok (path_dir ?f) (''.'' @ ''flock'' @ ''-fence-'') ?w2"
    using fk_ready_temp unfolding fencePath_dir[OF fk_readyD(2)[OF assms(2)] assms(3)] by blast
  have nd: "\<not> is_dir ?w2 ?f" using assms(4) by (simp add: od(7))
  obtain w3 where b: "run me (fk_bumpFence (kc_dir cfg) name) [] ?w2 = (fence_value w ?f + 1, [], w3)"
      "effect ?w2 ((file_content ?w2)(?f \<mapsto> dec (unat (fence_value w ?f + 1)) @ [NL])) w3"
      "\<forall>q. q \<noteq> ?f \<longrightarrow> lookup w3 q = lookup ?w2 q"
    using run_bumpFence_names[OF wf2 t nd, of me] unfolding fk_bumpFence_eq fv by blast
  note e = effectD[OF b(2)]
  let ?h = "\<lparr>kh_path = ?p, kh_file = next_fd w, kh_token = fence_value w ?f + 1, kh_name = [], kh_acquiredAt = 0,
     kh_observe = no_observe, kh_released = False\<rparr>"
  have l3: "lookup w3 ?p = Some (FileEntry i)" using b(3) pf(2) l1 by simp
  have "fk_owns me ?h w w3"
    unfolding fk_owns_def
    by (intro conjI exI[of _ i]) (use e l3 free wf_fresh(2,3)[OF wf] od(13) in \<open>simp_all add: od(3-12)\<close>)
  moreover have "file_content w3 = (file_content w)(?p \<mapsto> (case file_content w ?p of None \<Rightarrow> [] | Some s \<Rightarrow> s),
      ?f \<mapsto> dec (unat (fence_value w ?f + 1)) @ [NL])"
    using e(2) by (simp only: flocks_state od(6))
  moreover have "run me (fk_acquireSlot tlk name cfg slot) [] w = (Inr ?h, [], w3)"
    using o(1) l b(1) by (simp add: fk_slot_alt)
  moreover have "\<forall>q. q \<noteq> ?p \<longrightarrow> q \<noteq> ?f \<longrightarrow> lookup w3 q = lookup w q" using b(3) od(2) by simp
  ultimately show ?thesis by (intro exI[of _ ?h] exI[of _ w3]) simp
qed

section \<open>All slots\<close>

definition fk_slots_of :: "fk_config \<Rightarrow> int list" where
  "fk_slots_of cfg = (if kc_maxConcurrent cfg \<le> 1 then [- 1] else map int [0..<nat (kc_maxConcurrent cfg)])"

definition bumps :: "nat \<Rightarrow> world \<Rightarrow> world" where
  "bumps k w = (bump_fd ^^ k) w"

lemma bumps_simps [simp]: "bumps 0 w = w" "bumps (Suc k) w = bumps k (bump_fd w)"
  by (simp_all add: bumps_def funpow_swap1)

lemma bumps_drifts: "drifts w (bumps k w)"
  by (induction k arbitrary: w) (auto intro: drifts_trans[OF drifts_bump])

lemma bumps_states [simp]:
  "fk_locked (bumps k w) p = fk_locked w p" "fk_free (bumps k w) p = fk_free w p" "wf_world w \<Longrightarrow> wf_world (bumps k w)"
  by (induction k arbitrary: w) auto

lemma fk_ready_bumps: "fk_ready dir w \<Longrightarrow> fk_ready dir (bumps k w)"
  using drifts_eqs[OF bumps_drifts[of w k]] bumps_states(3)[of w k] by (auto simp: fk_ready_def is_dir_def)

lemma run_slots_skip:
  assumes "native_lock tlk" "wf_world w" "\<forall>i \<in> set is. fk_locked w (fk_slot_path (kc_dir cfg) name i)"
  shows "run me (fk_acquire_slots tlk name cfg (is @ js)) [] w =
    run me (fk_acquire_slots tlk name cfg js) [] (bumps (length is) w)"
  using assms(2,3)
proof (induction "is" arbitrary: w)
  case (Cons i "is")
  then show ?case using run_slot_locked[OF assms(1) Cons.prems(1), of cfg name i me] by simp
qed simp

text \<open>The body of \<open>acquire\<close> ends with the first slot that is not locked, or with none.\<close>

lemma run_fk_body:
  assumes "native_lock tlk" "fk_ready (kc_dir cfg) w" "ctx_err w = None" "fk_slots_of cfg = is @ js"
    and "\<forall>i \<in> set is. fk_locked w (fk_slot_path (kc_dir cfg) name i)"
  shows "js = [] \<Longrightarrow> run me (fk_acquire_body tlk name cfg) [] w = (Inl fk_ErrLocked, [], bumps (length is) w)"
    and "js = slot # js' \<Longrightarrow> run me (fk_acquireSlot tlk name cfg slot) [] (bumps (length is) w) = (Inr h, [], w') \<Longrightarrow>
      run me (fk_acquire_body tlk name cfg) [] w = (Inr h, [], w')"
proof -
  have b: "run me (fk_acquire_body tlk name cfg) [] w =
      run me (if kc_maxConcurrent cfg \<le> 1 then fk_acquireSlot tlk name cfg (- 1)
        else fk_acquire_slots tlk name cfg (fk_slots_of cfg)) [] w"
    using assms(3) fk_readyD[OF assms(2)] by (simp add: fk_acquire_body_def fk_slots_of_def)
  note skip = run_slots_skip[OF assms(1) fk_readyD(1)[OF assms(2)] assms(5)]
  show "js = [] \<Longrightarrow> run me (fk_acquire_body tlk name cfg) [] w = (Inl fk_ErrLocked, [], bumps (length is) w)"
  proof (cases "kc_maxConcurrent cfg \<le> 1")
    case True
    assume "js = []"
    with True assms(4) have "is = [- 1]" by (simp add: fk_slots_of_def)
    with True b run_slot_locked[OF assms(1) fk_readyD(1)[OF assms(2)], of cfg name "- 1" me] assms(5)
    show ?thesis by simp
  next
    case False
    assume "js = []"
    with False b skip[where js = "[]" and me = me] assms(4) show ?thesis by simp
  qed
  show "run me (fk_acquire_body tlk name cfg) [] w = (Inr h, [], w')"
    if "js = slot # js'" "run me (fk_acquireSlot tlk name cfg slot) [] (bumps (length is) w) = (Inr h, [], w')"
  proof (cases "kc_maxConcurrent cfg \<le> 1")
    case True
    with that(1) assms(4) have "is = []" "slot = - 1" by (auto simp: fk_slots_of_def Cons_eq_append_conv)
    with True b that(2) show ?thesis by simp
  next
    case False
    with b skip[where js = js and me = me] assms(4) that show ?thesis by simp
  qed
qed

section \<open>Acquire as a whole\<close>

definition fk_events :: "observeOptions \<Rightarrow> ctx \<Rightarrow> string \<Rightarrow> err \<Rightarrow> duration \<Rightarrow> obs_event list" where
  "fk_events obs c name e d =
     snd (fk_startSpan obs c ''flock.Acquire'') @ finish_span obs e @
     fk_recordAcquire obs name (fk_outcomeFor e) d (fk_extractTraceID obs c) e @
     (if e = None then fk_recordActive obs name 1 else [])"

definition fk_finish :: "observeOptions \<Rightarrow> string \<Rightarrow> gtime \<Rightarrow> fk_holder \<Rightarrow> fk_holder" where
  "fk_finish obs name now h = h\<lparr>kh_observe := obs, kh_name := name, kh_acquiredAt := now\<rparr>"

lemma run_fk_acquire_quiet:
  assumes "run me (fk_acquire_body tlk name cfg) [] w = (r, [], w')"
  shows "run me (fk_acquire tlk c name cfg) [] w =
    ((map_sum id (fk_finish (kc_observe cfg) name (clock w')) r,
      fk_events (kc_observe cfg) c name (err_of r) (time_sub (clock w') (clock w))), [], w')"
  using assms by (cases r) (simp_all add: fk_acquire_def Let_def err_of_def fk_events_def fk_finish_def)

lemma run_fk_acquire_any:
  assumes "run me (fk_acquire tlk c name cfg) es w = ((r, evs), es', w')"
  obtains r0 d es0 es1 w0 w1 where
    "run me (fk_acquire_body tlk name cfg) es0 w0 = (r0, es1, w1)"
    "err_of r = err_of r0" "evs = fk_events (kc_observe cfg) c name (err_of r) d"
    "\<And>h. r0 = Inr h \<Longrightarrow> \<exists>now. r = Inr (fk_finish (kc_observe cfg) name now h)"
    "\<And>e. r0 = Inl e \<Longrightarrow> r = Inl e"
proof -
  let ?b = "fk_acquire_body tlk name cfg"
  obtain r0 es1 w1 where b: "run me ?b (tick_rest es) (tick_env es w) = (r0, es1, w1)"
    by (cases "run me ?b (tick_rest es) (tick_env es w)") auto
  define d where "d = time_sub (clock (tick_env es1 w1)) (clock (tick_env es w))"
  have "err_of r = err_of r0 \<and> evs = fk_events (kc_observe cfg) c name (err_of r) d \<and>
      (\<forall>h. r0 = Inr h \<longrightarrow> (\<exists>now. r = Inr (fk_finish (kc_observe cfg) name now h))) \<and>
      (\<forall>e. r0 = Inl e \<longrightarrow> r = Inl e)"
    using assms b
    by (cases r0) (auto simp: fk_acquire_def Let_def err_of_def fk_events_def d_def fk_finish_def)
  with that[OF b] show thesis by blast
qed

lemma fk_event_counts [simp]:
  "gauge r n (fk_events obs c name e d) = (if e = None \<and> metrics obs = Some r \<and> name = n then 1 else 0)"
  "attempts r (fk_events obs c name e d) = (if metrics obs = Some r then [(name, fk_outcomeFor e)] else [])"
  by (simp_all add: fk_events_def)

text \<open>Whatever the responses, a holder that is answered is not released.\<close>

lemma always_fk_slot: "always (fk_acquireSlot tlk name cfg i) (\<lambda>r. \<forall>h. r = Inr h \<longrightarrow> \<not> kh_released h)"
  unfolding fk_slot_alt
  by (auto intro!: always_triv split: sum.split option.split)

lemma always_fk_slots: "always (fk_acquire_slots tlk name cfg is) (\<lambda>r. \<forall>h. r = Inr h \<longrightarrow> \<not> kh_released h)"
proof (induction "is")
  case (Cons i "is")
  show ?case unfolding fk_acquire_slots.simps always_bind
    by (rule always_mono[OF always_fk_slot]) (use Cons in \<open>auto split: sum.split\<close>)
qed simp

lemma always_fk_body: "always (fk_acquire_body tlk name cfg) (\<lambda>r. \<forall>h. r = Inr h \<longrightarrow> \<not> kh_released h)"
  using always_fk_slot always_fk_slots by (auto simp: fk_acquire_body_def split: option.split)

text \<open>Winning a slot, all in all.\<close>

definition fk_won :: "try_lock \<Rightarrow> int \<Rightarrow> ctx \<Rightarrow> string \<Rightarrow> fk_config \<Rightarrow> int \<Rightarrow> world \<Rightarrow> bool" where
  "fk_won tlk me c name cfg slot w \<longleftrightarrow> (\<exists>h evs w'. run me (fk_acquire tlk c name cfg) [] w = ((Inr h, evs), [], w') \<and>
    kh_path h = fk_slot_path (kc_dir cfg) name slot \<and> kh_name h = name \<and> kh_acquiredAt h = clock w \<and>
    \<not> kh_released h \<and> fk_Holder_Token h = fence_value w (fencePath (kc_dir cfg) name) + 1 \<and> fk_owns me h w w' \<and>
    file_content w' = (file_content w)(kh_path h \<mapsto> (case file_content w (kh_path h) of None \<Rightarrow> [] | Some s \<Rightarrow> s),
      fencePath (kc_dir cfg) name \<mapsto> dec (unat (fk_Holder_Token h)) @ [NL]) \<and>
    (\<forall>q. q \<noteq> kh_path h \<longrightarrow> q \<noteq> fencePath (kc_dir cfg) name \<longrightarrow> lookup w' q = lookup w q))"

lemma fk_owns_drift:
  assumes "drifts w w1" "fk_owns me h w1 w'"
  shows "fk_owns me h w w'"
  using assms(2) unfolding fk_owns_def drifts_eqs[OF assms(1)] by blast

lemma fk_acquire_won:
  assumes "native_lock tlk" "fk_ready (kc_dir cfg) w" "ctx_err w = None" "CHR ''/'' \<notin> set name"
    and "\<not> is_dir w (fencePath (kc_dir cfg) name)" "fk_slots_of cfg = is @ slot # js"
    and "\<forall>i \<in> set is. fk_locked w (fk_slot_path (kc_dir cfg) name i)"
    and "fk_free w (fk_slot_path (kc_dir cfg) name slot)"
  shows "fk_won tlk me c name cfg slot w"
proof -
  let ?w1 = "bumps (length is) w"
  note d = bumps_drifts[of w "length is"]
  note eq = drifts_eqs[OF d]
  have "\<not> is_dir ?w1 (fencePath (kc_dir cfg) name)" "fk_free ?w1 (fk_slot_path (kc_dir cfg) name slot)"
    using assms(5,8) eq(3) by simp_all
  from run_slot_free[OF assms(1) fk_ready_bumps[OF assms(2)] assms(4) this, of me]
  obtain h w' where h: "run me (fk_acquireSlot tlk name cfg slot) [] ?w1 = (Inr h, [], w')" "fk_owns me h ?w1 w'"
    "kh_path h = fk_slot_path (kc_dir cfg) name slot" "\<not> kh_released h"
    "kh_token h = fence_value ?w1 (fencePath (kc_dir cfg) name) + 1"
    "file_content w' = (file_content ?w1)(kh_path h \<mapsto> (case file_content ?w1 (kh_path h) of None \<Rightarrow> [] | Some s \<Rightarrow> s),
      fencePath (kc_dir cfg) name \<mapsto> dec (unat (kh_token h)) @ [NL])"
    "\<forall>q. q \<noteq> kh_path h \<longrightarrow> q \<noteq> fencePath (kc_dir cfg) name \<longrightarrow> lookup w' q = lookup ?w1 q"
    by blast
  have fv: "fence_value ?w1 (fencePath (kc_dir cfg) name) = fence_value w (fencePath (kc_dir cfg) name)"
    by (simp add: fence_value_def eq(2))
  let ?h = "fk_finish (kc_observe cfg) name (clock w') h"
  have "run me (fk_acquire_body tlk name cfg) [] w = (Inr h, [], w')"
    by (rule run_fk_body(2)[OF assms(1-3,6,7) refl h(1)])
  from run_fk_acquire_quiet[OF this] obtain evs where r: "run me (fk_acquire tlk c name cfg) [] w = ((Inr ?h, evs), [], w')"
    by simp
  have o: "fk_owns me h w w'" by (rule fk_owns_drift[OF d h(2)])
  then have "clock w' = clock w" "fk_owns me ?h w w'"
    by (simp_all add: fk_owns_def fk_finish_def)
  with r h(3-7) show ?thesis
    unfolding fk_won_def fk_Holder_Token_def fv eq(1,2)
    by (intro exI[of _ ?h] exI[of _ evs] exI[of _ w']) (simp add: fk_finish_def)
qed

end
