(* ===== verification/Flock_Props.thy ===== *)
theory Flock_Props
  imports Flock_Spec
begin

text \<open>
  The properties of \<open>flock\<close> when the process is not disturbed, and those that hold under every
  schedule of one process: what an acquire wins, what a release gives back, what the hooks see.
\<close>

section \<open>Acquire\<close>

text \<open>With a directory in order and nobody interfering, \<open>Acquire\<close> takes the first slot whose
  file no open file has locked: the kernel's lock on the inode at the slot's path is held by the
  holder's open file and by no other, the holder carries the name's next fencing token, and no
  file but the fence changes (an existing lock file keeps its contents).\<close>

theorem flock_acquire_free:
  assumes "native_lock tlk" "fk_ready (kc_dir cfg) w" "ctx_err w = None" "CHR ''/'' \<notin> set name"
    and "\<not> is_dir w (fencePath (kc_dir cfg) name)" "fk_slots_of cfg = is @ slot # js"
    and "\<forall>i \<in> set is. fk_locked w (fk_slot_path (kc_dir cfg) name i)"
    and "fk_free w (fk_slot_path (kc_dir cfg) name slot)"
  shows "\<exists>h evs w' i. run me (fk_acquire tlk c name cfg) [] w = ((Inr h, evs), [], w') \<and>
    kh_path h = fk_slot_path (kc_dir cfg) name slot \<and> kh_name h = name \<and> \<not> kh_released h \<and>
    fk_Holder_Token h = fence_value w (fencePath (kc_dir cfg) name) + 1 \<and>
    lookup w' (kh_path h) = Some (FileEntry i) \<and> flocks w' = (i, kh_file h) # flocks w \<and>
    map_of (flocks w) i = None \<and> map_of (fds w') (kh_file h) = Some (me, i) \<and>
    file_content w' = (file_content w)(kh_path h \<mapsto> (case file_content w (kh_path h) of None \<Rightarrow> [] | Some s \<Rightarrow> s),
      fencePath (kc_dir cfg) name \<mapsto> dec (unat (fk_Holder_Token h)) @ [NL])"
  using fk_acquire_won[OF assms, of me c] unfolding fk_won_def fk_owns_def by (elim exE conjE) auto

lemma fk_host [simp]:
  "fk_ready ''/locks'' host_world" "lockPath ''/locks'' ''job'' = ''/locks/job.lock''"
  "fencePath ''/locks'' ''job'' = ''/locks/job.fence''"
  by (simp_all add: fk_ready_def lockPath_def fencePath_def path_join_def path_clean_def clean_stack_def clean_step_def rooted_def join_prefix_def)

lemma fk_default [simp]:
  "kc_dir (fk_defaultConfig d) = d" "fk_slots_of (fk_defaultConfig d) = [- 1]" "kc_maxConcurrent (fk_defaultConfig d) = 1"
  "kc_observe (fk_defaultConfig d) = no_observe"
  by (simp_all add: fk_defaultConfig_def fk_slots_of_def)

lemma fk_singleton_path [simp]: "fk_slot_path d n (- 1) = lockPath d n"
  by (simp add: fk_slot_path_def)

lemma native_locks [simp]: "native_lock tryLock_unix" "native_lock tryLock_windows"
  by (simp_all add: native_lock_def)

theorem flock_acquire_free_witness:
  "\<exists>h evs w' i. run 7 (fk_acquire tryLock_unix (\<lambda>_. None) ''job'' (fk_defaultConfig ''/locks'')) [] host_world = ((Inr h, evs), [], w') \<and>
     kh_path h = ''/locks/job.lock'' \<and> fk_Holder_Token h = 1 \<and> flocks w' = [(i, kh_file h)]"
proof -
  have a: "fk_slots_of (fk_defaultConfig ''/locks'') = [] @ (- 1) # []" by simp
  have f: "fk_free host_world ''/locks/job.lock''" "fence_value host_world ''/locks/job.fence'' = 0"
    by (simp_all add: fk_free_def is_dir_def fence_value_def)
  have d: "\<not> is_dir host_world (fencePath (kc_dir (fk_defaultConfig ''/locks'')) ''job'')" by (simp add: is_dir_def)
  from flock_acquire_free[where w = host_world and name = "''job''" and me = 7
      and c = "\<lambda>_. None", OF native_locks(1) _ _ _ d a] f
  obtain h evs w' i where "run 7 (fk_acquire tryLock_unix (\<lambda>_. None) ''job'' (fk_defaultConfig ''/locks'')) [] host_world = ((Inr h, evs), [], w')"
     "kh_path h = ''/locks/job.lock''" "fk_Holder_Token h = 1" "flocks w' = [(i, kh_file h)]" by auto
  then show ?thesis by blast
qed

text \<open>When some open file has locked every slot, \<open>Acquire\<close> answers \<open>ErrLocked\<close>, closes the
  files it opened, takes no lock and changes no file; nor does it take a fencing token.\<close>

theorem flock_acquire_all_locked:
  assumes "native_lock tlk" "fk_ready (kc_dir cfg) w" "ctx_err w = None"
    and "\<forall>i \<in> set (fk_slots_of cfg). fk_locked w (fk_slot_path (kc_dir cfg) name i)"
  shows "\<exists>evs w'. run me (fk_acquire tlk c name cfg) [] w = ((Inl fk_ErrLocked, evs), [], w') \<and>
    fds w' = fds w \<and> flocks w' = flocks w \<and> file_content w' = file_content w"
proof -
  have "run me (fk_acquire_body tlk name cfg) [] w = (Inl fk_ErrLocked, [], bumps (length (fk_slots_of cfg)) w)"
    by (rule run_fk_body(1)[OF assms(1-3) _ assms(4) refl]) simp
  from run_fk_acquire_quiet[OF this, of c] drifts_eqs[OF bumps_drifts[of w "length (fk_slots_of cfg)"]]
  show ?thesis by auto
qed

text \<open>A host on which process 4242 holds the lock \<open>job\<close> through open file 3.\<close>

definition locked_world :: world where
  "locked_world = host_world\<lparr>names := (''/locks/job.lock'', FileEntry 1) # names host_world, next_ino := 2,
     fds := [(3, (4242, 1))], next_fd := 4, flocks := [(1, 3)]\<rparr>"

lemma locked_world_simps [simp]:
  "fk_ready ''/locks'' locked_world" "ctx_err locked_world = None" "fk_locked locked_world ''/locks/job.lock''"
  "lookup locked_world ''/locks/job.lock'' = Some (FileEntry 1)" "flocks locked_world = [(1, 3)]"
  "fds locked_world = [(3, (4242, 1))]" "lookup locked_world ''/locks/job.fence'' = None"
proof -
  have "lookup locked_world = (lookup host_world)(''/locks/job.lock'' \<mapsto> FileEntry 1)"
    by (simp add: locked_world_def lookup_def fun_eq_iff)
  note l [simp] = this
  show "fk_ready ''/locks'' locked_world"
    unfolding fk_ready_def wf_world_def is_dir_def l
    by (auto simp: locked_world_def path_clean_def clean_stack_def clean_step_def rooted_def join_prefix_def)
  show "ctx_err locked_world = None" "fk_locked locked_world ''/locks/job.lock''"
    "lookup locked_world ''/locks/job.lock'' = Some (FileEntry 1)" "flocks locked_world = [(1, 3)]"
    "fds locked_world = [(3, (4242, 1))]" "lookup locked_world ''/locks/job.fence'' = None"
    by (simp_all add: fk_locked_def) (simp_all add: locked_world_def)
qed

theorem flock_acquire_all_locked_witness:
  "\<exists>evs w'. run 7 (fk_acquire tryLock_windows (\<lambda>_. None) ''job'' (fk_defaultConfig ''/locks'')) [] locked_world = ((Inl fk_ErrLocked, evs), [], w') \<and>
    flocks w' = [(1, 3)]"
  using flock_acquire_all_locked[of tryLock_windows "fk_defaultConfig ''/locks''" locked_world "''job''" 7 "\<lambda>_. None"] by auto

text \<open>When the lock call fails for another reason the error is answered, wrapped, and the file that
  was opened is closed again: no descriptor and no lock leaks, on Unix and on Windows.\<close>

theorem flock_lock_error_closes:
  assumes "native_lock tlk" "wf_world w" "ctx_err w = None" "is_dir w (path_clean (kc_dir cfg))" "kc_dir cfg \<noteq> []"
    and "kc_maxConcurrent cfg \<le> 1" "lookup w (lockPath (kc_dir cfg) name) = Some (FileEntry i)"
    and "e \<noteq> EWOULDBLOCK" "e \<noteq> errLockViolation"
  shows "\<exists>w'. run me (fk_acquire_body tlk name cfg) (replicate 3 (id, None) @ [(id, Some e)]) w =
      (Inl (Wrap ''flock: lock'' (Errno e)), [], w') \<and> fds w' = fds w \<and> flocks w' = flocks w \<and> file_content w' = file_content w"
proof -
  let ?w1 = "with_fd me i w"
  have t: "run me (tlk (next_fd w)) [(id, Some e)] ?w1 = (Some (Errno e), [], ?w1)"
    using assms(1,8,9) by (auto simp: native_lock_def tryLock_unix_def tryLock_windows_def lockFileEx_def sys_flock_def)
  have "\<not> errors_is (Errno e) fk_ErrLocked" by (cases e) (simp_all add: fk_ErrLocked_def sentinel_defs)
  then have "run me (fk_acquireSlot tlk name cfg (- 1)) [(id, None), (id, Some e)] w =
      (Inl (Wrap ''flock: lock'' (Errno e)), [], bump_fd w)"
    using assms(2,7) t by (simp add: fk_slot_alt)
  then show ?thesis
    using assms(3-6) by (intro exI[of _ "bump_fd w"]) (simp add: fk_acquire_body_def numeral_3_eq_3)
qed

theorem flock_lock_error_closes_witness:
  "\<exists>w'. run 7 (fk_acquire_body tryLock_unix ''job'' (fk_defaultConfig ''/locks'')) (replicate 3 (id, None) @ [(id, Some EINTR)]) locked_world =
      (Inl (Wrap ''flock: lock'' (Errno EINTR)), [], w') \<and> fds w' = [(3, (4242, 1))]"
  using flock_lock_error_closes[of tryLock_unix locked_world "fk_defaultConfig ''/locks''" "''job''" 1 EINTR 7]
    fk_readyD[OF locked_world_simps(1)] by (auto simp: errLockViolation_def)

section \<open>Events\<close>

text \<open>Under every schedule of faults and interference an acquire reports exactly one attempt, with
  the lock's name and the outcome of its result, and raises the gauge of the name by one if and
  only if it answers a holder.\<close>

theorem flock_acquire_events:
  assumes "run me (fk_acquire tlk c name cfg) es w = ((r, evs), es', w')" "metrics (kc_observe cfg) = Some rec"
  shows "attempts rec evs = [(name, case r of Inr h \<Rightarrow> OutcomeAcquired
      | Inl e \<Rightarrow> if errors_is e fk_ErrLocked then OutcomeErrLocked else OutcomeError)] \<and>
    gauge rec n evs = (if \<not> isl r \<and> n = name then 1 else 0)"
proof -
  obtain d where "evs = fk_events (kc_observe cfg) c name (err_of r) d"
    using run_fk_acquire_any[OF assms(1)] by metis
  then show ?thesis
    using assms(2) by (cases r) (auto simp: err_of_def fk_outcomeFor_def outcome_for_def)
qed

theorem flock_acquire_events_witness:
  "attempts 5 (snd (fst (run 7 (fk_acquire tryLock_unix (\<lambda>_. None) ''job''
      ((fk_defaultConfig ''/locks'')\<lparr>kc_observe := no_observe\<lparr>metrics := Some 5\<rparr>\<rparr>)) [(id, None), (id, None), (id, Some EACCES)] host_world)))
     = [(''job'', OutcomeError)]"
proof -
  let ?p = "fk_acquire tryLock_unix (\<lambda>_. None) ''job'' ((fk_defaultConfig ''/locks'')\<lparr>kc_observe := no_observe\<lparr>metrics := Some 5\<rparr>\<rparr>)"
  obtain r evs es' w' where r: "run 7 ?p [(id, None), (id, None), (id, Some EACCES)] host_world = ((r, evs), es', w')"
    by (metis prod_cases3 surj_pair)
  then have "r = Inl (Wrap ''flock: mkdir'' (Errno EACCES))"
    by (auto simp: fk_acquire_def Let_def fk_acquire_body_def err_of_def fk_outcomeFor_def outcome_for_def
        sentinel_defs outcome_defs)
  with flock_acquire_events[OF r, of 5] r show ?thesis by (simp add: sentinel_defs)
qed

lemma run_fk_Release_any:
  assumes "run me (fk_Release h) es w = ((e, h', evs), es', w')" "\<not> kh_released h"
  shows "h' = h\<lparr>kh_released := True\<rparr> \<and> (\<exists>d. evs = (if isZero (kh_acquiredAt h) then []
    else fk_recordHold (kh_observe h) (kh_name h) d) @ fk_recordActive (kh_observe h) (kh_name h) (- 1))"
proof -
  obtain w1 r1 where 1: "sys_close (kh_file h) (tick_fault es) (tick_env es w) = (w1, r1)" by fastforce
  obtain w2 r2 where 2: "sys_remove (kh_path h) (tick_fault (tick_rest es)) (tick_env (tick_rest es) w1) = (w2, r2)" by fastforce
  from assms 1 2 show ?thesis by (auto simp: fk_Release_def Let_def split: if_splits)
qed

text \<open>\<open>Release\<close>, under every schedule: a first call marks the holder released and lowers the gauge
  by one even when closing or removing fails; any later call returns nil, issues no system call
  and no event.\<close>

theorem flock_release_once:
  assumes "run me (fk_Release h) es w = ((e, h', evs), es', w')"
  shows "kh_released h' \<and> run me2 (fk_Release h') es2 w2 = ((None, h', []), es2, w2) \<and>
    (kh_released h \<longrightarrow> e = None \<and> evs = [] \<and> w' = w) \<and>
    (\<not> kh_released h \<longrightarrow> attempts rec evs = [] \<and>
       gauge rec n evs = (if metrics (kh_observe h) = Some rec \<and> n = kh_name h then - 1 else 0))"
proof (cases "kh_released h")
  case True
  with assms show ?thesis by (auto simp: fk_Release_def)
next
  case False
  from run_fk_Release_any[OF assms this] show ?thesis
    using False by (auto simp: fk_Release_def[of "h\<lparr>kh_released := True\<rparr>"])
qed

definition job_holder :: fk_holder where
  "job_holder = \<lparr>kh_path = ''/locks/job.lock'', kh_file = 3, kh_token = 1, kh_name = ''job'', kh_acquiredAt = 1,
     kh_observe = no_observe, kh_released = False\<rparr>"

theorem flock_release_once_witness:
  "kh_released (fst (snd (fst (run 4242 (fk_Release job_holder) [(id, Some EIO), (id, Some EROFS)] locked_world))))"
proof -
  obtain e h' evs es' w' where r: "run 4242 (fk_Release job_holder) [(id, Some EIO), (id, Some EROFS)] locked_world = ((e, h', evs), es', w')"
    by (metis prod_cases3 surj_pair)
  from flock_release_once[OF r] r show ?thesis by simp
qed

section \<open>Release\<close>

text \<open>What an undisturbed release leaves: the file closed, its locks gone, the path gone, no other change.\<close>

definition fk_freed :: "fk_holder \<Rightarrow> world \<Rightarrow> world \<Rightarrow> bool" where
  "fk_freed h w w' \<longleftrightarrow> wf_world w' \<and> is_dir w' = is_dir w \<and> temp_seq w' = temp_seq w \<and> clock w' = clock w \<and>
     ctx_err w' = ctx_err w \<and> kill_res w' = kill_res w \<and> host_res w' = host_res w \<and>
     fds w' = AList.delete (kh_file h) (fds w) \<and> flocks w' = filter (\<lambda>(i, g). g \<noteq> kh_file h) (flocks w) \<and>
     lookup w' = (lookup w)(kh_path h := None) \<and> file_content w' = (file_content w)(kh_path h := None)"

lemma wf_drop: "wf_world w \<Longrightarrow> wf_world (drop_fd fd w)"
  unfolding wf_world_def drop_fd_def lookup_def by (auto simp: AList.delete_eq)

lemma lookup_drop [simp]: "lookup (drop_fd fd w) = lookup w" "inodes (drop_fd fd w) = inodes w"
  by (simp_all add: drop_fd_def lookup_def fun_eq_iff)

lemma views_drop [simp]: "file_content (drop_fd fd w) = file_content w" "is_dir (drop_fd fd w) = is_dir w"
  by (rule ext; unfold file_content_def is_dir_def lookup_drop; rule refl)+

lemma drop_fields [simp]:
  "temp_seq (drop_fd fd w) = temp_seq w" "clock (drop_fd fd w) = clock w" "ctx_err (drop_fd fd w) = ctx_err w"
  "kill_res (drop_fd fd w) = kill_res w" "host_res (drop_fd fd w) = host_res w"
  "fds (drop_fd fd w) = AList.delete fd (fds w)" "flocks (drop_fd fd w) = filter (\<lambda>(i, g). g \<noteq> fd) (flocks w)"
  by (simp_all add: drop_fd_def)

lemma run_fk_Release_quiet:
  assumes "wf_world w" "\<not> kh_released h" "map_of (fds w) (kh_file h) = Some x" "\<not> is_dir w (kh_path h)"
  shows "\<exists>evs w'. run me (fk_Release h) [] w = ((None, h\<lparr>kh_released := True\<rparr>, evs), [], w') \<and> fk_freed h w w'"
proof -
  let ?w1 = "drop_fd (kh_file h) w"
  have c: "sys_close (kh_file h) None w = (?w1, None)" using assms(3) by (simp add: sys_close_def)
  show ?thesis
  proof (cases "lookup w (kh_path h)")
    case None
    then have "sys_remove (kh_path h) None ?w1 = (?w1, Some ENOENT)" by (simp add: sys_remove_def)
    moreover have "fk_release_err None (Some ENOENT) = None" by (simp add: fk_release_err_def os_ErrNotExist_def)
    moreover have "fk_freed h w ?w1"
      using None wf_drop[OF assms(1)] by (auto simp: fk_freed_def fun_eq_iff file_content_def)
    ultimately show ?thesis using assms(2) c by (simp add: fk_Release_def Let_def)
  next
    case (Some e)
    then obtain i where i: "lookup ?w1 (kh_path h) = Some (FileEntry i)" using assms(4) by (cases e) (auto simp: is_dir_def)
    have "fk_release_err None None = None" by (simp add: fk_release_err_def)
    moreover have "fk_freed h w (del_name (kh_path h) ?w1)"
      using i wf_drop[OF assms(1)] assms(4) by (simp add: fk_freed_def)
    ultimately show ?thesis using assms(2) c sys_remove_file(1)[OF i] by (simp add: fk_Release_def Let_def)
  qed
qed

text \<open>An acquire and the release of what it answered, undisturbed, give everything back: the open
  files and the kernel's locks are those of before, the lock file is gone, and on disk only the
  fence has moved on.\<close>

theorem flock_acquire_release:
  assumes "native_lock tlk" "fk_ready (kc_dir cfg) w" "ctx_err w = None" "CHR ''/'' \<notin> set name"
    and "\<not> is_dir w (fencePath (kc_dir cfg) name)" "fk_slots_of cfg = is @ slot # js"
    and "\<forall>i \<in> set is. fk_locked w (fk_slot_path (kc_dir cfg) name i)"
    and "fk_free w (fk_slot_path (kc_dir cfg) name slot)"
  shows "\<exists>h evs w1 evs' w2. run me (fk_acquire tlk c name cfg) [] w = ((Inr h, evs), [], w1) \<and>
    run me (fk_Release h) [] w1 = ((None, h\<lparr>kh_released := True\<rparr>, evs'), [], w2) \<and>
    fds w2 = fds w \<and> flocks w2 = flocks w \<and>
    file_content w2 = (file_content w)(fk_slot_path (kc_dir cfg) name slot := None,
      fencePath (kc_dir cfg) name \<mapsto> dec (unat (fk_Holder_Token h)) @ [NL])"
proof -
  obtain h evs w1 where h: "run me (fk_acquire tlk c name cfg) [] w = ((Inr h, evs), [], w1)"
      "kh_path h = fk_slot_path (kc_dir cfg) name slot" "\<not> kh_released h" "fk_owns me h w w1"
      "file_content w1 = (file_content w)(kh_path h \<mapsto> (case file_content w (kh_path h) of None \<Rightarrow> [] | Some s \<Rightarrow> s),
        fencePath (kc_dir cfg) name \<mapsto> dec (unat (fk_Holder_Token h)) @ [NL])"
    using fk_acquire_won[OF assms, of me c] unfolding fk_won_def by blast
  note o = h(4)[unfolded fk_owns_def]
  obtain i where i: "lookup w1 (kh_path h) = Some (FileEntry i)" "flocks w1 = (i, kh_file h) # flocks w"
      "fds w1 = AList.update (kh_file h) (me, i) (fds w)" using o by blast
  have pf: "kh_path h \<noteq> fencePath (kc_dir cfg) name"
    using fk_slot_facts(2)[OF fk_readyD(2)[OF assms(2)] assms(4)] h(2) by simp
  have "\<not> is_dir w1 (kh_path h)" by (simp add: is_dir_def i(1))
  moreover have "wf_world w1" "map_of (fds w1) (kh_file h) = Some (me, i)" using o by (simp_all add: i(3))
  ultimately obtain evs' w2 where r: "run me (fk_Release h) [] w1 = ((None, h\<lparr>kh_released := True\<rparr>, evs'), [], w2)" "fk_freed h w1 w2"
    using run_fk_Release_quiet[OF _ h(3), of w1 "(me, i)" me] by blast
  have "filter (\<lambda>(i, g). g \<noteq> kh_file h) (flocks w) = flocks w"
    using o by (intro filter_True) force
  then have "fds w2 = fds w" "flocks w2 = flocks w"
    using r(2) i(2,3) o by (simp_all add: fk_freed_def delete_update_same delete_id)
  moreover have "file_content w2 = (file_content w)(fk_slot_path (kc_dir cfg) name slot := None,
      fencePath (kc_dir cfg) name \<mapsto> dec (unat (fk_Holder_Token h)) @ [NL])"
    using r(2) h(2,5) pf by (auto simp: fk_freed_def fun_eq_iff)
  ultimately show ?thesis using h(1) r(1) by blast
qed

theorem flock_acquire_release_witness:
  "\<exists>h evs w1 evs' w2. run 7 (fk_acquire tryLock_unix (\<lambda>_. None) ''job'' (fk_defaultConfig ''/locks'')) [] host_world = ((Inr h, evs), [], w1) \<and>
     run 7 (fk_Release h) [] w1 = ((None, h\<lparr>kh_released := True\<rparr>, evs'), [], w2) \<and> flocks w2 = [] \<and> fds w2 = []"
proof -
  have a: "fk_slots_of (fk_defaultConfig ''/locks'') = [] @ (- 1) # []" by simp
  have f: "fk_free host_world (fk_slot_path (kc_dir (fk_defaultConfig ''/locks'')) ''job'' (- 1))"
    "fk_ready (kc_dir (fk_defaultConfig ''/locks'')) host_world" "CHR ''/'' \<notin> set ''job''"
    by (simp_all add: fk_free_def is_dir_def)
  have d: "\<not> is_dir host_world (fencePath (kc_dir (fk_defaultConfig ''/locks'')) ''job'')" "ctx_err host_world = None"
    by (simp_all add: is_dir_def)
  have e: "\<forall>i \<in> set []. fk_locked host_world (fk_slot_path (kc_dir (fk_defaultConfig ''/locks'')) ''job'' i)" by simp
  show ?thesis
    using flock_acquire_release[OF native_locks(1) f(2) d(2) f(3) d(1) a e f(1), of 7 "\<lambda>_. None"]
    by (simp only: host_world_simps(10,11)) blast
qed



section \<open>The end of a process\<close>

lemma fold_drop:
  "lookup (fold drop_fd gs w) = lookup w" "flocks (fold drop_fd gs w) = filter (\<lambda>(i, g). g \<notin> set gs) (flocks w)"
  "wf_world w \<Longrightarrow> wf_world (fold drop_fd gs w)" "temp_seq (fold drop_fd gs w) = temp_seq w"
  "ctx_err (fold drop_fd gs w) = ctx_err w" "file_content (fold drop_fd gs w) = file_content w"
  by (induction gs arbitrary: w) (auto simp: wf_drop conj_commute intro!: filter_cong)

text \<open>The end of a process leaves the files as they are.\<close>

lemma exit_files:
  "lookup (process_exit q w) = lookup w" "flocks (process_exit q w) = flocks (fold drop_fd (owned_fds q w) w)"
  "temp_seq (process_exit q w) = temp_seq w" "ctx_err (process_exit q w) = ctx_err w" "inodes (process_exit q w) = inodes w"
  "file_content (process_exit q w) = file_content w" "is_dir (process_exit q w) = is_dir w"
  "wf_world w \<Longrightarrow> wf_world (process_exit q w)"
proof -
  show l: "lookup (process_exit q w) = lookup w" "flocks (process_exit q w) = flocks (fold drop_fd (owned_fds q w) w)"
    "temp_seq (process_exit q w) = temp_seq w" "ctx_err (process_exit q w) = ctx_err w"
    using fold_drop(1,4,5)[of "owned_fds q w" w] by (simp_all add: process_exit_def lookup_def fun_eq_iff)
  show ino: "inodes (process_exit q w) = inodes w"
  proof -
    have "inodes (fold drop_fd gs w) = inodes w" for gs by (induction gs arbitrary: w) simp_all
    then show ?thesis by (simp add: process_exit_def)
  qed
  show "file_content (process_exit q w) = file_content w" "is_dir (process_exit q w) = is_dir w"
    by (rule ext; unfold file_content_def is_dir_def l ino; rule refl)+
  assume "wf_world w"
  from fold_drop(3)[OF this, of "owned_fds q w"] show "wf_world (process_exit q w)"
    unfolding process_exit_def wf_world_def by (simp add: lookup_def)
qed

lemma exit_ready: "fk_ready dir w \<Longrightarrow> fk_ready dir (process_exit q w)"
  by (rule fk_ready_transfer[OF _ exit_files(8)[OF fk_readyD(1)]]) (simp_all add: exit_files)

text \<open>The kernel's locks that were taken through its open files are gone.\<close>

lemma exit_unlocks:
  assumes "\<forall>g. (i, g) \<in> set (flocks w) \<longrightarrow> (\<exists>j. (g, (q, j)) \<in> set (fds w))"
  shows "map_of (flocks (process_exit q w)) i = None"
proof (cases "map_of (flocks (process_exit q w)) i")
  case (Some g)
  from map_of_SomeD[OF Some] have g: "(i, g) \<in> set (flocks w)" "g \<notin> set (owned_fds q w)"
    unfolding exit_files(2) fold_drop(2) by auto
  then obtain j where "(g, (q, j)) \<in> set (fds w)" using assms by blast
  then have "g \<in> set (owned_fds q w)"
    unfolding owned_fds_def set_map set_filter by (intro image_eqI[of _ _ "(g, (q, j))"]) simp_all
  with g(2) show ?thesis by simp
qed

text \<open>A crash gives the lock back.  Once the process behind every lock on the lock file has ended,
  whatever it left undone, the next \<open>Acquire\<close> gets the lock, with the next fencing token.\<close>

theorem flock_crash_releases:
  assumes "native_lock tlk" "fk_ready (kc_dir cfg) w" "ctx_err w = None" "CHR ''/'' \<notin> set name"
    and "\<not> is_dir w (fencePath (kc_dir cfg) name)" "kc_maxConcurrent cfg \<le> 1"
    and "lookup w (lockPath (kc_dir cfg) name) = Some (FileEntry i)"
    and "\<forall>g. (i, g) \<in> set (flocks w) \<longrightarrow> (\<exists>j. (g, (q, j)) \<in> set (fds w))"
  shows "\<exists>h evs w'. run me (fk_acquire tlk c name cfg) [] (process_exit q w) = ((Inr h, evs), [], w') \<and>
    kh_path h = lockPath (kc_dir cfg) name \<and> fk_Holder_Token h = fence_value w (fencePath (kc_dir cfg) name) + 1 \<and>
    map_of (flocks w') i = Some (kh_file h)"
proof -
  let ?w = "process_exit q w"
  have "map_of (flocks ?w) i = None" by (rule exit_unlocks[OF assms(8)])
  then have fr: "fk_free ?w (lockPath (kc_dir cfg) name)"
    unfolding fk_free_def is_dir_def exit_files(1) assms(7) by simp
  have sl: "fk_slots_of cfg = [] @ (- 1) # []" using assms(6) by (simp add: fk_slots_of_def)
  have "fk_won tlk me c name cfg (- 1) ?w"
    by (rule fk_acquire_won[OF assms(1) exit_ready[OF assms(2)] _ assms(4) _ sl]) (use assms(3,5) fr in \<open>simp_all add: exit_files\<close>)
  then obtain h evs w' where h: "run me (fk_acquire tlk c name cfg) [] ?w = ((Inr h, evs), [], w')"
    "kh_path h = lockPath (kc_dir cfg) name" "fk_Holder_Token h = fence_value ?w (fencePath (kc_dir cfg) name) + 1"
    "fk_owns me h ?w w'" unfolding fk_won_def by auto
  have "fence_value ?w (fencePath (kc_dir cfg) name) = fence_value w (fencePath (kc_dir cfg) name)"
    by (simp add: fence_value_def exit_files)
  moreover have "map_of (flocks w') i = Some (kh_file h)"
  proof -
    obtain i' where "lookup ?w (kh_path h) = Some (FileEntry i') \<or> lookup ?w (kh_path h) = None"
      "flocks w' = (i', kh_file h) # flocks ?w"
      using h(4) unfolding fk_owns_def by blast
    then show ?thesis unfolding exit_files(1) h(2) assms(7) by simp
  qed
  ultimately show ?thesis using h(1-3) by (intro exI[of _ h] exI[of _ evs] exI[of _ w']) (simp only: simp_thms)
qed

theorem flock_crash_releases_witness:
  "\<exists>h evs w'. run 7 (fk_acquire tryLock_windows (\<lambda>_. None) ''job'' (fk_defaultConfig ''/locks'')) [] (process_exit 4242 locked_world)
      = ((Inr h, evs), [], w') \<and> fk_Holder_Token h = 1 \<and> map_of (flocks w') 1 = Some (kh_file h)"
proof -
  let ?c = "fk_defaultConfig ''/locks''"
  have h: "fk_ready (kc_dir ?c) locked_world" "CHR ''/'' \<notin> set ''job''"
    "\<not> is_dir locked_world (fencePath (kc_dir ?c) ''job'')" "kc_maxConcurrent ?c \<le> 1"
    "lookup locked_world (lockPath (kc_dir ?c) ''job'') = Some (FileEntry 1)"
    "\<forall>g. (1, g) \<in> set (flocks locked_world) \<longrightarrow> (\<exists>j. (g, (4242, j)) \<in> set (fds locked_world))"
    by (simp_all add: is_dir_def)
  have v: "fence_value locked_world (fencePath (kc_dir ?c) ''job'') = 0"
    by (simp add: fence_value_def file_content_def)
  show ?thesis
    using flock_crash_releases[OF native_locks(2) h(1) locked_world_simps(2) h(2-6), of 7 "\<lambda>_. None"] unfolding v by auto
qed

end
