(* ===== verification/Flock_Safety.thy ===== *)
theory Flock_Safety
  imports Flock_Props
begin

text \<open>
  \<open>flock\<close> while others act: no contender gets a lock whose kernel lock another process holds,
  whatever fails and whatever happens around it; and the one interleaving that breaks exclusion,
  the removal of the lock file after the lock has been dropped.
\<close>

section \<open>A lock another process holds\<close>

text \<open>Open file \<open>g\<close> of process \<open>q\<close> holds the lock on inode \<open>i\<close>, the one at \<open>path\<close>.\<close>

definition fk_inv :: "string \<Rightarrow> nat \<Rightarrow> nat \<Rightarrow> int \<Rightarrow> world \<Rightarrow> bool" where
  "fk_inv path i g q w \<longleftrightarrow> lookup w path = Some (FileEntry i) \<and> map_of (flocks w) i = Some g \<and>
     map_of (fds w) g = Some (q, i) \<and> g < next_fd w"

text \<open>What the environment leaves alone: that lock, and the open files of process \<open>me\<close>.\<close>

definition fk_spares :: "int \<Rightarrow> string \<Rightarrow> nat \<Rightarrow> nat \<Rightarrow> int \<Rightarrow> ((world \<Rightarrow> world) \<times> fault) set" where
  "fk_spares me path i g q = {(s, f).
     (\<forall>w. fk_inv path i g q w \<longrightarrow> fk_inv path i g q (s w)) \<and>
     (\<forall>w fd j. map_of (fds w) fd = Some (me, j) \<longrightarrow> map_of (fds (s w)) fd = Some (me, j))}"

lemma fk_step_inv: "(s, f) \<in> steps (fk_spares me path i g q) \<Longrightarrow> fk_inv path i g q w \<Longrightarrow> fk_inv path i g q (s w)"
  by (auto simp: steps_def fk_spares_def)

lemma fk_step_fd:
  "(s, f) \<in> steps (fk_spares me path i g q) \<Longrightarrow> map_of (fds w) fd = Some (me, j) \<Longrightarrow>
     map_of (fds (s w)) fd = Some (me, j)"
  by (auto simp: steps_def fk_spares_def)

lemma map_of_other: "map_of xs k = Some v \<Longrightarrow> v \<noteq> v' \<Longrightarrow> map_of (filter (\<lambda>(a, b). b \<noteq> v') xs) k = Some v"
  by (induction xs) (auto split: if_splits)

lemma fk_inv_mkdir: "fk_inv path i g q w \<Longrightarrow> fk_inv path i g q (fst (sys_mkdir_all d f w))"
  using mkdir_keeps_file[of w path i d f]
  by (auto simp: fk_inv_def sys_mkdir_all_def split: option.splits)

lemma fk_inv_open:
  assumes "fk_inv path i g q w"
  shows "fk_inv path i g q (with_fd me i w)"
  using assms by (auto simp: fk_inv_def with_fd_def open_fd_def lookup_def)

lemma fk_inv_close:
  assumes "fk_inv path i g q w" "map_of (fds w) fd = Some (me, j)" "me \<noteq> q"
  shows "fk_inv path i g q (fst (sys_close fd f w))"
proof -
  have "g \<noteq> fd" using assms by (auto simp: fk_inv_def)
  then show ?thesis
    using assms map_of_other[of "flocks w" i g fd]
    by (auto simp: sys_close_def fk_inv_def drop_fd_def lookup_def)
qed

section \<open>A contender against it\<close>

lemma wp_close_held:
  assumes "fk_inv path i g q w" "map_of (fds w) fd = Some (me, j)" "me \<noteq> q"
  shows "wp (fk_spares me path i g q) me (CloseFd fd (\<lambda>_. Ret (Inl err))) (\<lambda>r w'. isl r \<and> fk_inv path i g q w') w"
proof -
  have "fk_inv path i g q (fst (sys_close fd f (s w)))" if sf: "(s, f) \<in> steps (fk_spares me path i g q)" for s f
    by (rule fk_inv_close[OF fk_step_inv[OF sf assms(1)] fk_step_fd[OF sf assms(2)] assms(3)])
  then show ?thesis by (auto simp: case_prod_beta)
qed

text \<open>The kernel refuses the lock of an inode that another open file has locked.\<close>

lemma wp_lock_held:
  assumes "fk_inv path i g q w" "map_of (fds w) fd = Some (me, i)" "native_lock tlk" "me \<noteq> q"
  shows "wp (fk_spares me path i g q) me (tlk fd)
    (\<lambda>r w'. r \<noteq> None \<and> fk_inv path i g q w' \<and> map_of (fds w') fd = Some (me, i)) w"
proof -
  let ?E = "fk_spares me path i g q" and ?I = "fk_inv path i g q"
  have "fst (sys_flock fd f (s w)) = s w \<and> snd (sys_flock fd f (s w)) \<noteq> None \<and> ?I (s w) \<and> map_of (fds (s w)) fd = Some (me, i)"
    if sf: "(s, f) \<in> steps ?E" for s f
  proof -
    have 1: "?I (s w)" "map_of (fds (s w)) fd = Some (me, i)" using fk_step_inv[OF sf assms(1)] fk_step_fd[OF sf assms(2)] by blast+
    then have "g \<noteq> fd" using assms(4) by (auto simp: fk_inv_def)
    with 1 show ?thesis by (cases f) (auto simp: sys_flock_def fk_inv_def)
  qed
  then show ?thesis
    using assms(3) by (fastforce simp: native_lock_def tryLock_unix_def tryLock_windows_def lockFileEx_def case_prod_beta
        split: option.split)
qed

lemma wp_slot_held:
  assumes "fk_inv (fk_slot_path (kc_dir cfg) name slot) i g q w" "native_lock tlk" "me \<noteq> q"
  shows "wp (fk_spares me (fk_slot_path (kc_dir cfg) name slot) i g q) me (fk_acquireSlot tlk name cfg slot)
    (\<lambda>r w'. isl r \<and> fk_inv (fk_slot_path (kc_dir cfg) name slot) i g q w') w"
proof -
  let ?p = "fk_slot_path (kc_dir cfg) name slot"
  let ?E = "fk_spares me ?p i g q" and ?I = "fk_inv ?p i g q"
  let ?Q = "\<lambda>r w'. isl r \<and> ?I w'"
  let ?k = "\<lambda>fd lockErr. case lockErr of
               Some err \<Rightarrow> CloseFd fd (\<lambda>_.
                 if errors_is err fk_ErrLocked then Ret (Inl fk_ErrLocked)
                 else Ret (Inl (Wrap ''flock: lock'' err)))
             | None \<Rightarrow>
                 bind (fk_bumpFence (kc_dir cfg) name) (\<lambda>token.
                   Ret (Inr \<lparr>kh_path = ?p, kh_file = fd, kh_token = token, kh_name = [], kh_acquiredAt = 0,
                              kh_observe = no_observe, kh_released = False\<rparr>))"
  have after: "wp ?E me (bind (tlk fd) (?k fd)) ?Q w'" if "?I w'" "map_of (fds w') fd = Some (me, i)" for fd w'
    unfolding wp_bind[of _ _ "tlk fd"]
    by (rule wp_mono[OF wp_lock_held[OF that assms(2,3)]])
      (use wp_close_held[OF _ _ assms(3)] in \<open>auto simp del: wp_bind wp.simps\<close>)
  show ?thesis
    unfolding fk_slot_alt wp.simps(11)
  proof (rule ballI)
    fix sf assume sf: "sf \<in> steps ?E"
    obtain s f where p: "sf = (s, f)" by fastforce
    have I: "?I (s w)" using fk_step_inv[OF _ assms(1)] sf p by blast
    have "lookup (s w) ?p = Some (FileEntry i)" using I by (simp add: fk_inv_def)
    then show "case sf of (s, f) \<Rightarrow> case sys_open_rw me ?p f (s w) of (w', r) \<Rightarrow> wp ?E me (case r of
           Inl e \<Rightarrow> Ret (Inl (Wrap ''flock: open'' (Wrap (''open '' @ ?p) (Errno e))))
         | Inr fd \<Rightarrow> bind (tlk fd) (?k fd)) ?Q w'"
      using after[OF fk_inv_open[OF I] fds_with_fd] I p
      by (cases f) (simp_all add: sys_open_rw_def[of _ _ "Some _"] del: wp_bind)
  qed
qed

lemma wp_fk_acquire_held:
  assumes "fk_inv (lockPath (kc_dir cfg) name) i g q w" "native_lock tlk" "me \<noteq> q" "kc_maxConcurrent cfg \<le> 1"
  shows "wp (fk_spares me (lockPath (kc_dir cfg) name) i g q) me (fk_acquire tlk c name cfg)
    (\<lambda>x w'. isl (fst x) \<and> fk_inv (lockPath (kc_dir cfg) name) i g q w') w"
proof -
  let ?p = "lockPath (kc_dir cfg) name"
  let ?E = "fk_spares me ?p i g q" and ?I = "fk_inv ?p i g q"
  have slot: "wp ?E me (fk_acquireSlot tlk name cfg (- 1)) (\<lambda>r w'. isl r \<and> ?I w') w'" if "?I w'" for w'
    using wp_slot_held[of cfg name "- 1" i g q w' tlk me] that assms(2,3) by simp
  have mk: "?I (fst (sys_mkdir_all d f (s w')))" if "?I w'" "(s, f) \<in> steps ?E" for s f w' d
    using fk_inv_mkdir fk_step_inv that by blast
  have body: "wp ?E me (fk_acquire_body tlk name cfg) (\<lambda>r w'. isl r \<and> ?I w') w'" if "?I w'" for w'
    using assms(4) slot fk_step_inv[of _ _ me ?p i g q] mk that
    by (auto simp: fk_acquire_body_def case_prod_beta split: option.split)
  have fin: "wp ?E me (Now (\<lambda>done. k done)) (\<lambda>x w'. isl (fst x) \<and> ?I w') w'"
    if "?I w'" "\<And>t. \<exists>evs. k t = Ret (Inl e, evs)" for k :: "gtime \<Rightarrow> (fk_holder res \<times> obs_event list) prog" and e w'
  proof -
    have "wp ?E me (k t) (\<lambda>x w'. isl (fst x) \<and> ?I w') (s w')" if "(s, f) \<in> steps ?E" for s f t
      using \<open>\<And>t. \<exists>evs. k t = Ret (Inl e, evs)\<close>[of t] fk_step_inv[OF that \<open>?I w'\<close>] by auto
    then show ?thesis by auto
  qed
  have rest: "wp ?E me (bind (fk_acquire_body tlk name cfg) kk) (\<lambda>x w'. isl (fst x) \<and> ?I w') w'"
    if "?I w'" "\<And>e. \<exists>k. kk (Inl e) = Now k \<and> (\<forall>t. \<exists>evs. k t = Ret (Inl e, evs))"
    for kk :: "fk_holder res \<Rightarrow> (fk_holder res \<times> obs_event list) prog" and w'
    unfolding wp_bind
  proof (rule wp_mono[OF body[OF that(1)]], elim conjE)
    fix r :: "fk_holder res" and w2 assume "isl r" "?I w2"
    then obtain e where "r = Inl e" by (cases r) auto
    with that(2)[of e] fin[OF \<open>?I w2\<close>] show "wp ?E me (kk r) (\<lambda>x w'. isl (fst x) \<and> ?I w') w2" by metis
  qed
  have all: "wp ?E me (bind (fk_acquire_body tlk name cfg) kk) (\<lambda>x w'. isl (fst x) \<and> ?I w') (s w)"
    if "(s, f) \<in> steps ?E" "\<And>e. \<exists>k. kk (Inl e) = Now k \<and> (\<forall>t. \<exists>evs. k t = Ret (Inl e, evs))"
    for s f and kk :: "fk_holder res \<Rightarrow> (fk_holder res \<times> obs_event list) prog"
    using rest[OF fk_step_inv[OF that(1) assms(1)] that(2)] .
  show ?thesis
    unfolding fk_acquire_def Let_def wp.simps(4)
    by (intro ballI, clarify) (rule all, assumption, simp add: err_of_def)
qed

text \<open>C23: While an open file of another process holds the kernel's lock on the lock file, \<open>Acquire\<close>
  answers an error under every schedule: whichever of its system calls fail and whatever others
  do in between, as long as that lock and the caller's open files are left alone; and the lock is
  still the other process's afterwards.\<close>

theorem flock_mutual_exclusion:
  assumes "fk_inv (lockPath (kc_dir cfg) name) i g q w" "native_lock tlk" "me \<noteq> q" "kc_maxConcurrent cfg \<le> 1"
    and "set es \<subseteq> fk_spares me (lockPath (kc_dir cfg) name) i g q"
  shows "case run me (fk_acquire tlk c name cfg) es w of ((r, evs), es', w') \<Rightarrow>
    (\<exists>e. r = Inl e) \<and> fk_locked w' (lockPath (kc_dir cfg) name) \<and> map_of (flocks w') i = Some g"
  using wp_run[OF wp_fk_acquire_held[OF assms(1-4)] assms(5), of c]
  by (auto simp: fk_inv_def fk_locked_def isl_def)

theorem flock_mutual_exclusion_witness:
  "case run 7 (fk_acquire tryLock_unix (\<lambda>_. None) ''job'' (fk_defaultConfig ''/locks''))
      [(\<lambda>w. w\<lparr>clock := 5\<rparr>, None), (id, None), (id, Some EIO), (id, None), (id, Some EINTR)] locked_world of
    ((r, evs), es', w') \<Rightarrow> (\<exists>e. r = Inl e) \<and> map_of (flocks w') 1 = Some 3"
proof -
  have 1: "fk_inv (lockPath (kc_dir (fk_defaultConfig ''/locks'')) ''job'') 1 3 4242 locked_world"
    by (simp add: fk_inv_def) (simp add: locked_world_def)
  have 2: "set [(\<lambda>w. w\<lparr>clock := 5\<rparr>, None), (id, None), (id, Some EIO), (id, None), (id, Some EINTR)] \<subseteq>
      fk_spares 7 (lockPath (kc_dir (fk_defaultConfig ''/locks'')) ''job'') 1 3 4242"
    by (simp add: fk_spares_def fk_inv_def lookup_def)
  have 3: "(7::int) \<noteq> 4242" "kc_maxConcurrent (fk_defaultConfig ''/locks'') \<le> 1" by simp_all
  show ?thesis
    using flock_mutual_exclusion[OF 1 native_locks(1) 3 2, of "\<lambda>_. None"] by (auto split: prod.splits)
qed

section \<open>Release and two acquires\<close>

lemma fk_singleton_won:
  assumes "native_lock tlk" "fk_ready (kc_dir cfg) w" "ctx_err w = None" "CHR ''/'' \<notin> set name"
    and "\<not> is_dir w (fencePath (kc_dir cfg) name)" "kc_maxConcurrent cfg \<le> 1" "fk_free w (lockPath (kc_dir cfg) name)"
  obtains h evs w' i where "run me (fk_acquire tlk c name cfg) [] w = ((Inr h, evs), [], w')"
    "kh_path h = lockPath (kc_dir cfg) name" "\<not> kh_released h" "fk_owns me h w w'"
    "lookup w' (kh_path h) = Some (FileEntry i)" "flocks w' = (i, kh_file h) # flocks w"
    "lookup w (kh_path h) = Some (FileEntry i) \<or> lookup w (kh_path h) = None \<and> i = next_ino w"
    "\<And>p. \<not> no_digit_end p \<Longrightarrow> file_content w' p = file_content w p"
proof -
  have sl: "fk_slots_of cfg = [] @ (- 1) # []" using assms(6) by (simp add: fk_slots_of_def)
  have "fk_won tlk me c name cfg (- 1) w"
    by (rule fk_acquire_won[OF assms(1-5) sl]) (use assms(7) in simp_all)
  then obtain h evs w' where h: "run me (fk_acquire tlk c name cfg) [] w = ((Inr h, evs), [], w')"
    "kh_path h = lockPath (kc_dir cfg) name" "\<not> kh_released h" "fk_owns me h w w'"
    "file_content w' = (file_content w)(kh_path h \<mapsto> (case file_content w (kh_path h) of None \<Rightarrow> [] | Some s \<Rightarrow> s),
      fencePath (kc_dir cfg) name \<mapsto> dec (unat (fk_Holder_Token h)) @ [NL])"
    unfolding fk_won_def by auto
  obtain i where "lookup w' (kh_path h) = Some (FileEntry i)" "flocks w' = (i, kh_file h) # flocks w"
    "lookup w (kh_path h) = Some (FileEntry i) \<or> lookup w (kh_path h) = None \<and> i = next_ino w"
    using h(4) unfolding fk_owns_def by blast
  moreover have "file_content w' p = file_content w p" if "\<not> no_digit_end p" for p
  proof -
    note sf = fk_slot_facts(3)[OF fk_readyD(2)[OF assms(2)] assms(4), of "- 1", unfolded fk_singleton_path]
    have "p \<noteq> kh_path h" using sf that h(2) by auto
    moreover have "p \<noteq> fencePath (kc_dir cfg) name"
      using fk_slot_facts(4)[OF fk_readyD(2)[OF assms(2)] assms(4)] that by auto
    ultimately show ?thesis by (simp add: h(5))
  qed
  ultimately show thesis using that h(1-4) by blast
qed

lemma fk_owns_ready:
  assumes "fk_ready dir w" "fk_owns me h w w'" "\<And>p. \<not> no_digit_end p \<Longrightarrow> file_content w' p = file_content w p"
  shows "fk_ready dir w'"
  by (rule fk_ready_transfer[OF assms(1)]) (use assms(2,3) in \<open>simp_all add: fk_owns_def\<close>)

text \<open>A release that another acquire overtakes between the unlock and the removal.\<close>

lemma run_overtaken_release:
  assumes "\<not> kh_released h" "map_of (fds w) (kh_file h) = Some (a, i)" "s (drop_fd (kh_file h) w) = v"
    and "lookup v (kh_path h) = Some (FileEntry j)"
  shows "\<exists>evs. run a (fk_Release h) [(id, None), (s, None)] w = ((None, h\<lparr>kh_released := True\<rparr>, evs), [], del_name (kh_path h) v)"
proof -
  have "sys_close (kh_file h) None w = (drop_fd (kh_file h) w, None)" using assms(2) by (simp add: sys_close_def)
  moreover have "sys_remove (kh_path h) None v = (del_name (kh_path h) v, None)" using assms(4) by simp
  moreover have "fk_release_err None None = None" by (simp add: fk_release_err_def)
  ultimately show ?thesis
    using assms(1,3) by (cases "isZero (kh_acquiredAt h)") (simp_all add: fk_Release_def Let_def)
qed

text \<open>The state after the holder's file is closed, and after a lock file is removed.\<close>

lemma fk_ready_drop: "fk_ready dir w \<Longrightarrow> fk_ready dir (drop_fd fd w)"
  by (rule fk_ready_transfer[OF _ wf_drop[OF fk_readyD(1)]]) simp_all

lemma fk_free_drop:
  assumes "lookup w p = Some (FileEntry i)" "\<forall>g. (i, g) \<in> set (flocks w) \<longleftrightarrow> g = fd"
  shows "fk_free (drop_fd fd w) p"
proof -
  have "map_of (flocks (drop_fd fd w)) i = None"
  proof (cases "map_of (flocks (drop_fd fd w)) i")
    case (Some g)
    from map_of_SomeD[OF Some] assms(2) show ?thesis by auto
  qed
  then show ?thesis unfolding fk_free_def is_dir_def lookup_drop assms(1) by simp
qed

lemma fk_ready_del:
  assumes "fk_ready dir w" "CHR ''/'' \<notin> set name" "lookup w (lockPath dir name) = Some (FileEntry i)"
  shows "fk_ready dir (del_name (lockPath dir name) w)"
  by (rule fk_ready_transfer[OF assms(1)])
    (use fk_readyD(1)[OF assms(1)] assms(3) fk_slot_facts(3)[OF fk_readyD(2)[OF assms(1)] assms(2), of "- 1"] in \<open>auto simp: is_dir_def\<close>)

text \<open>C25: \<open>Release\<close> drops the kernel's lock first and removes the lock file after.  A contender that
  acquires in between locks the file that is about to be removed; the next contender finds no
  file, creates another and locks that.  Both are answered a holder of the lock for one path, on
  two inodes, and neither has released.\<close>

theorem flock_release_race:
  assumes "native_lock tlk" "fk_ready (kc_dir cfg) w" "ctx_err w = None" "CHR ''/'' \<notin> set name"
    and "\<not> is_dir w (fencePath (kc_dir cfg) name)" "kc_maxConcurrent cfg \<le> 1"
    and "kh_path hA = lockPath (kc_dir cfg) name" "\<not> kh_released hA"
    and "lookup w (kh_path hA) = Some (FileEntry i)" "map_of (fds w) (kh_file hA) = Some (a, i)"
    and "\<forall>g. (i, g) \<in> set (flocks w) \<longleftrightarrow> g = kh_file hA"
    and "s = (\<lambda>w1. snd (snd (run b (fk_acquire tlk cb name cfg) [] w1)))"
  shows "\<exists>evA w' hB evB hC evC w'' j. run a (fk_Release hA) [(id, None), (s, None)] w = ((None, hA\<lparr>kh_released := True\<rparr>, evA), [], w') \<and>
    fst (run b (fk_acquire tlk cb name cfg) [] (drop_fd (kh_file hA) w)) = (Inr hB, evB) \<and>
    run c (fk_acquire tlk cc name cfg) [] w' = ((Inr hC, evC), [], w'') \<and>
    kh_path hB = lockPath (kc_dir cfg) name \<and> kh_path hC = kh_path hB \<and> \<not> kh_released hB \<and> \<not> kh_released hC \<and>
    map_of (flocks w'') i = Some (kh_file hB) \<and> map_of (flocks w'') j = Some (kh_file hC) \<and> i \<noteq> j"
proof -
  let ?p = "lockPath (kc_dir cfg) name" and ?f = "fencePath (kc_dir cfg) name"
  let ?w1 = "drop_fd (kh_file hA) w"
  have r1: "fk_ready (kc_dir cfg) ?w1" by (rule fk_ready_drop[OF assms(2)])
  have f1: "fk_free ?w1 ?p" by (rule fk_free_drop[OF assms(9)[unfolded assms(7)] assms(11)])
  have c1: "ctx_err ?w1 = None" "\<not> is_dir ?w1 ?f" using assms(3,5) by simp_all
  obtain hB evB wB iB where B: "run b (fk_acquire tlk cb name cfg) [] ?w1 = ((Inr hB, evB), [], wB)"
      "kh_path hB = ?p" "\<not> kh_released hB" "fk_owns b hB ?w1 wB" "lookup wB (kh_path hB) = Some (FileEntry iB)"
      "flocks wB = (iB, kh_file hB) # flocks ?w1"
      "lookup ?w1 (kh_path hB) = Some (FileEntry iB) \<or> lookup ?w1 (kh_path hB) = None \<and> iB = next_ino ?w1"
      "\<And>p. \<not> no_digit_end p \<Longrightarrow> file_content wB p = file_content ?w1 p"
    using fk_singleton_won[OF assms(1) r1 c1(1) assms(4) c1(2) assms(6) f1] by metis
  have iB: "iB = i" using B(2,7) assms(7,9) by simp
  have lB: "lookup wB ?p = Some (FileEntry i)" using B(2,5) iB by simp
  have rB: "fk_ready (kc_dir cfg) wB" by (rule fk_owns_ready[OF r1 B(4,8)])
  let ?w2 = "del_name ?p wB"
  have sB: "s ?w1 = wB" by (simp add: assms(12) B(1))
  obtain evA where A: "run a (fk_Release hA) [(id, None), (s, None)] w = ((None, hA\<lparr>kh_released := True\<rparr>, evA), [], ?w2)"
    using run_overtaken_release[where s = s and v = wB, OF assms(8,10) sB] lB assms(7) by auto
  have r2: "fk_ready (kc_dir cfg) ?w2" by (rule fk_ready_del[OF rB assms(4) lB])
  have oB: "is_dir wB = is_dir ?w1" "ctx_err wB = ctx_err ?w1" using B(4) unfolding fk_owns_def by blast+
  have nf: "\<not> is_dir wB ?f" using oB(1) c1(2) by simp
  have c2: "ctx_err ?w2 = None" "\<not> is_dir ?w2 ?f" "fk_free ?w2 ?p"
    using oB(2) c1(1) nf by (auto simp: fk_free_def is_dir_def)
  obtain hC evC wC iC where C: "run c (fk_acquire tlk cc name cfg) [] ?w2 = ((Inr hC, evC), [], wC)"
      "kh_path hC = ?p" "\<not> kh_released hC" "flocks wC = (iC, kh_file hC) # flocks ?w2"
      "lookup ?w2 (kh_path hC) = Some (FileEntry iC) \<or> lookup ?w2 (kh_path hC) = None \<and> iC = next_ino ?w2"
    using fk_singleton_won[OF assms(1) r2 c2(1) assms(4) c2(2) assms(6) c2(3)] by metis
  have "i \<noteq> iC" using C(2,5) wf_lookup[OF fk_readyD(1)[OF rB] lB] by auto
  moreover from this have "map_of (flocks wC) i = Some (kh_file hB)" "map_of (flocks wC) iC = Some (kh_file hC)"
    using C(4) B(6) iB by simp_all
  ultimately show ?thesis using A B(1-3) C(1-3) by auto
qed

theorem flock_release_race_witness:
  "\<exists>evA w' hB evB hC evC w'' j. run 4242 (fk_Release job_holder)
      [(id, None), (\<lambda>w1. snd (snd (run 8 (fk_acquire tryLock_unix (\<lambda>_. None) ''job'' (fk_defaultConfig ''/locks'')) [] w1)), None)] locked_world
      = ((None, job_holder\<lparr>kh_released := True\<rparr>, evA), [], w') \<and>
    fst (run 8 (fk_acquire tryLock_unix (\<lambda>_. None) ''job'' (fk_defaultConfig ''/locks'')) [] (drop_fd 3 locked_world)) = (Inr hB, evB) \<and>
    run 9 (fk_acquire tryLock_unix (\<lambda>_. None) ''job'' (fk_defaultConfig ''/locks'')) [] w' = ((Inr hC, evC), [], w'') \<and>
    map_of (flocks w'') 1 = Some (kh_file hB) \<and> map_of (flocks w'') j = Some (kh_file hC) \<and> 1 \<noteq> j"
proof -
  have h: "fk_ready (kc_dir (fk_defaultConfig ''/locks'')) locked_world" "CHR ''/'' \<notin> set ''job''"
    "\<not> is_dir locked_world (fencePath (kc_dir (fk_defaultConfig ''/locks'')) ''job'')"
    "kc_maxConcurrent (fk_defaultConfig ''/locks'') \<le> 1"
    "kh_path job_holder = lockPath (kc_dir (fk_defaultConfig ''/locks'')) ''job''" "\<not> kh_released job_holder"
    "lookup locked_world (kh_path job_holder) = Some (FileEntry 1)"
    "map_of (fds locked_world) (kh_file job_holder) = Some (4242, 1)"
    "\<forall>g. (1, g) \<in> set (flocks locked_world) \<longleftrightarrow> g = kh_file job_holder"
    by (simp_all add: job_holder_def is_dir_def)
  have k: "kh_file job_holder = 3" by (simp add: job_holder_def)
  show ?thesis
    using flock_release_race[OF native_locks(1) h(1) locked_world_simps(2) h(2-9) refl, of 8 "\<lambda>_. None" 9 "\<lambda>_. None"]
    unfolding k by metis
qed

end
