(* ===== verification/Flock_Table.thy ===== *)
theory Flock_Table
  imports Flock_Safety Host_Table
begin

text \<open>
  \<open>flock\<close> with any number of slots keeps the contract of \<open>Lock_Table\<close>: any processes of a host acquire and
  release any names, each call undisturbed, over one file system and kernel.  So does the
  scheduler's adapter in one of the processes.
\<close>

section \<open>Who holds what\<close>

definition fk_holds :: "string \<Rightarrow> world \<Rightarrow> int \<times> fk_holder \<Rightarrow> string \<times> int \<Rightarrow> bool" where
  "fk_holds dir w x = (\<lambda>(n, i). \<not> kh_released (snd x) \<and> kh_path (snd x) = fk_slot_path dir n i \<and>
     (\<exists>j. lookup w (fk_slot_path dir n i) = Some (FileEntry j) \<and> map_of (flocks w) j = Some (kh_file (snd x)) \<and>
        map_of (fds w) (kh_file (snd x)) = Some (fst x, j)))"

definition fk_unheld :: "string \<Rightarrow> world \<Rightarrow> string \<times> int \<Rightarrow> bool" where
  "fk_unheld dir w = (\<lambda>(n, i). fk_free w (fk_slot_path dir n i))"

lemma fk_row_states:
  "fk_holds dir w x (n, i) \<longleftrightarrow> \<not> kh_released (snd x) \<and> kh_path (snd x) = fk_slot_path dir n i \<and>
     (\<exists>j. lookup w (fk_slot_path dir n i) = Some (FileEntry j) \<and> map_of (flocks w) j = Some (kh_file (snd x)) \<and>
        map_of (fds w) (kh_file (snd x)) = Some (fst x, j))"
  "fk_unheld dir w (n, i) \<longleftrightarrow> fk_free w (fk_slot_path dir n i)"
  by (simp_all add: fk_holds_def fk_unheld_def)

text \<open>A lock mechanism of a system and a lock directory in order.\<close>

definition fk_host_ok :: "try_lock \<Rightarrow> fk_config \<Rightarrow> world \<Rightarrow> bool" where
  "fk_host_ok tlk cfg w \<longleftrightarrow> native_lock tlk \<and> fk_ready (kc_dir cfg) w \<and>
     (\<forall>n i. slash_free n \<longrightarrow> \<not> is_dir w (fencePath (kc_dir cfg) n) \<and> \<not> is_dir w (fk_slot_path (kc_dir cfg) n i))"

lemma fk_hostD:
  assumes "fk_host_ok tlk cfg w"
  shows "native_lock tlk" "fk_ready (kc_dir cfg) w"
    "slash_free n \<Longrightarrow> \<not> is_dir w (fencePath (kc_dir cfg) n)"
    "slash_free n \<Longrightarrow> \<not> is_dir w (fk_slot_path (kc_dir cfg) n i)"
  using assms by (simp_all add: fk_host_ok_def)

abbreviation fk_others :: "fk_config \<Rightarrow> (string \<times> int) set \<Rightarrow> world \<Rightarrow> world \<Rightarrow> bool" where
  "fk_others cfg \<equiv> others (host_row (fk_slots_of cfg)) (fk_holds (kc_dir cfg)) (fk_unheld (kc_dir cfg))"

lemma fk_slots_kind: "i \<in> set (fk_slots_of cfg) \<Longrightarrow> j \<in> set (fk_slots_of cfg) \<Longrightarrow> i = - 1 \<and> j = - 1 \<or> 0 \<le> i \<and> 0 \<le> j"
  by (auto simp: fk_slots_of_def split: if_splits)

lemma fk_other_slot:
  assumes "host_row (fk_slots_of cfg) (m, j)" "host_row (fk_slots_of cfg) (n, i)" "(m, j) \<noteq> (n, i)"
  shows "fk_slot_path dir m j \<noteq> fk_slot_path dir n i"
  using assms fk_slot_path_inject[OF _ _ fk_slots_kind, of m n j cfg i] by auto

text \<open>None of this depends on the context or the numbering of open files.\<close>

lemma ctx_states [simp]:
  "fk_free (w\<lparr>ctx_err := c\<rparr>) = fk_free w" "fk_holds dir (w\<lparr>ctx_err := c\<rparr>) = fk_holds dir w"
  "fk_unheld dir (w\<lparr>ctx_err := c\<rparr>) = fk_unheld dir w"
  by (simp_all add: fk_free_def fk_holds_def fk_unheld_def fun_eq_iff)

lemma host_ctx [simp]: "fk_host_ok tlk cfg (w\<lparr>ctx_err := c\<rparr>) = fk_host_ok tlk cfg w"
  by (simp add: fk_host_ok_def fk_ready_def wf_world_def)

lemma others_ctx [simp]:
  "fk_others cfg N w (w'\<lparr>ctx_err := c\<rparr>) = fk_others cfg N w w'"
  "fk_others cfg N (w\<lparr>ctx_err := c\<rparr>) w' = fk_others cfg N w w'"
  by (simp_all add: others_def)

lemma others_bumps [simp]: "fk_others cfg N w (bumps k w)"
  using drifts_eqs(1,6,7)[OF bumps_drifts[of w k]] by (auto simp: others_def fk_row_states host_row_def)

lemma host_bumps: "fk_host_ok tlk cfg w \<Longrightarrow> fk_host_ok tlk cfg (bumps k w)"
  using fk_ready_bumps[of "kc_dir cfg" w k] drifts_eqs(3)[OF bumps_drifts[of w k]] by (simp add: fk_host_ok_def)

section \<open>What the calls do\<close>

lemma fk_factory_run:
  "run me (fk_factoryAdapter_Acquire tlk c f name) [] w =
     (case run me (fk_acquire tlk c name (fk_defaults f)) [] w of ((r, evs), es, w') \<Rightarrow> ((fk_translate r, evs), es, w'))"
  by (simp add: fk_factoryAdapter_Acquire_def fk_Factory_Acquire_def case_prod_beta)

lemma ask_fails:
  assumes "fk_host_ok tlk (fk_defaults f) w"
  shows "\<exists>evs w'. run me (fk_factoryAdapter_Acquire tlk c f n) [] (w\<lparr>ctx_err := Some e\<rparr>) =
      ((Inl (if e = fk_ErrLocked then lock_ErrLocked else e), evs), [], w') \<and>
    fk_host_ok tlk (fk_defaults f) w' \<and> fk_others (fk_defaults f) {} w w'"
proof -
  let ?w = "w\<lparr>ctx_err := Some e\<rparr>"
  have "run me (fk_acquire_body tlk n (fk_defaults f)) [] ?w = (Inl e, [], ?w)" by (simp add: fk_acquire_body_def)
  from run_fk_acquire_quiet[OF this, of c] assms show ?thesis
    by (auto simp: fk_factory_run fk_translate_def others_def)
qed

lemma fk_holds_slot_locked: "fk_holds dir w x (n, i) \<Longrightarrow> fk_locked w (fk_slot_path dir n i)"
  by (auto simp: fk_row_states fk_locked_def)

lemma ask_busy:
  assumes "fk_host_ok tlk (fk_defaults f) w"
    and "\<forall>i \<in> set (fk_slots_of (fk_defaults f)). \<exists>x. fk_holds (kc_dir (fk_defaults f)) w x (n, i)"
  shows "\<exists>evs w'. run me (fk_factoryAdapter_Acquire tlk c f n) [] (w\<lparr>ctx_err := None\<rparr>) = ((Inl lock_ErrLocked, evs), [], w') \<and>
    fk_host_ok tlk (fk_defaults f) w' \<and> fk_others (fk_defaults f) {} w w'"
proof -
  let ?w = "w\<lparr>ctx_err := None\<rparr>" and ?cfg = "fk_defaults f" and ?k = "length (fk_slots_of (fk_defaults f))"
  have ok: "fk_host_ok tlk ?cfg ?w" using assms(1) by simp
  note hd = fk_hostD[OF ok]
  have "\<forall>i \<in> set (fk_slots_of ?cfg). fk_locked ?w (fk_slot_path (kc_dir ?cfg) n i)"
    using assms(2) fk_holds_slot_locked[of "kc_dir ?cfg" ?w] by fastforce
  then have b: "run me (fk_acquire_body tlk n ?cfg) [] ?w = (Inl fk_ErrLocked, [], bumps ?k ?w)"
    by (intro run_fk_body(1)[OF hd(1,2)]) simp_all
  have "fk_others ?cfg {} w (bumps ?k ?w)" using others_bumps[of ?cfg "{}" ?w ?k] by (simp only: others_ctx)
  with run_fk_acquire_quiet[OF b, of c] host_bumps[OF ok, of ?k]
  show ?thesis by (auto simp: fk_factory_run fk_translate_def)
qed

text \<open>A holder of another slot keeps its lock when a file is locked or one is freed.\<close>

lemma fk_holds_locked:
  assumes "fk_owns me h w w'" "wf_world w'" "fk_holds dir w x (n, k)" "lookup w' (fk_slot_path dir n k) = lookup w (fk_slot_path dir n k)"
    and "fk_slot_path dir n k \<noteq> kh_path h"
  shows "fk_holds dir w' x (n, k)"
proof -
  obtain i where i: "lookup w' (kh_path h) = Some (FileEntry i)" "flocks w' = (i, kh_file h) # flocks w"
      "fds w' = AList.update (kh_file h) (me, i) (fds w)" "kh_file h \<notin> fst ` set (fds w)"
    using assms(1) unfolding fk_owns_def by blast
  obtain j where x: "lookup w (fk_slot_path dir n k) = Some (FileEntry j)" "map_of (flocks w) j = Some (kh_file (snd x))"
      "map_of (fds w) (kh_file (snd x)) = Some (fst x, j)" "\<not> kh_released (snd x)" "kh_path (snd x) = fk_slot_path dir n k"
    using assms(3) unfolding fk_row_states by blast
  have "kh_file (snd x) \<noteq> kh_file h" using x(3) i(4) map_of_SomeD[OF x(3)] by force
  moreover have "j \<noteq> i" using assms(2,4,5) i(1) x(1) unfolding wf_world_def by metis
  ultimately show ?thesis using x assms(4) by (simp add: fk_row_states i(2,3))
qed

lemma fk_holds_freed:
  assumes "fk_freed h w w'" "wf_world w" "fk_holds dir w (me, h) (m, l)" "fk_holds dir w x (n, k)" "fk_slot_path dir n k \<noteq> kh_path h"
  shows "fk_holds dir w' x (n, k)"
proof -
  have fr: "fds w' = AList.delete (kh_file h) (fds w)" "lookup w' = (lookup w)(kh_path h := None)"
      "flocks w' = filter (\<lambda>(i, g). g \<noteq> kh_file h) (flocks w)"
    using assms(1) unfolding fk_freed_def by blast+
  obtain i where i: "lookup w (kh_path h) = Some (FileEntry i)" "map_of (fds w) (kh_file h) = Some (me, i)"
    using assms(3) by (auto simp: fk_row_states)
  obtain j where x: "lookup w (fk_slot_path dir n k) = Some (FileEntry j)" "map_of (flocks w) j = Some (kh_file (snd x))"
      "map_of (fds w) (kh_file (snd x)) = Some (fst x, j)" "\<not> kh_released (snd x)" "kh_path (snd x) = fk_slot_path dir n k"
    using assms(4) unfolding fk_row_states by blast
  have "j \<noteq> i" using assms(2,5) i(1) x(1) unfolding wf_world_def by blast
  then have g: "kh_file (snd x) \<noteq> kh_file h" using i(2) x(3) by auto
  then have "map_of (flocks w') j = Some (kh_file (snd x))" unfolding fr(3) by (rule map_of_other[OF x(2)])
  then show ?thesis using x g assms(5) by (simp add: fk_row_states fr(1,2) delete_conv')
qed

lemma map_of_filter_None: "map_of xs k = None \<Longrightarrow> map_of (filter P xs) k = None"
  by (auto simp: map_of_eq_None_iff)

lemma fk_free_locked:
  assumes "fk_owns me h w w'" "wf_world w'" "fk_free w p" "lookup w' p = lookup w p" "p \<noteq> kh_path h"
  shows "fk_free w' p"
proof -
  obtain i where i: "lookup w' (kh_path h) = Some (FileEntry i)" "flocks w' = (i, kh_file h) # flocks w" "is_dir w' = is_dir w"
    using assms(1) unfolding fk_owns_def by blast
  have "j \<noteq> i" if "lookup w' p = Some (FileEntry j)" for j using assms(2,5) i(1) that unfolding wf_world_def by metis
  then show ?thesis using assms(3,4) by (auto simp: fk_free_def i(2,3))
qed

lemma fk_free_freed: "fk_freed h w w' \<Longrightarrow> fk_free w p \<Longrightarrow> fk_free w' p"
  by (auto simp: fk_freed_def fk_free_def map_of_filter_None split: if_splits)

lemma ask_free:
  assumes "fk_host_ok tlk (fk_defaults f) w" "slash_free n" "fk_slots_of (fk_defaults f) = us @ i # vs"
    and "\<forall>u \<in> set us. \<exists>x. fk_holds (kc_dir (fk_defaults f)) w x (n, u)" "fk_unheld (kc_dir (fk_defaults f)) w (n, i)"
  shows "\<exists>h evs w'. run me (fk_factoryAdapter_Acquire tlk c f n) [] (w\<lparr>ctx_err := None\<rparr>) = ((Inr h, evs), [], w') \<and>
    fk_host_ok tlk (fk_defaults f) w' \<and> fk_holds (kc_dir (fk_defaults f)) w' (me, h) (n, i) \<and> fk_others (fk_defaults f) {(n, i)} w w'"
proof -
  let ?w = "w\<lparr>ctx_err := None\<rparr>" and ?cfg = "fk_defaults f"
  let ?dir = "kc_dir ?cfg" and ?p = "fk_slot_path (kc_dir ?cfg) n i" and ?f = "fencePath (kc_dir ?cfg) n"
  have ok: "fk_host_ok tlk ?cfg ?w" using assms(1) by simp
  have i: "host_row (fk_slots_of ?cfg) (n, i)" using assms(2,3) by simp
  note hd = fk_hostD[OF ok]
  have us: "\<forall>u \<in> set us. fk_locked ?w (fk_slot_path ?dir n u)"
    using assms(4) fk_holds_slot_locked[of ?dir ?w] by fastforce
  have "fk_won tlk me c n ?cfg i ?w"
    by (rule fk_acquire_won[OF hd(1,2) _ assms(2) hd(3)[OF assms(2)] assms(3) us]) (use assms(5) in \<open>simp_all add: fk_row_states\<close>)
  then obtain h evs w' where h: "run me (fk_acquire tlk c n ?cfg) [] ?w = ((Inr h, evs), [], w')"
    "kh_path h = ?p" "\<not> kh_released h" "fk_owns me h ?w w'"
    "file_content w' = (file_content ?w)(kh_path h \<mapsto> (case file_content ?w (kh_path h) of None \<Rightarrow> [] | Some s \<Rightarrow> s),
      ?f \<mapsto> dec (unat (fk_Holder_Token h)) @ [NL])"
    "\<forall>q. q \<noteq> kh_path h \<longrightarrow> q \<noteq> ?f \<longrightarrow> lookup w' q = lookup ?w q"
    unfolding fk_won_def by blast
  have w': "wf_world w'" "is_dir w' = is_dir ?w" using h(4) unfolding fk_owns_def by blast+
  note sf = fk_slot_facts(3,4)[OF fk_readyD(2)[OF hd(2)] assms(2)]
  have "file_content w' p = file_content ?w p" if "\<not> no_digit_end p" for p
  proof -
    have "p \<noteq> ?p" "p \<noteq> ?f" using sf(1)[of i] sf(2) that by auto
    then show ?thesis unfolding h(5) h(2) by simp
  qed
  with fk_owns_ready[OF hd(2) h(4)] have host: "fk_host_ok tlk ?cfg w'" using ok w'(2) by (simp add: fk_host_ok_def)
  have new: "fk_holds ?dir w' (me, h) (n, i)" using h(2-4) by (auto simp: fk_row_states fk_owns_def)
  have "fk_others ?cfg {(n, i)} ?w w'"
    unfolding others_def
  proof (intro allI impI)
    fix r assume r: "host_row (fk_slots_of ?cfg) r" "r \<notin> {(n, i)}"
    obtain m j where mj: "r = (m, j)" by (cases r)
    have p: "fk_slot_path ?dir m j \<noteq> kh_path h" using fk_other_slot[OF r(1)[unfolded mj] i] r(2) h(2) mj by auto
    then have l: "lookup w' (fk_slot_path ?dir m j) = lookup ?w (fk_slot_path ?dir m j)"
      using h(6) fk_slot_not_fence[of m n ?dir j] assms(2) r(1) mj by simp
    show "(\<forall>x. fk_holds ?dir ?w x r \<longrightarrow> fk_holds ?dir w' x r) \<and> (fk_unheld ?dir ?w r \<longrightarrow> fk_unheld ?dir w' r)"
      using fk_holds_locked[OF h(4) w'(1) _ l p] fk_free_locked[OF h(4) w'(1) _ l p] unfolding mj fk_row_states(2) by blast
  qed
  then show ?thesis using h(1) host new by (auto simp: fk_factory_run fk_translate_def)
qed

lemma give_held:
  assumes "fk_host_ok tlk cfg w" "host_row (fk_slots_of cfg) r" "fk_holds (kc_dir cfg) w (me, h) r"
  shows "\<exists>h' evs w'. run me (fk_holderAdapter_Release h) [] w = ((None, h', evs), [], w') \<and> kh_released h' \<and>
    fk_host_ok tlk cfg w' \<and> fk_unheld (kc_dir cfg) w' r \<and> fk_others cfg {r} w w'"
proof -
  let ?dir = "kc_dir cfg"
  note hd = fk_hostD[OF assms(1)]
  obtain n i where r: "r = (n, i)" by (cases r)
  have n: "slash_free n" using assms(2) r by simp
  obtain j where i: "\<not> kh_released h" "kh_path h = fk_slot_path ?dir n i" "map_of (fds w) (kh_file h) = Some (me, j)"
    using assms(3) by (auto simp: r fk_row_states)
  have nd: "\<not> is_dir w (kh_path h)" using hd(4)[OF n] i(2) by simp
  obtain evs w' where run: "run me (fk_Release h) [] w = ((None, h\<lparr>kh_released := True\<rparr>, evs), [], w')" "fk_freed h w w'"
    using run_fk_Release_quiet[OF fk_readyD(1)[OF hd(2)] i(1,3) nd, of me] by blast
  have fr: "wf_world w'" "is_dir w' = is_dir w" "temp_seq w' = temp_seq w" "lookup w' = (lookup w)(kh_path h := None)"
    "file_content w' = (file_content w)(kh_path h := None)"
    using run(2) unfolding fk_freed_def by blast+
  have "fk_ready ?dir w'"
  proof (rule fk_ready_transfer[OF hd(2) fr(1,2)])
    show "file_content w' p = file_content w p" if "\<not> no_digit_end p" for p
      using fk_slot_facts(3)[OF fk_readyD(2)[OF hd(2)] n, of i] that i(2) by (auto simp: fr(5))
  qed (simp add: fr(3))
  then have host: "fk_host_ok tlk cfg w'" using assms(1) fr(2) by (simp add: fk_host_ok_def)
  have un: "fk_unheld ?dir w' r" using fk_hostD(4)[OF host n] by (simp add: r fk_row_states fk_free_def fr(4) i(2))
  have "fk_others cfg {r} w w'"
    unfolding others_def
  proof (intro allI impI)
    fix r' assume r': "host_row (fk_slots_of cfg) r'" "r' \<notin> {r}"
    obtain m k where mk: "r' = (m, k)" by (cases r')
    have p: "fk_slot_path ?dir m k \<noteq> kh_path h"
      using fk_other_slot[OF r'(1)[unfolded mk] assms(2)[unfolded r]] r'(2) i(2) r mk by auto
    show "(\<forall>x. fk_holds ?dir w x r' \<longrightarrow> fk_holds ?dir w' x r') \<and> (fk_unheld ?dir w r' \<longrightarrow> fk_unheld ?dir w' r')"
      using fk_holds_freed[OF run(2) fk_readyD(1)[OF hd(2)] assms(3)[unfolded r] _ p] fk_free_freed[OF run(2)]
      unfolding mk fk_row_states(2) by blast
  qed
  then show ?thesis using run(1) host un by (simp add: fk_holderAdapter_Release_def)
qed

interpretation fkh: host_lock "fk_factoryAdapter_Acquire tlk c f" fk_holderAdapter_Release fk_ErrLocked "fk_slots_of (fk_defaults f)" "\<lambda>_. True"
  "fk_host_ok tlk (fk_defaults f)" "fk_holds (kc_dir (fk_defaults f))" "fk_unheld (kc_dir (fk_defaults f))" kh_released
  for tlk c f
proof (unfold_locales, goal_cases)
  case (1 w me n e)
  show ?case by (rule ask_fails[OF 1(1)])
next
  case (2 w me n)
  show ?case by (rule ask_busy[OF 2(1,4)])
next
  case (3 w me n us i vs)
  show ?case by (rule ask_free[OF 3(1,3-6)])
next
  case (4 w r me h)
  show ?case by (rule give_held[OF 4])
next
  case (5 h me w)
  then show ?case by (simp add: fk_holderAdapter_Release_def fk_Release_def)
next
  case (6 r r' w x)
  obtain n i m j where r: "r = (n, i)" "r' = (m, j)" by (cases r, cases r')
  have "fk_slot_path (kc_dir (fk_defaults f)) n i = fk_slot_path (kc_dir (fk_defaults f)) m j"
    using 6(3,4) unfolding r fk_row_states by simp
  then show ?case using fk_other_slot[OF 6(1)[unfolded r] 6(2)[unfolded r]] unfolding r by blast
qed

section \<open>Properties\<close>


text \<open>The scheduler's adapter in process \<open>me\<close>.\<close>

lemma gocron_flock_table:
  assumes "fk_host_ok tlk (fk_defaults f) w"
    and "\<And>n i. slash_free n \<Longrightarrow> fk_free w (fk_slot_path (kc_dir (fk_defaults f)) n i)"
    and "\<And>q. Ask q \<in> set cs \<Longrightarrow> slash_free (snd q)"
    and l: "l = client_Locker (host_acq (fk_factoryAdapter_Acquire tlk c f)) (host_rel fk_holderAdapter_Release) (Pair me)"
  shows "answers (gc_request l) (gc_return l) cs \<lparr>cl_world = w, cl_objs = []\<rparr> =
    table_answers (\<lambda>q. host_slots (fk_slots_of (fk_defaults f)) (me, q)) (\<lambda>q. host_fails fk_ErrLocked (me, q)) lock_ErrLocked cs (\<lambda>_. None) 0"
  unfolding l
  by (rule fkh.proc.gocron_answers[OF client_table_new, OF assms(1)])
    (use assms(2,3) in \<open>auto simp: host_row_def host_allowed_def fk_unheld_def\<close>)

lemma host_world_locks:
  assumes "slash_free n"
  shows "lookup host_world (fk_slot_path ''/locks'' n i) = None" "lookup host_world (fencePath ''/locks'' n) = None"
proof -
  obtain x where "slash_free x" "fk_slot_path ''/locks'' n i = lockPath ''/locks'' x" using fk_slot_plain[OF assms] by blast
  then show "lookup host_world (fk_slot_path ''/locks'' n i) = None"
    by (simp add: lockPath_eq join_prefix_def lookup_def host_world_def)
  show "lookup host_world (fencePath ''/locks'' n) = None"
    using assms by (simp add: fk_fencePath_eq join_prefix_def lookup_def host_world_def)
qed

text \<open>A lock directory used with two slots per name.\<close>

lemma fk_two_slots:
  "kc_dir (fk_defaults (fk_NewFactory ''/locks'' [fk_WithMaxConcurrent 2])) = ''/locks''"
  "fk_slots_of (fk_defaults (fk_NewFactory ''/locks'' [fk_WithMaxConcurrent 2])) = [0, 1]"
  by (simp_all add: fk_NewFactory_def fk_WithMaxConcurrent_def fk_slots_of_def upt_rec)

lemma host_world_flock:
  "fk_host_ok tryLock_unix (fk_defaults (fk_NewFactory ''/locks'' [fk_WithMaxConcurrent 2])) host_world"
  "slash_free n \<Longrightarrow> fk_free host_world (fk_slot_path (kc_dir (fk_defaults (fk_NewFactory ''/locks'' [fk_WithMaxConcurrent 2]))) n i)"
proof -
  show "fk_host_ok tryLock_unix (fk_defaults (fk_NewFactory ''/locks'' [fk_WithMaxConcurrent 2])) host_world"
    unfolding fk_host_ok_def fk_two_slots(1) is_dir_def
  proof (intro conjI allI impI)
    show "fk_ready ''/locks'' host_world" by (rule fk_host(1))
  qed (simp_all add: host_world_locks native_locks del: host_world_simps(15))
  show "slash_free n \<Longrightarrow> fk_free host_world (fk_slot_path (kc_dir (fk_defaults (fk_NewFactory ''/locks'' [fk_WithMaxConcurrent 2]))) n i)"
    unfolding fk_two_slots(1) fk_free_def is_dir_def by (simp add: host_world_locks del: host_world_simps(15))
qed


end
