(* ===== verification/Server_Api.thy ===== *)
theory Server_Api
  imports LockApi "HOL-Library.State_Monad"
begin

text \<open>
  What the three packages that keep their locks on a server share.  The server and its client
  library are not in the repository: they are parameters, records of operations on a state of
  any type, and what the code relies on is stated over a \<^emph>\<open>view\<close> of that state.  An operation
  of such a record takes effect on the view at one moment, and before and after that moment the
  rest of the world may act: other clients, and time, which ends leases.
\<close>

section \<open>Programs over a server\<close>

abbreviation ret :: "'a \<Rightarrow> ('s, 'a) state" where
  "ret \<equiv> State_Monad.return"

text \<open>The standard library's part: the clock, the context, and \<open>rand.Read\<close> on 16 bytes.\<close>

record 's host =
  ho_now :: "('s, gtime) state"
  ho_ctxErr :: "ctx \<Rightarrow> ('s, err) state"
  ho_randRead :: "('s, string res) state"

text \<open>\<open>context.Background()\<close>\<close>

definition background :: ctx where
  "background = (\<lambda>_. None)"

text \<open>The loop over the slots of a semaphore.\<close>

fun try_slots :: "gerr \<Rightarrow> (int \<Rightarrow> ('s, 'h res) state) \<Rightarrow> int list \<Rightarrow> ('s, 'h res) state" where
  "try_slots errLocked acquireSlot [] = ret (Inl errLocked)"
| "try_slots errLocked acquireSlot (slot # slots) = do {
     r \<leftarrow> acquireSlot slot;
     case r of
       Inr h \<Rightarrow> ret (Inr h)
     | Inl e \<Rightarrow> if errors_is e errLocked then try_slots errLocked acquireSlot slots else ret (Inl e)
   }"

text \<open>The body of \<open>acquire\<close> that the server backends share; slot \<open>-1\<close> is the one of singleton mode.\<close>

definition slots_of :: "int \<Rightarrow> int list" where
  "slots_of n = (if n \<le> 1 then [- 1] else map int [0..<nat n])"

definition slot_body ::
  "'s host \<Rightarrow> gerr \<Rightarrow> int \<Rightarrow> ctx \<Rightarrow> (int \<Rightarrow> ('s, 'h res) state) \<Rightarrow> ('s, 'h res) state" where
  "slot_body H errLocked maxConcurrent c acquireSlot = do {
     ctxErr \<leftarrow> ho_ctxErr H c;
     case ctxErr of
       Some e \<Rightarrow> ret (Inl e)
     | None \<Rightarrow>
         if maxConcurrent \<le> 1 then acquireSlot (- 1)
         else try_slots errLocked acquireSlot (slots_of maxConcurrent)
   }"

text \<open>A backend's acquire line has the trace identifier when there is one.\<close>

definition record_acquire ::
  "string \<Rightarrow> observeOptions \<Rightarrow> string \<Rightarrow> string \<Rightarrow> duration \<Rightarrow> string \<Rightarrow> err \<Rightarrow> obs_event list" where
  "record_acquire pkg obs n oc d traceID e =
     metric_acquire obs n oc d @ log_acquire pkg obs n oc d (if traceID \<noteq> [] then Some traceID else None) e"

lemma record_acquire_hooks [simp]:
  "gauge r n (record_acquire pkg obs m oc d t e) = 0"
  "attempts r (record_acquire pkg obs m oc d t e) = (if metrics obs = Some r then [(m, oc)] else [])"
  by (simp_all add: record_acquire_def)

text \<open>\<open>acquire\<close> without the part that differs: the deferred hooks around a body.\<close>

definition observed ::
  "'s host \<Rightarrow> string \<Rightarrow> string \<Rightarrow> gerr \<Rightarrow> (observeOptions \<Rightarrow> string \<Rightarrow> gtime \<Rightarrow> 'h \<Rightarrow> 'h) \<Rightarrow> observeOptions \<Rightarrow> ctx \<Rightarrow> string \<Rightarrow>
   (ctx \<Rightarrow> string \<Rightarrow> ('s, 'h res) state) \<Rightarrow> ('s, 'h res \<times> obs_event list) state" where
  "observed H pkg op errLocked stamp obs c name body = do {
     start \<leftarrow> ho_now H;
     let traceID = extract_trace obs c;
     let c' = fst (start_span obs c op);
     r \<leftarrow> body c' traceID;
     done \<leftarrow> ho_now H;
     let outcome = outcome_for errLocked (err_of r);
     let evs = snd (start_span obs c op) @ finish_span obs (err_of r) @
           record_acquire pkg obs name outcome (time_sub done start) traceID (err_of r);
     case r of
       Inl e \<Rightarrow> ret (Inl e, evs)
     | Inr h \<Rightarrow> do {
         now \<leftarrow> ho_now H;
         ret (Inr (stamp obs name now h), evs @ record_active obs name 1)
       }
   }"

text \<open>\<open>WithLock\<close>: the release is deferred, and gets the context of the call.\<close>

definition with_holder ::
  "('s, 'h res \<times> obs_event list) state \<Rightarrow> ('h \<Rightarrow> ('s, err \<times> 'h \<times> obs_event list) state) \<Rightarrow> ('s, fn_res) state \<Rightarrow>
   ('s, fn_res \<times> obs_event list) state" where
  "with_holder acq rel fn = do {
     (r, evs) \<leftarrow> acq;
     case r of
       Inl acqErr \<Rightarrow> ret (Returned (Some acqErr), evs)
     | Inr holder \<Rightarrow> do {
         x \<leftarrow> fn;
         (relErr, h', evs') \<leftarrow> rel holder;
         ret (merge_release x relErr, evs @ evs')
       }
   }"

text \<open>The hold time of a release, when the holder knows when it was acquired.\<close>

definition hold_events ::
  "'s host \<Rightarrow> gtime \<Rightarrow> (duration \<Rightarrow> obs_event list) \<Rightarrow> ('s, obs_event list) state" where
  "hold_events H acquiredAt recordHold =
     (if \<not> isZero acquiredAt then do { now \<leftarrow> ho_now H; ret (recordHold (time_sub now acquiredAt)) } else ret [])"

text \<open>The adapters compare with the package's sentinel by identity.\<close>

definition to_lock_err :: "gerr \<Rightarrow> 'h res \<Rightarrow> 'h res" where
  "to_lock_err errLocked r = (case r of
     Inl e \<Rightarrow> if e = errLocked then Inl lock_ErrLocked else Inl e
   | Inr h \<Rightarrow> Inr h)"

section \<open>Postconditions\<close>

definition after :: "('s, 'a) state \<Rightarrow> ('a \<Rightarrow> 's \<Rightarrow> bool) \<Rightarrow> 's \<Rightarrow> bool" where
  "after m Q s \<longleftrightarrow> Q (fst (run_state m s)) (snd (run_state m s))"

lemma after_return [simp]: "after (ret a) Q = Q a"
  by (simp add: after_def fun_eq_iff)

lemma after_bind [simp]: "after (State_Monad.bind m f) Q = after m (\<lambda>a. after (f a) Q)"
  by (simp add: after_def case_prod_beta fun_eq_iff)

lemma after_mono: "after m Q s \<Longrightarrow> (\<And>a s'. Q a s' \<Longrightarrow> R a s') \<Longrightarrow> after m R s"
  by (simp add: after_def)

lemma afterI: "(\<And>a s'. run_state m s = (a, s') \<Longrightarrow> Q a s') \<Longrightarrow> after m Q s"
  by (simp add: after_def)

lemma afterD: "after m Q s \<Longrightarrow> run_state m s = (a, s') \<Longrightarrow> Q a s'"
  by (simp add: after_def)

lemma afterE: "after m Q s \<Longrightarrow> (\<And>a s'. run_state m s = (a, s') \<Longrightarrow> Q a s' \<Longrightarrow> thesis) \<Longrightarrow> thesis"
  unfolding after_def by (cases "run_state m s") simp

lemma after_conj: "after m Q s \<Longrightarrow> after m R s \<Longrightarrow> after m (\<lambda>a s'. Q a s' \<and> R a s') s"
  by (simp add: after_def)

section \<open>What a server promises\<close>

text \<open>
  \<open>serves env view m post\<close>: running \<open>m\<close> changes the view as \<open>post\<close> says, at one moment, and as
  \<open>env\<close> says before and after it.  The others may do nothing, and may do several things.
\<close>

definition serves ::
  "('d \<Rightarrow> 'd \<Rightarrow> bool) \<Rightarrow> ('s \<Rightarrow> 'd) \<Rightarrow> ('s, 'a) state \<Rightarrow> ('d \<Rightarrow> 'a \<Rightarrow> 'd \<Rightarrow> bool) \<Rightarrow> bool" where
  "serves env view m post \<longleftrightarrow>
     (\<forall>s. after m (\<lambda>a s'. \<exists>d1 d2. env (view s) d1 \<and> post d1 a d2 \<and> env d2 (view s')) s)"

definition world_ok :: "('d \<Rightarrow> 'd \<Rightarrow> bool) \<Rightarrow> bool" where
  "world_ok env \<longleftrightarrow> reflp env \<and> transp env"

lemma world_okD: "world_ok env \<Longrightarrow> env d d" "world_ok env \<Longrightarrow> env d d' \<Longrightarrow> env d' d'' \<Longrightarrow> env d d''"
  unfolding world_ok_def by (blast dest: reflpD transpD)+

lemma world_ok_eq [simp]: "world_ok (=)"
  by (simp add: world_ok_def)

text \<open>What the others leave true.\<close>

definition stable :: "('d \<Rightarrow> 'd \<Rightarrow> bool) \<Rightarrow> ('d \<Rightarrow> bool) \<Rightarrow> bool" where
  "stable env I \<longleftrightarrow> (\<forall>d d'. env d d' \<longrightarrow> I d \<longrightarrow> I d')"

lemma stableD: "stable env I \<Longrightarrow> env d d' \<Longrightarrow> I d \<Longrightarrow> I d'"
  by (simp add: stable_def)

lemma after_serves:
  assumes "serves env view m post"
    and "\<And>a s' d1 d2. env (view s) d1 \<Longrightarrow> post d1 a d2 \<Longrightarrow> env d2 (view s') \<Longrightarrow> Q a s'"
  shows "after m Q s"
  using assms unfolding serves_def by (blast intro: after_mono)

text \<open>A call that fails in no state, when \<open>up\<close>.\<close>

definition sure :: "bool \<Rightarrow> ('d \<Rightarrow> 'a res \<Rightarrow> 'd \<Rightarrow> bool) \<Rightarrow> 'd \<Rightarrow> 'a res \<Rightarrow> 'd \<Rightarrow> bool" where
  "sure up post d r d' \<longleftrightarrow> post d r d' \<and> (up \<longrightarrow> \<not> isl r)"

lemma sure_False [simp]: "sure False post = post"
  by (simp add: sure_def fun_eq_iff)

text \<open>The clock, the context and the random source are not on the server.\<close>

definition host_laws :: "('d \<Rightarrow> 'd \<Rightarrow> bool) \<Rightarrow> ('s \<Rightarrow> 'd) \<Rightarrow> 's host \<Rightarrow> bool" where
  "host_laws env view H \<longleftrightarrow> world_ok env \<and> serves env view (ho_now H) (\<lambda>d a d'. d' = d) \<and>
     (\<forall>c. serves env view (ho_ctxErr H c) (\<lambda>d a d'. d' = d)) \<and>
     serves env view (ho_randRead H) (\<lambda>d a d'. d' = d)"

definition host_up :: "'s host \<Rightarrow> bool" where
  "host_up H \<longleftrightarrow> (\<forall>c s. after (ho_ctxErr H c) (\<lambda>e _. e = None) s) \<and>
     (\<forall>s. after (ho_randRead H) (\<lambda>r _. \<not> isl r) s)"

lemma after_local:
  assumes "world_ok env" "serves env view m (\<lambda>d a d'. d' = d)" "\<And>a s'. env (view s) (view s') \<Longrightarrow> Q a s'"
  shows "after m Q s"
  by (rule after_serves[OF assms(2)]) (use world_okD[OF assms(1)] assms(3) in blast)

lemma host_steps:
  assumes "host_laws env view H" "\<And>a s'. env (view s) (view s') \<Longrightarrow> Q a s'"
  shows "after (ho_now H) Q s"
  by (rule after_local[of env view]) (use assms in \<open>auto simp: host_laws_def\<close>)

lemma host_ctxErr:
  assumes "host_laws env view H" "\<And>a s'. env (view s) (view s') \<Longrightarrow> Q a s'"
  shows "after (ho_ctxErr H c) Q s"
  by (rule after_local[of env view]) (use assms in \<open>auto simp: host_laws_def\<close>)

lemma host_rand:
  assumes "host_laws env view H" "\<And>a s'. env (view s) (view s') \<Longrightarrow> Q a s'"
  shows "after (ho_randRead H) Q s"
  by (rule after_local[of env view]) (use assms in \<open>auto simp: host_laws_def\<close>)

lemma host_hold:
  assumes "host_laws env view H" "\<And>a s'. env (view s) (view s') \<Longrightarrow> Q a s'"
  shows "after (hold_events H t rec) Q s"
proof -
  have "env (view s) (view s)" by (rule world_okD(1)) (use assms(1) in \<open>simp add: host_laws_def\<close>)
  then have "Q [] s" by (rule assms(2))
  moreover have "after (ho_now H) (\<lambda>now. Q (rec (time_sub now t))) s"
    by (rule host_steps[OF assms(1)]) (rule assms(2))
  ultimately show ?thesis by (simp add: hold_events_def)
qed

section \<open>The shared parts under any server\<close>

text \<open>Whatever the body does, the hooks see one attempt, with the outcome of the result.\<close>

lemma observed_events:
  assumes "run_state (observed H pkg op el stamp obs c name body) s = ((r, evs), s')"
  shows "metrics obs = Some rec \<Longrightarrow> attempts rec evs = [(name, outcome_for el (err_of r))]"
    "gauge rec n evs = (if metrics obs = Some rec \<and> n = name \<and> \<not> isl r then 1 else 0)"
  using assms by (auto simp: observed_def Let_def err_of_def split: prod.splits sum.splits)

text \<open>What holds of the view when the body ends, and the others cannot change, holds at the end.\<close>

definition settled_res ::
  "(gerr \<Rightarrow> 'd \<Rightarrow> bool) \<Rightarrow> ('h \<Rightarrow> 'd \<Rightarrow> bool) \<Rightarrow> ('s \<Rightarrow> 'd) \<Rightarrow> 'h res \<Rightarrow> 's \<Rightarrow> bool" where
  "settled_res QE QH view r s \<longleftrightarrow> (case r of Inl e \<Rightarrow> QE e (view s) | Inr h \<Rightarrow> QH h (view s))"

lemma settled_res_simps [simp]:
  "settled_res QE QH view (Inl e) s \<longleftrightarrow> QE e (view s)" "settled_res QE QH view (Inr h) s \<longleftrightarrow> QH h (view s)"
  by (simp_all add: settled_res_def)

lemma settled_res_fail: "settled_res QE QH view (Inl e) = (\<lambda>s. QE e (view s))"
  by (rule ext) simp

lemma settled_resI: "isl r \<and> I (view s) \<Longrightarrow> settled_res (\<lambda>_. I) (\<lambda>_ _. False) view r s"
  by (auto simp: settled_res_def split: sum.splits)

lemma after_observed:
  assumes "host_laws env view H"
    and "\<And>s1. env (view s) (view s1) \<Longrightarrow>
      after (body (fst (start_span obs c op)) (extract_trace obs c)) (settled_res QE QH view) s1"
    and "\<And>e d d'. env d d' \<Longrightarrow> QE e d \<Longrightarrow> QE e d'" "\<And>h d d'. env d d' \<Longrightarrow> QH h d \<Longrightarrow> QH h d'"
    and "\<And>h d t. QH h d \<Longrightarrow> QH (stamp obs name t h) d"
  shows "after (observed H pkg op el stamp obs c name body) (\<lambda>(r, evs). settled_res QE QH view r) s"
proof -
  have last: "after (case r of Inl e \<Rightarrow> ret (Inl e, evs)
      | Inr h \<Rightarrow> State_Monad.bind (ho_now H) (\<lambda>now. ret (Inr (stamp obs name now h), evs')))
      (\<lambda>(r, evs). settled_res QE QH view r) s3"
    if "settled_res QE QH view r s2" "env (view s2) (view s3)" for r evs evs' s2 s3
  proof (cases r)
    case (Inl e)
    then show ?thesis using that assms(3) by auto
  next
    case (Inr h)
    then have "after (ho_now H) (\<lambda>t s'. QH (stamp obs name t h) (view s')) s3"
      using that assms(4,5) by (intro host_steps[OF assms(1)]) auto
    then show ?thesis using Inr by simp
  qed
  have end_ok: "after (ho_now H) (\<lambda>t. after (case r of Inl e \<Rightarrow> ret (Inl e, evs t)
      | Inr h \<Rightarrow> State_Monad.bind (ho_now H) (\<lambda>now. ret (Inr (stamp obs name now h), evs' t)))
      (\<lambda>(r, evs). settled_res QE QH view r)) s2"
    if "settled_res QE QH view r s2" for r evs evs' s2
    by (intro host_steps[OF assms(1)]) (rule last[OF that])
  show ?thesis
    unfolding observed_def Let_def after_bind
    by (rule host_steps[OF assms(1)], rule after_mono[OF assms(2)]) (assumption, rule end_ok)
qed

text \<open>The loop uses its slot action on the slots only.\<close>

lemma try_slots_cong: "(\<And>i. i \<in> set is \<Longrightarrow> f i = g i) \<Longrightarrow> try_slots el f is = try_slots el g is"
proof (induction "is")
  case (Cons i "is")
  then have "f i = g i" "try_slots el f is = try_slots el g is" by simp_all
  then show ?case by (simp only: try_slots.simps)
qed simp

text \<open>The slots before the first that is not refused are passed over.\<close>

lemma after_try_slots_skip:
  assumes "\<And>i s. i \<in> set is \<Longrightarrow> P s \<Longrightarrow> after (f i) (\<lambda>r s'. r = Inl el \<and> P s') s" "P s"
    and "\<And>s. P s \<Longrightarrow> after (try_slots el f js) Q s"
  shows "after (try_slots el f (is @ js)) Q s"
  using assms(1,2)
proof (induction "is" arbitrary: s)
  case (Cons i "is")
  show ?case
    unfolding append_Cons try_slots.simps after_bind
    by (rule after_mono[OF Cons.prems(1)[of i]]) (use Cons in auto)
qed (simp add: assms(3))

section \<open>The slots of an acquire\<close>

text \<open>
  \<open>J\<close> holds until a slot is had, and \<open>W\<close> of the holder from then on, under interference that leaves
  them true.
\<close>

lemma observed_any:
  assumes "host_laws env view H" "stable env J" "\<And>h. stable env (W h)"
    and stamp: "\<And>h d t. W h d \<Longrightarrow> W (stamp obs name t h) d"
    and slot: "\<And>c' tr i s. i \<in> set (slots_of n) \<Longrightarrow> J (view s) \<Longrightarrow> after (f c' tr i) (settled_res (\<lambda>_. J) W view) s"
    and "J (view s)"
  shows "after (observed H pkg op el stamp obs c name (\<lambda>c' tr. slot_body H el n c' (f c' tr)))
    (\<lambda>(r, evs). settled_res (\<lambda>_. J) W view r) s"
proof -
  let ?Q = "settled_res (\<lambda>_. J) W view"
  have "after (try_slots el (f c' tr) is) ?Q s1" if "set is \<subseteq> set (slots_of n)" "J (view s1)" for c' tr "is" s1
    using that
  proof (induction "is" arbitrary: s1)
    case (Cons i "is")
    then have "after (f c' tr i) ?Q s1" by (intro slot) auto
    then show ?case
      unfolding try_slots.simps after_bind by (rule after_mono) (use Cons in \<open>auto split: sum.splits\<close>)
  qed simp
  then have slots: "after (if n \<le> 1 then f c' tr (- 1) else try_slots el (f c' tr) (slots_of n)) ?Q s1"
    if "J (view s1)" for c' tr s1
    using that slot[of "- 1"] by (auto simp: slots_of_def)
  have "after (slot_body H el n c' (f c' tr)) ?Q s1" if "J (view s1)" for c' tr s1
    unfolding slot_body_def after_bind
    by (rule host_ctxErr[OF assms(1)]) (use that slots stableD[OF assms(2)] in \<open>auto split: option.splits\<close>)
  then show ?thesis
    by (intro after_observed[OF assms(1)]) (use stableD[OF assms(2)] stableD[OF assms(3)] assms(6) stamp in auto)
qed

text \<open>No slot can be had.\<close>

lemma observed_none:
  assumes "host_laws env view H" "stable env I"
    and slot: "\<And>c' tr i s. i \<in> set (slots_of n) \<Longrightarrow> I (view s) \<Longrightarrow> after (f c' tr i) (\<lambda>r s'. isl r \<and> I (view s')) s"
    and "I (view s)"
  shows "after (observed H pkg op el stamp obs c name (\<lambda>c' tr. slot_body H el n c' (f c' tr)))
    (\<lambda>(r, evs) s'. isl r \<and> I (view s')) s"
proof -
  have "after (observed H pkg op el stamp obs c name (\<lambda>c' tr. slot_body H el n c' (f c' tr)))
      (\<lambda>(r, evs). settled_res (\<lambda>_. I) (\<lambda>_ _. False) view r) s"
    by (rule observed_any[where J = I, OF assms(1,2)])
      (use assms(4) in \<open>auto simp: stable_def intro: after_mono[OF slot] settled_resI\<close>)
  then show ?thesis by (rule after_mono) (auto simp: settled_res_def split: sum.splits)
qed

text \<open>The context is not done, and \<open>J\<close> holds until a slot is had.\<close>

lemma up_slot_body:
  assumes "host_laws env view H" "host_up H" "stable env J" "J (view s)"
    and "\<And>s1. J (view s1) \<Longrightarrow> after (if n \<le> 1 then f (- 1) else try_slots el f (slots_of n)) Q s1"
  shows "after (slot_body H el n c f) Q s"
proof -
  have "after (ho_ctxErr H c) (\<lambda>e _. e = None) s" using assms(2) by (simp add: host_up_def)
  moreover have "after (ho_ctxErr H c) (\<lambda>_ s'. J (view s')) s"
    by (rule host_ctxErr[OF assms(1)]) (use stableD[OF assms(3)] assms(4) in blast)
  ultimately have "after (ho_ctxErr H c) (\<lambda>e s'. e = None \<and> J (view s')) s" by (rule after_conj)
  then show ?thesis unfolding slot_body_def after_bind by (rule after_mono) (use assms(5) in auto)
qed

lemma observed_first:
  assumes "host_laws env view H" "host_up H" "stable env J" "\<And>h. stable env (W h)" "slots_of n = is @ j # js" "J (view s)"
    and held: "\<And>c' tr i s1. i \<in> set is \<Longrightarrow> J (view s1) \<Longrightarrow> after (f c' tr i) (\<lambda>r s'. r = Inl el \<and> J (view s')) s1"
    and free: "\<And>c' s1. J (view s1) \<Longrightarrow>
      after (f c' (extract_trace obs c) j) (\<lambda>r s'. \<exists>h. r = Inr h \<and> W h (view s')) s1"
    and stamp: "\<And>h d t. W h d \<Longrightarrow> W (stamp obs name t h) d"
  shows "after (observed H pkg op el stamp obs c name (\<lambda>c' tr. slot_body H el n c' (f c' tr)))
    (\<lambda>(r, evs) s'. \<exists>h. r = Inr h \<and> W h (view s')) s"
proof -
  let ?tr = "extract_trace obs c" and ?Q = "\<lambda>r s'. \<exists>h. r = Inr h \<and> W h (view s')"
  have first: "after (try_slots el (f c' ?tr) (j # js)) ?Q s1" if "J (view s1)" for c' s1
    using free[OF that, of c'] unfolding try_slots.simps after_bind by (rule after_mono) auto
  have "after (if n \<le> 1 then f c' ?tr (- 1) else try_slots el (f c' ?tr) (slots_of n)) ?Q s1" if "J (view s1)" for c' s1
  proof (cases "n \<le> 1")
    case True
    then have "j = - 1" using assms(5) by (cases "is") (auto simp: slots_of_def)
    with free[OF that] True show ?thesis by simp
  next
    case False
    have "after (try_slots el (f c' ?tr) (is @ j # js)) ?Q s1"
      by (rule after_try_slots_skip[where P = "\<lambda>s1. J (view s1)"]) (use held that first in auto)
    with False assms(5) show ?thesis by simp
  qed
  then have body: "after (slot_body H el n c' (f c' ?tr)) ?Q s1" if "J (view s1)" for c' s1
    by (intro up_slot_body[where J = J, OF assms(1-3)]) (use that in auto)
  have "after (slot_body H el n c' (f c' ?tr)) (settled_res (\<lambda>_ _. False) W view) s1" if "J (view s1)" for c' s1
    by (rule after_mono[OF body[OF that]]) auto
  then have "after (observed H pkg op el stamp obs c name (\<lambda>c' tr. slot_body H el n c' (f c' tr)))
      (\<lambda>(r, evs). settled_res (\<lambda>_ _. False) W view r) s"
    by (intro after_observed[OF assms(1)]) (use stamp stableD[OF assms(3)] stableD[OF assms(4)] assms(6) in auto)
  then show ?thesis by (rule after_mono) (auto simp: settled_res_def split: sum.splits)
qed

lemma observed_held:
  assumes "host_laws env view H" "host_up H" "stable env J" "J (view s)"
    and held: "\<And>c' tr i s1. i \<in> set (slots_of n) \<Longrightarrow> J (view s1) \<Longrightarrow> after (f c' tr i) (\<lambda>r s'. r = Inl el \<and> J (view s')) s1"
  shows "after (observed H pkg op el stamp obs c name (\<lambda>c' tr. slot_body H el n c' (f c' tr)))
    (\<lambda>(r, evs) s'. r = Inl el \<and> J (view s')) s"
proof -
  let ?Q = "\<lambda>r s'. r = Inl el \<and> J (view s')"
  have "after (try_slots el (f c' tr) (slots_of n @ [])) ?Q s1" if "J (view s1)" for c' tr s1
    by (rule after_try_slots_skip[where P = "\<lambda>s1. J (view s1)"]) (use held that in auto)
  then have "after (if n \<le> 1 then f c' tr (- 1) else try_slots el (f c' tr) (slots_of n)) ?Q s1"
    if "J (view s1)" for c' tr s1
    using that held[of "- 1" s1 c' tr] by (auto simp: slots_of_def)
  then have body: "after (slot_body H el n c' (f c' tr)) ?Q s1" if "J (view s1)" for c' tr s1
    by (intro up_slot_body[where J = J, OF assms(1-3)]) (use that in auto)
  have "after (slot_body H el n c' (f c' tr)) (settled_res (\<lambda>e d. e = el \<and> J d) (\<lambda>_ _. False) view) s1"
    if "J (view s1)" for c' tr s1
    by (rule after_mono[OF body[OF that]]) auto
  then have "after (observed H pkg op el stamp obs c name (\<lambda>c' tr. slot_body H el n c' (f c' tr)))
      (\<lambda>(r, evs). settled_res (\<lambda>e d. e = el \<and> J d) (\<lambda>_ _. False) view r) s"
    by (intro after_observed[OF assms(1)]) (use stableD[OF assms(3)] assms(4) in auto)
  then show ?thesis by (rule after_mono) (auto simp: settled_res_def split: sum.splits)
qed

lemma stable_eq [simp]: "stable (=) I"
  by (simp add: stable_def)

section \<open>A host\<close>

text \<open>A clock that stands still, a context that is never done, and the same bytes every time.\<close>

definition plain_host :: "'s host" where
  "plain_host = \<lparr>ho_now = ret 1, ho_ctxErr = (\<lambda>_. ret None), ho_randRead = ret (Inr (replicate 16 (CHR ''A'')))\<rparr>"

lemma serves_ret: "world_ok env \<Longrightarrow> serves env view (ret a) (\<lambda>d a d'. d' = d)"
  unfolding serves_def using world_okD(1)[of env] by auto

lemma plain_host_laws [simp]: "world_ok env \<Longrightarrow> host_laws env view plain_host"
  by (simp add: host_laws_def plain_host_def serves_ret)

lemma plain_host_up [simp]: "host_up plain_host"
  by (simp add: host_up_def plain_host_def)

lemma serves_mono: "serves (=) view m post \<Longrightarrow> world_ok env \<Longrightarrow> serves env view m post"
  unfolding serves_def using world_okD(1)[of env] by (fastforce elim!: after_mono)

end
