(* ===== verification/Redislock.thy ===== *)
theory Redislock
  imports Server_Api
begin

text \<open>
  The package \<open>redislock\<close>: a lock is a key of a Redis server, set if absent and with a time to
  live; a holder knows the random value it set, and a script on the server deletes or extends the
  key only while it has that value.  The client library is the parameter \<open>redis\<close>.
\<close>

section \<open>Errors, configuration and hooks\<close>

definition rd_ErrLocked :: gerr where
  "rd_ErrLocked = Sentinel ''redislock: already locked''"

definition rd_ErrLockLost :: gerr where
  "rd_ErrLockLost = Sentinel ''redislock: lock lost (TTL expired or stolen)''"

declare rd_ErrLocked_def [sentinel_defs] rd_ErrLockLost_def [sentinel_defs]

record rd_config =
  rc_ttl :: duration
  rc_keyPrefix :: string
  rc_maxConcurrent :: int
  rc_observe :: observeOptions

definition rd_defaultConfig :: rd_config where
  "rd_defaultConfig =
     \<lparr>rc_ttl = 30 * second, rc_keyPrefix = ''redislock'', rc_maxConcurrent = 1, rc_observe = no_observe\<rparr>"

type_synonym rd_option = "(rd_config \<Rightarrow> rd_config) option"

fun rd_applyOptions :: "rd_config \<Rightarrow> rd_option list \<Rightarrow> rd_config" where
  "rd_applyOptions cfg [] = cfg"
| "rd_applyOptions cfg (None # opts) = rd_applyOptions cfg opts"
| "rd_applyOptions cfg (Some opt # opts) = rd_applyOptions (opt cfg) opts"

definition rd_WithTTL :: "duration \<Rightarrow> rd_option" where
  "rd_WithTTL d = Some (\<lambda>c. c\<lparr>rc_ttl := d\<rparr>)"

definition rd_WithKeyPrefix :: "string \<Rightarrow> rd_option" where
  "rd_WithKeyPrefix pre = Some (\<lambda>c. c\<lparr>rc_keyPrefix := pre\<rparr>)"

definition rd_WithMaxConcurrent :: "int \<Rightarrow> rd_option" where
  "rd_WithMaxConcurrent n = Some (\<lambda>c. c\<lparr>rc_maxConcurrent := (if n < 1 then 1 else n)\<rparr>)"

definition rd_WithMetrics :: "nat option \<Rightarrow> rd_option" where
  "rd_WithMetrics r = Some (\<lambda>c. c\<lparr>rc_observe := (rc_observe c)\<lparr>metrics := r\<rparr>\<rparr>)"

definition rd_WithSpanStarter :: "(ctx \<Rightarrow> string \<Rightarrow> ctx) option \<Rightarrow> rd_option" where
  "rd_WithSpanStarter st = Some (\<lambda>c. c\<lparr>rc_observe := (rc_observe c)\<lparr>span := st\<rparr>\<rparr>)"

definition rd_WithLogger :: "nat option \<Rightarrow> rd_option" where
  "rd_WithLogger l = Some (\<lambda>c. c\<lparr>rc_observe := (rc_observe c)\<lparr>logger := l\<rparr>\<rparr>)"

definition rd_WithTraceIDExtractor :: "(ctx \<Rightarrow> string) option \<Rightarrow> rd_option" where
  "rd_WithTraceIDExtractor ext = Some (\<lambda>c. c\<lparr>rc_observe := (rc_observe c)\<lparr>traceID_ext := ext\<rparr>\<rparr>)"

lemmas rd_config_defs [cfg_simps] =
  rd_WithTTL_def rd_WithKeyPrefix_def rd_WithMaxConcurrent_def rd_WithMetrics_def rd_WithSpanStarter_def
  rd_WithLogger_def rd_WithTraceIDExtractor_def rd_defaultConfig_def

definition rd_startSpan :: "observeOptions \<Rightarrow> ctx \<Rightarrow> string \<Rightarrow> ctx \<times> obs_event list" where
  "rd_startSpan obs c op = start_span obs c op"

definition rd_recordAcquire ::
  "observeOptions \<Rightarrow> string \<Rightarrow> string \<Rightarrow> duration \<Rightarrow> string \<Rightarrow> err \<Rightarrow> obs_event list" where
  "rd_recordAcquire obs n oc d traceID e = record_acquire ''redislock'' obs n oc d traceID e"

definition rd_recordActive :: "observeOptions \<Rightarrow> string \<Rightarrow> int \<Rightarrow> obs_event list" where
  "rd_recordActive obs n delta = record_active obs n delta"

definition rd_recordHold :: "observeOptions \<Rightarrow> string \<Rightarrow> duration \<Rightarrow> obs_event list" where
  "rd_recordHold obs n d = record_hold ''redislock'' obs n d"

definition rd_extractTraceID :: "observeOptions \<Rightarrow> ctx \<Rightarrow> string" where
  "rd_extractTraceID obs c = extract_trace obs c"

definition rd_outcomeFor :: "err \<Rightarrow> string" where
  "rd_outcomeFor e = outcome_for rd_ErrLocked e"

lemmas rd_hook_defs = rd_startSpan_def rd_recordAcquire_def rd_recordActive_def rd_recordHold_def
  rd_extractTraceID_def rd_outcomeFor_def

section \<open>The scripts\<close>

text \<open>
  \<open>scripts.go\<close> holds two Lua programs.  A Lua program is a tree of \<open>redis.call\<close>s; a missing
  key reads as \<open>false\<close>, which equals no string.
\<close>

datatype redis_call = GET string | DEL string | PEXPIRE string string

datatype lua_value = LFalse | LInt int | LString string

datatype lua = LReturn lua_value | LCall redis_call "lua_value \<Rightarrow> lua"

definition releaseScript :: "string list \<Rightarrow> string list \<Rightarrow> lua" where
  "releaseScript KEYS ARGV =
     LCall (GET (KEYS ! 0)) (\<lambda>v.
       if v = LString (ARGV ! 0) then LCall (DEL (KEYS ! 0)) (\<lambda>r. LReturn r) else LReturn (LInt 0))"

definition extendScript :: "string list \<Rightarrow> string list \<Rightarrow> lua" where
  "extendScript KEYS ARGV =
     LCall (GET (KEYS ! 0)) (\<lambda>v.
       if v = LString (ARGV ! 0) then LCall (PEXPIRE (KEYS ! 0) (ARGV ! 1)) (\<lambda>r. LReturn r)
       else LReturn (LInt 0))"

section \<open>The client library\<close>

text \<open>
  What the code calls on a \<open>redis.Cmdable\<close> and a \<open>redis.Script\<close>: a result and an error, as the
  method \<open>Result()\<close> gives them.
\<close>

record 's redis =
  is_Cmdable :: bool
  SetNX :: "ctx \<Rightarrow> string \<Rightarrow> string \<Rightarrow> duration \<Rightarrow> ('s, bool \<times> err) state"
  Incr :: "ctx \<Rightarrow> string \<Rightarrow> ('s, 64 word \<times> err) state"
  RunScript :: "ctx \<Rightarrow> (string list \<Rightarrow> string list \<Rightarrow> lua) \<Rightarrow> string list \<Rightarrow> string list \<Rightarrow>
    ('s, lua_value \<times> err) state"

section \<open>Keys and holder values\<close>

definition lockKey :: "string \<Rightarrow> string \<Rightarrow> string" where
  "lockKey pre name = pre @ '':'' @ name"

definition slotLockKey :: "string \<Rightarrow> string \<Rightarrow> int \<Rightarrow> string" where
  "slotLockKey pre name slot = pre @ '':'' @ name @ '':'' @ itoa slot"

definition fenceKey :: "string \<Rightarrow> string \<Rightarrow> string" where
  "fenceKey pre name = pre @ '':'' @ name @ '':fence''"

definition hex_digit :: "nat \<Rightarrow> char" where
  "hex_digit n = ''0123456789abcdef'' ! (n mod 16)"

definition hex_encode :: "string \<Rightarrow> string" where
  "hex_encode bs = concat (map (\<lambda>b. [hex_digit (of_char b div 16), hex_digit (of_char b)]) bs)"

definition randomToken :: "'s host \<Rightarrow> ('s, string res) state" where
  "randomToken H = do {
     b \<leftarrow> ho_randRead H;
     ret (case b of Inl e \<Rightarrow> Inl e | Inr bytes \<Rightarrow> Inr (hex_encode bytes))
   }"

definition HolderIdentifier :: "string \<Rightarrow> string" where
  "HolderIdentifier value =
     (if CHR ''|'' \<in> set value then takeWhile (\<lambda>x. x \<noteq> CHR ''|'') value else value)"

section \<open>Acquire\<close>

record rd_holder =
  rh_key :: string
  rh_value :: string
  rh_token :: "64 word"
  rh_ttl :: duration
  rh_name :: string
  rh_acquiredAt :: gtime
  rh_observe :: observeOptions
  rh_released :: bool

definition rd_Holder_Token :: "rd_holder \<Rightarrow> 64 word" where
  "rd_Holder_Token h = rh_token h"

definition rd_Holder_Key :: "rd_holder \<Rightarrow> string" where
  "rd_Holder_Key h = rh_key h"

definition rd_slot_key :: "rd_config \<Rightarrow> string \<Rightarrow> int \<Rightarrow> string" where
  "rd_slot_key cfg name slot =
     (if slot < 0 then lockKey (rc_keyPrefix cfg) name else slotLockKey (rc_keyPrefix cfg) name slot)"

definition rd_value :: "string \<Rightarrow> string \<Rightarrow> string" where
  "rd_value identifier traceID = (if traceID \<noteq> [] then identifier @ ''|trace:'' @ traceID else identifier)"

definition rd_acquireSlot ::
  "'s host \<Rightarrow> 's redis \<Rightarrow> ctx \<Rightarrow> string \<Rightarrow> rd_config \<Rightarrow> int \<Rightarrow> string \<Rightarrow> ('s, rd_holder res) state" where
  "rd_acquireSlot H rdb c name cfg slot traceID = do {
     id \<leftarrow> randomToken H;
     case id of
       Inl err \<Rightarrow> ret (Inl (Wrap ''redislock: random'' err))
     | Inr identifier \<Rightarrow> do {
         let value = rd_value identifier traceID;
         let key = rd_slot_key cfg name slot;
         (gotIt, err) \<leftarrow> SetNX rdb c key value (rc_ttl cfg);
         case err of
           Some e \<Rightarrow> ret (Inl (Wrap ''redislock: setnx'' e))
         | None \<Rightarrow>
             if \<not> gotIt then ret (Inl rd_ErrLocked)
             else do {
               (tok, _) \<leftarrow> Incr rdb c (fenceKey (rc_keyPrefix cfg) name);
               ret (Inr \<lparr>rh_key = key, rh_value = value, rh_token = tok, rh_ttl = rc_ttl cfg, rh_name = [],
                         rh_acquiredAt = 0, rh_observe = no_observe, rh_released = False\<rparr>)
             }
       }
   }"

definition rd_acquire_body ::
  "'s host \<Rightarrow> 's redis \<Rightarrow> string \<Rightarrow> rd_config \<Rightarrow> ctx \<Rightarrow> string \<Rightarrow> ('s, rd_holder res) state" where
  "rd_acquire_body H rdb name cfg c traceID = do {
     ctxErr \<leftarrow> ho_ctxErr H c;
     case ctxErr of
       Some e \<Rightarrow> ret (Inl e)
     | None \<Rightarrow>
         if \<not> is_Cmdable rdb then ret (Inl (Sentinel ''redislock: rdb must implement redis.Cmdable''))
         else if rc_maxConcurrent cfg \<le> 1 then rd_acquireSlot H rdb c name cfg (- 1) traceID
         else try_slots rd_ErrLocked (\<lambda>slot. rd_acquireSlot H rdb c name cfg slot traceID)
                (map int [0..<nat (rc_maxConcurrent cfg)])
   }"

definition rd_stamp :: "observeOptions \<Rightarrow> string \<Rightarrow> gtime \<Rightarrow> rd_holder \<Rightarrow> rd_holder" where
  "rd_stamp obs name t h = h\<lparr>rh_observe := obs, rh_name := name, rh_acquiredAt := t\<rparr>"

definition rd_acquire ::
  "'s host \<Rightarrow> 's redis \<Rightarrow> ctx \<Rightarrow> string \<Rightarrow> rd_config \<Rightarrow> ('s, rd_holder res \<times> obs_event list) state" where
  "rd_acquire H rdb c name cfg = do {
     start \<leftarrow> ho_now H;
     let obs = rc_observe cfg;
     let traceID = rd_extractTraceID obs c;
     let c' = fst (rd_startSpan obs c ''redislock.Acquire'');
     r \<leftarrow> rd_acquire_body H rdb name cfg c' traceID;
     done \<leftarrow> ho_now H;
     let outcome = rd_outcomeFor (err_of r);
     let evs = snd (rd_startSpan obs c ''redislock.Acquire'') @ finish_span obs (err_of r) @
           rd_recordAcquire obs name outcome (time_sub done start) traceID (err_of r);
     case r of
       Inl e \<Rightarrow> ret (Inl e, evs)
     | Inr h \<Rightarrow> do {
         now \<leftarrow> ho_now H;
         ret (Inr (rd_stamp obs name now h), evs @ rd_recordActive obs name 1)
       }
   }"

lemma rd_acquire_observed:
  "rd_acquire H rdb c name cfg =
     observed H ''redislock'' ''redislock.Acquire'' rd_ErrLocked rd_stamp (rc_observe cfg) c name (rd_acquire_body H rdb name cfg)"
  unfolding rd_acquire_def observed_def rd_hook_defs Let_def by (rule refl)

lemma rd_acquire_slots:
  "is_Cmdable rdb \<Longrightarrow> rd_acquire H rdb c name cfg =
     observed H ''redislock'' ''redislock.Acquire'' rd_ErrLocked rd_stamp (rc_observe cfg) c name
       (\<lambda>c' tr. slot_body H rd_ErrLocked (rc_maxConcurrent cfg) c' (\<lambda>i. rd_acquireSlot H rdb c' name cfg i tr))"
  "\<not> is_Cmdable rdb \<Longrightarrow> rd_acquire H rdb c name cfg =
     observed H ''redislock'' ''redislock.Acquire'' rd_ErrLocked rd_stamp (rc_observe cfg) c name
       (\<lambda>c' tr. slot_body H rd_ErrLocked 0 c' (\<lambda>i. ret (Inl (Sentinel ''redislock: rdb must implement redis.Cmdable''))))"
  unfolding rd_acquire_observed rd_acquire_body_def slot_body_def slots_of_def by (simp_all cong: if_cong)

section \<open>Release and Extend\<close>

definition rd_ReleaseContext ::
  "'s host \<Rightarrow> 's redis \<Rightarrow> ctx \<Rightarrow> rd_holder \<Rightarrow> ('s, err \<times> rd_holder \<times> obs_event list) state" where
  "rd_ReleaseContext H rdb c h =
     (if rh_released h then ret (None, h, [])
      else do {
        let h' = h\<lparr>rh_released := True\<rparr>;
        (res, err) \<leftarrow> RunScript rdb c releaseScript [rh_key h] [rh_value h];
        hold \<leftarrow> hold_events H (rh_acquiredAt h) (rd_recordHold (rh_observe h) (rh_name h));
        let evs = hold @ rd_recordActive (rh_observe h) (rh_name h) (- 1);
        ret (case err of
               Some e \<Rightarrow> Some (Wrap ''redislock: release'' e)
             | None \<Rightarrow> (case res of
                 LInt deleted \<Rightarrow> if deleted = 0 then Some rd_ErrLockLost else None
               | _ \<Rightarrow> Some rd_ErrLockLost), h', evs)
      })"

definition rd_Release ::
  "'s host \<Rightarrow> 's redis \<Rightarrow> rd_holder \<Rightarrow> ('s, err \<times> rd_holder \<times> obs_event list) state" where
  "rd_Release H rdb h = rd_ReleaseContext H rdb background h"

text \<open>\<open>Duration.Milliseconds\<close> truncates toward zero.\<close>

definition milliseconds :: "duration \<Rightarrow> int" where
  "milliseconds d = (if d < 0 then - (- d div millisecond) else d div millisecond)"

definition rd_Extend :: "'s redis \<Rightarrow> ctx \<Rightarrow> rd_holder \<Rightarrow> ('s, err) state" where
  "rd_Extend rdb c h =
     (if rh_released h then ret (Some (Sentinel ''redislock: holder already released''))
      else do {
        let ms = milliseconds (rh_ttl h);
        (res, err) \<leftarrow> RunScript rdb c extendScript [rh_key h] [rh_value h, itoa ms];
        ret (case err of
               Some e \<Rightarrow> Some (Wrap ''redislock: extend'' e)
             | None \<Rightarrow>
                 let ok = (case res of LInt n \<Rightarrow> n | _ \<Rightarrow> 0)
                 in if ok = 0 then Some rd_ErrLockLost else None)
      })"

section \<open>Locks, factories and adapters\<close>

record rd_lock =
  rd_name :: string
  rd_cfg :: rd_config

definition rd_New :: "string \<Rightarrow> rd_option list \<Rightarrow> rd_lock" where
  "rd_New name opts = \<lparr>rd_name = name, rd_cfg = rd_applyOptions rd_defaultConfig opts\<rparr>"

definition rd_Lock_Name :: "rd_lock \<Rightarrow> string" where
  "rd_Lock_Name l = rd_name l"

definition rd_Lock_Key :: "rd_lock \<Rightarrow> string" where
  "rd_Lock_Key l = lockKey (rc_keyPrefix (rd_cfg l)) (rd_name l)"

definition rd_Lock_Acquire ::
  "'s host \<Rightarrow> 's redis \<Rightarrow> ctx \<Rightarrow> rd_lock \<Rightarrow> rd_option list \<Rightarrow> ('s, rd_holder res \<times> obs_event list) state" where
  "rd_Lock_Acquire H rdb c l opts =
     (let cfg = rd_applyOptions (rd_cfg l) opts in rd_acquire H rdb c (rd_name l) cfg)"

record rd_factory =
  rd_defaults :: rd_config

definition rd_NewFactory :: "rd_option list \<Rightarrow> rd_factory" where
  "rd_NewFactory opts = \<lparr>rd_defaults = rd_applyOptions rd_defaultConfig opts\<rparr>"

definition rd_Factory_Acquire ::
  "'s host \<Rightarrow> 's redis \<Rightarrow> ctx \<Rightarrow> rd_factory \<Rightarrow> string \<Rightarrow> rd_option list \<Rightarrow>
   ('s, rd_holder res \<times> obs_event list) state" where
  "rd_Factory_Acquire H rdb c f name opts =
     (let cfg = rd_applyOptions (rd_defaults f) opts in rd_acquire H rdb c name cfg)"

definition rd_Factory_WithLock ::
  "'s host \<Rightarrow> 's redis \<Rightarrow> ctx \<Rightarrow> rd_factory \<Rightarrow> string \<Rightarrow> (ctx \<Rightarrow> ('s, fn_res) state) \<Rightarrow> rd_option list \<Rightarrow>
   ('s, fn_res \<times> obs_event list) state" where
  "rd_Factory_WithLock H rdb c f name fn opts =
     with_holder (rd_Factory_Acquire H rdb c f name opts) (rd_ReleaseContext H rdb c) (fn c)"

definition rd_WithLock ::
  "'s host \<Rightarrow> 's redis \<Rightarrow> ctx \<Rightarrow> rd_lock \<Rightarrow> (ctx \<Rightarrow> ('s, fn_res) state) \<Rightarrow> rd_option list \<Rightarrow>
   ('s, fn_res \<times> obs_event list) state" where
  "rd_WithLock H rdb c l fn opts =
     with_holder (rd_Lock_Acquire H rdb c l opts) (rd_ReleaseContext H rdb c) (fn c)"

text \<open>The holder of an adapter keeps the context of the acquire for its release.\<close>

record rd_adapted =
  ra_h :: rd_holder
  ra_ctx :: ctx

definition rd_adapt :: "ctx \<Rightarrow> rd_holder res \<times> obs_event list \<Rightarrow> rd_adapted res \<times> obs_event list" where
  "rd_adapt c x = (case x of (r, evs) \<Rightarrow>
     (map_sum (\<lambda>e. e) (\<lambda>h. \<lparr>ra_h = h, ra_ctx = c\<rparr>) (to_lock_err rd_ErrLocked r), evs))"

definition rd_factoryAdapter_Acquire ::
  "'s host \<Rightarrow> 's redis \<Rightarrow> rd_factory \<Rightarrow> ctx \<Rightarrow> string \<Rightarrow> ('s, rd_adapted res \<times> obs_event list) state" where
  "rd_factoryAdapter_Acquire H rdb f c name = do {
     x \<leftarrow> rd_Factory_Acquire H rdb c f name [];
     ret (rd_adapt c x)
   }"

definition rd_lockAdapter_Acquire ::
  "'s host \<Rightarrow> 's redis \<Rightarrow> rd_lock \<Rightarrow> ctx \<Rightarrow> string \<Rightarrow> ('s, rd_adapted res \<times> obs_event list) state" where
  "rd_lockAdapter_Acquire H rdb l c name = do {
     x \<leftarrow> rd_Lock_Acquire H rdb c l [];
     ret (rd_adapt c x)
   }"

definition rd_holderAdapter_Release ::
  "'s host \<Rightarrow> 's redis \<Rightarrow> rd_adapted \<Rightarrow> ('s, err \<times> rd_holder \<times> obs_event list) state" where
  "rd_holderAdapter_Release H rdb a = rd_ReleaseContext H rdb (ra_ctx a) (ra_h a)"

end
