(* ===== verification/Redislock_Props.thy ===== *)
theory Redislock_Props
  imports Redislock
begin

text \<open>
  What \<open>redislock\<close> promises, relative to what Redis documents.  The view of the server is the map
  of its live keys; a time to live that runs out is a step of the environment.  Transport errors
  leave open whether the command took effect.
\<close>

section \<open>What Redis documents\<close>

type_synonym redis_db = "string \<Rightarrow> string option"

text \<open>The commands a script calls; it runs as one step.\<close>

inductive redis_exec :: "redis_call \<Rightarrow> redis_db \<Rightarrow> lua_value \<Rightarrow> redis_db \<Rightarrow> bool" where
  get: "redis_exec (GET k) d (case d k of None \<Rightarrow> LFalse | Some v \<Rightarrow> LString v) d"
| del: "d k \<noteq> None \<Longrightarrow> redis_exec (DEL k) d (LInt 1) (d(k := None))"
| del_none: "d k = None \<Longrightarrow> redis_exec (DEL k) d (LInt 0) d"
| pexpire_none: "d k = None \<Longrightarrow> redis_exec (PEXPIRE k n) d (LInt 0) d"
| pexpire: "d k \<noteq> None \<Longrightarrow> atoi n = Some ms \<Longrightarrow> 0 < ms \<Longrightarrow> redis_exec (PEXPIRE k n) d (LInt 1) d"
| pexpire_now: "d k \<noteq> None \<Longrightarrow> atoi n = Some ms \<Longrightarrow> ms \<le> 0 \<Longrightarrow>
    redis_exec (PEXPIRE k n) d (LInt 1) (d(k := None))"

inductive lua_exec :: "lua \<Rightarrow> redis_db \<Rightarrow> lua_value \<Rightarrow> redis_db \<Rightarrow> bool" where
  "lua_exec (LReturn v) d v d"
| "redis_exec call d v d1 \<Longrightarrow> lua_exec (k v) d1 r d2 \<Longrightarrow> lua_exec (LCall call k) d r d2"

inductive_simps redis_exec_simps [simp]:
  "redis_exec (GET k) d v d'" "redis_exec (DEL k) d v d'" "redis_exec (PEXPIRE k n) d v d'"

inductive_simps lua_exec_simps [simp]: "lua_exec (LReturn v) d r d'" "lua_exec (LCall call k) d r d'"

definition setnx_post :: "string \<Rightarrow> string \<Rightarrow> redis_db \<Rightarrow> bool \<times> err \<Rightarrow> redis_db \<Rightarrow> bool" where
  "setnx_post k v d x d' \<longleftrightarrow>
     (if snd x = None then (if d k = None then fst x \<and> d' = d(k \<mapsto> v) else \<not> fst x \<and> d' = d)
      else d' = d \<or> d k = None \<and> d' = d(k \<mapsto> v))"

definition counter_of :: "redis_db \<Rightarrow> string \<Rightarrow> int option" where
  "counter_of d k = (case d k of None \<Rightarrow> Some 0 | Some v \<Rightarrow> atoi v)"

definition incr_post :: "string \<Rightarrow> redis_db \<Rightarrow> 64 word \<times> err \<Rightarrow> redis_db \<Rightarrow> bool" where
  "incr_post k d x d' \<longleftrightarrow>
     (if snd x = None
      then \<exists>n. counter_of d k = Some n \<and> int64_range (n + 1) \<and> fst x = word_of_int (n + 1) \<and> d' = d(k \<mapsto> itoa (n + 1))
      else fst x = 0 \<and> (d' = d \<or> (\<exists>n. counter_of d k = Some n \<and> d' = d(k \<mapsto> itoa (n + 1)))))"

definition script_post :: "lua \<Rightarrow> redis_db \<Rightarrow> lua_value \<times> err \<Rightarrow> redis_db \<Rightarrow> bool" where
  "script_post sc d x d' \<longleftrightarrow>
     (if snd x = None then lua_exec sc d (fst x) d' else d' = d \<or> (\<exists>r. lua_exec sc d r d'))"

definition redis_laws :: "(redis_db \<Rightarrow> redis_db \<Rightarrow> bool) \<Rightarrow> ('s \<Rightarrow> redis_db) \<Rightarrow> 's redis \<Rightarrow> bool" where
  "redis_laws env db rdb \<longleftrightarrow>
     (\<forall>c k v t. serves env db (SetNX rdb c k v t) (setnx_post k v)) \<and>
     (\<forall>c k. serves env db (Incr rdb c k) (incr_post k)) \<and>
     (\<forall>c sc ks as. serves env db (RunScript rdb c sc ks as) (script_post (sc ks as)))"

text \<open>The network is up: no command fails but for what it finds on the server.\<close>

definition redis_up :: "('s \<Rightarrow> redis_db) \<Rightarrow> 's redis \<Rightarrow> bool" where
  "redis_up db rdb \<longleftrightarrow> is_Cmdable rdb \<and>
     (\<forall>c k v t s. after (SetNX rdb c k v t) (\<lambda>x _. snd x = None) s) \<and>
     (\<forall>c k s n. counter_of (db s) k = Some n \<longrightarrow> int64_range (n + 1) \<longrightarrow> after (Incr rdb c k) (\<lambda>x _. snd x = None) s) \<and>
     (\<forall>c sc ks as s. (\<exists>r d. lua_exec (sc ks as) (db s) r d) \<longrightarrow> after (RunScript rdb c sc ks as) (\<lambda>x _. snd x = None) s)"

section \<open>One command\<close>

lemma redis_host: "host_laws env db H \<Longrightarrow> world_ok env"
  by (simp add: host_laws_def)

lemma after_SetNX:
  assumes "redis_laws env db rdb"
    and "\<And>x s' d1 d2. env (db s) d1 \<Longrightarrow> setnx_post k v d1 x d2 \<Longrightarrow> env d2 (db s') \<Longrightarrow> Q x s'"
  shows "after (SetNX rdb c k v t) Q s"
  by (rule after_serves[of env db _ "setnx_post k v"]) (use assms in \<open>auto simp: redis_laws_def\<close>)

lemma after_Incr:
  assumes "redis_laws env db rdb"
    and "\<And>x s' d1 d2. env (db s) d1 \<Longrightarrow> incr_post k d1 x d2 \<Longrightarrow> env d2 (db s') \<Longrightarrow> Q x s'"
  shows "after (Incr rdb c k) Q s"
  by (rule after_serves[of env db _ "incr_post k"]) (use assms in \<open>auto simp: redis_laws_def\<close>)

lemma after_RunScript:
  assumes "redis_laws env db rdb"
    and "\<And>x s' d1 d2. env (db s) d1 \<Longrightarrow> script_post (sc ks as) d1 x d2 \<Longrightarrow> env d2 (db s') \<Longrightarrow> Q x s'"
  shows "after (RunScript rdb c sc ks as) Q s"
  by (rule after_serves[of env db _ "script_post (sc ks as)"]) (use assms in \<open>auto simp: redis_laws_def\<close>)

lemma setnx_taken: "setnx_post k v d x d' \<Longrightarrow> d k \<noteq> None \<Longrightarrow> d' = d \<and> (snd x = None \<longrightarrow> \<not> fst x)"
  by (auto simp: setnx_post_def split: if_splits)

text \<open>What the two scripts do.\<close>

lemma lua_release:
  "lua_exec (releaseScript [k] [v]) d r d' \<longleftrightarrow>
     (if d k = Some v then r = LInt 1 \<and> d' = d(k := None) else r = LInt 0 \<and> d' = d)"
  by (auto simp: releaseScript_def split: option.splits if_splits)

lemma lua_extend:
  assumes "int64_range ms"
  shows "lua_exec (extendScript [k] [v, itoa ms]) d r d' \<longleftrightarrow>
     (if d k = Some v then r = LInt 1 \<and> d' = (if 0 < ms then d else d(k := None)) else r = LInt 0 \<and> d' = d)"
  using assms by (auto simp: extendScript_def split: option.splits if_splits)

text \<open>The keys of the locks of one name and the key of its counter are apart.\<close>

lemma rd_slot_key_fence: "rd_slot_key cfg name i \<noteq> fenceKey (rc_keyPrefix cfg) name"
proof -
  have "itoa i \<noteq> ''fence''"
    using itoa_chars[of "CHR ''f''" i] by (auto simp: is_digit_def)
  then show ?thesis by (simp add: rd_slot_key_def lockKey_def slotLockKey_def fenceKey_def)
qed

lemma rd_slot_key_inj: "0 \<le> i \<Longrightarrow> 0 \<le> j \<Longrightarrow> rd_slot_key cfg name i = rd_slot_key cfg name j \<longleftrightarrow> i = j"
  by (simp add: rd_slot_key_def slotLockKey_def itoa_inject_nonneg)

section \<open>While a lease runs\<close>

text \<open>A slot whose key has a value the others leave alone is refused, whatever the transport does.\<close>

lemma acquireSlot_leased:
  assumes "host_laws env db H" "redis_laws env db rdb"
    and "stable env I" "\<And>d. I d \<Longrightarrow> d (rd_slot_key cfg name i) \<noteq> None" "I (db s)"
  shows "after (rd_acquireSlot H rdb c name cfg i tr) (\<lambda>r s'. isl r \<and> I (db s')) s"
proof -
  have "after (SetNX rdb c (rd_slot_key cfg name i) v t)
      (\<lambda>x s'. (snd x = None \<longrightarrow> \<not> fst x) \<and> I (db s')) s1" if "I (db s1)" for v t s1
    by (rule after_SetNX[OF assms(2)]) (use that stableD[OF assms(3)] assms(4) setnx_taken in metis)
  then have set: "after (SetNX rdb c (rd_slot_key cfg name i) v t)
      (\<lambda>x. after (case x of (gotIt, err) \<Rightarrow> (case err of Some e \<Rightarrow> ret (Inl (Wrap ''redislock: setnx'' e))
         | None \<Rightarrow> if \<not> gotIt then ret (Inl rd_ErrLocked) else K v))
       (\<lambda>r s'. isl r \<and> I (db s'))) s1" if "I (db s1)" for v t s1 K
    by (rule after_mono[OF _]) (use that in \<open>auto split: option.splits\<close>)
  have "after (randomToken H) (\<lambda>_ s'. I (db s')) s"
    unfolding randomToken_def after_bind
    by (rule host_rand[OF assms(1)]) (use stableD[OF assms(3)] assms(5) in auto)
  then show ?thesis
    unfolding rd_acquireSlot_def Let_def after_bind
    by (rule after_mono) (use set in \<open>auto split: sum.splits\<close>)
qed

lemma acquire_leased:
  assumes "host_laws env db H" "redis_laws env db rdb" "stable env I"
    and "\<And>i d. i \<in> set (slots_of (rc_maxConcurrent cfg)) \<Longrightarrow> I d \<Longrightarrow> d (rd_slot_key cfg name i) \<noteq> None" "I (db s)"
  shows "after (rd_acquire H rdb c name cfg) (\<lambda>(r, evs) s'. isl r \<and> I (db s')) s"
proof (cases "is_Cmdable rdb")
  case True
  show ?thesis
    unfolding rd_acquire_slots(1)[OF True]
    by (rule observed_none[where f = "\<lambda>c' tr i. rd_acquireSlot H rdb c' name cfg i tr" and I = I, OF assms(1,3)])
      (use acquireSlot_leased[where I = I, OF assms(1-3)] assms(4,5) in blast)+
next
  case False
  show ?thesis
    unfolding rd_acquire_slots(2)[OF False] by (rule observed_none[where I = I, OF assms(1,3)]) (use assms(5) in auto)
qed

text \<open>C30: While every key of a lock has a value that nobody but its owner removes (the lease of each
  holder runs), \<open>Acquire\<close> answers no holder and leaves those values in place, whatever errors the
  transport reports and whatever other clients do elsewhere: the lock is exclusive for as long
  as the leases last.\<close>

theorem redis_mutual_exclusion:
  assumes "host_laws env db H" "redis_laws env db rdb"
    and "\<forall>i \<in> set (slots_of (rc_maxConcurrent cfg)). stable env (\<lambda>d. d (rd_slot_key cfg name i) = Some (v i))"
    and "\<forall>i \<in> set (slots_of (rc_maxConcurrent cfg)). db s (rd_slot_key cfg name i) = Some (v i)"
    and "run_state (rd_acquire H rdb c name cfg) s = ((r, evs), s')"
  shows "isl r \<and> (\<forall>i \<in> set (slots_of (rc_maxConcurrent cfg)). db s' (rd_slot_key cfg name i) = Some (v i))"
proof -
  let ?I = "\<lambda>d. \<forall>i \<in> set (slots_of (rc_maxConcurrent cfg)). d (rd_slot_key cfg name i) = Some (v i)"
  have "after (rd_acquire H rdb c name cfg) (\<lambda>(r, evs) s'. isl r \<and> ?I (db s')) s"
    by (rule acquire_leased[where I = ?I, OF assms(1,2)]) (use assms(3,4) in \<open>auto simp: stable_def\<close>)
  from afterD[OF this assms(5)] show ?thesis by simp
qed

text \<open>Release and Extend touch no value but the holder's own.\<close>

lemma own_only:
  assumes "redis_laws env db rdb" "stable env (\<lambda>d. d k = Some v)" "db s k = Some v"
    and P: "\<And>d d' r. d k = Some v \<Longrightarrow> lua_exec (sc ks as) d r d' \<Longrightarrow> d' k = Some v \<and> P r"
  shows "after (RunScript rdb c sc ks as) (\<lambda>x s'. db s' k = Some v \<and> (snd x = None \<longrightarrow> P (fst x))) s"
proof (rule after_RunScript[OF assms(1)])
  fix x s' d1 d2
  assume h: "env (db s) d1" "script_post (sc ks as) d1 x d2" "env d2 (db s')"
  have 1: "d1 k = Some v" using stableD[OF assms(2), OF h(1)] assms(3) by blast
  then have "d2 k = Some v \<and> (snd x = None \<longrightarrow> P (fst x))"
    using h(2) 1 P unfolding script_post_def by (cases "snd x") auto
  with stableD[OF assms(2), OF h(3)] show "db s' k = Some v \<and> (snd x = None \<longrightarrow> P (fst x))" by blast
qed

lemma release_own_only:
  assumes "host_laws env db H" "redis_laws env db rdb" "stable env (\<lambda>d. d k = Some v)"
    and "db s k = Some v" "k \<noteq> rh_key h \<or> v \<noteq> rh_value h"
  shows "after (rd_ReleaseContext H rdb c h) (\<lambda>(e, h', evs) s'. db s' k = Some v \<and>
      (k = rh_key h \<and> \<not> rh_released h \<longrightarrow> e = Some rd_ErrLockLost \<or> (\<exists>x. e = Some (Wrap ''redislock: release'' x)))) s"
proof (cases "rh_released h")
  case False
  let ?P = "\<lambda>r. k = rh_key h \<longrightarrow> r = LInt 0"
  have "after (RunScript rdb c releaseScript [rh_key h] [rh_value h])
      (\<lambda>x s'. db s' k = Some v \<and> (snd x = None \<longrightarrow> ?P (fst x))) s"
    by (rule own_only[where P = ?P, OF assms(2-4)]) (use assms(5) in \<open>auto simp: lua_release split: if_splits\<close>)
  then show ?thesis
    using False unfolding rd_ReleaseContext_def Let_def
    by (auto elim!: after_mono intro!: host_hold[OF assms(1)] dest: stableD[OF assms(3)] split: option.splits lua_value.splits)
qed (use assms(4) in \<open>simp add: rd_ReleaseContext_def\<close>)

text \<open>C31: A holder whose key has another value, because its lease ran out and a successor acquired, can
  neither release nor extend the successor's lock: the value stays, and the answer is
  \<open>ErrLockLost\<close> or the transport's error.  Nor does it touch any other key.\<close>

theorem redis_release_own_only:
  assumes "host_laws env db H" "redis_laws env db rdb" "stable env (\<lambda>d. d k = Some v)"
    and "db s k = Some v" "k \<noteq> rh_key h \<or> v \<noteq> rh_value h" "int64_range (milliseconds (rh_ttl h))"
    and "run_state (rd_ReleaseContext H rdb c h) s = ((e, h', evs), s')" "run_state (rd_Extend rdb c h) s = (e2, s2)"
  shows "db s' k = Some v \<and> db s2 k = Some v \<and> (k = rh_key h \<and> \<not> rh_released h \<longrightarrow>
    (e = Some rd_ErrLockLost \<or> (\<exists>x. e = Some (Wrap ''redislock: release'' x))) \<and>
    (e2 = Some rd_ErrLockLost \<or> (\<exists>x. e2 = Some (Wrap ''redislock: extend'' x))))"
proof -
  let ?P = "\<lambda>r. k = rh_key h \<longrightarrow> r = LInt 0"
  have "after (RunScript rdb c extendScript [rh_key h] [rh_value h, itoa (milliseconds (rh_ttl h))])
      (\<lambda>x s'. db s' k = Some v \<and> (snd x = None \<longrightarrow> ?P (fst x))) s"
    by (rule own_only[where P = ?P, OF assms(2-4)]) (use assms(5) in \<open>auto simp: lua_extend[OF assms(6)] split: if_splits\<close>)
  then have "after (rd_Extend rdb c h) (\<lambda>e s'. db s' k = Some v \<and> (k = rh_key h \<and> \<not> rh_released h \<longrightarrow>
      e = Some rd_ErrLockLost \<or> (\<exists>x. e = Some (Wrap ''redislock: extend'' x)))) s"
    using assms(4) unfolding rd_Extend_def Let_def
    by (cases "rh_released h") (auto elim!: after_mono split: option.splits lua_value.splits)
  from afterD[OF this assms(8)] afterD[OF release_own_only[OF assms(1-5)] assms(7)]
  show ?thesis by auto
qed

section \<open>A server in memory\<close>

text \<open>A function that answers the commands as documented; it witnesses the hypotheses above.\<close>

fun redis_run :: "redis_call \<Rightarrow> redis_db \<Rightarrow> (lua_value \<times> redis_db) option" where
  "redis_run (GET k) d = Some (case d k of None \<Rightarrow> LFalse | Some v \<Rightarrow> LString v, d)"
| "redis_run (DEL k) d = Some (if d k = None then (LInt 0, d) else (LInt 1, d(k := None)))"
| "redis_run (PEXPIRE k n) d =
     (if d k = None then Some (LInt 0, d)
      else case atoi n of None \<Rightarrow> None | Some ms \<Rightarrow> Some (LInt 1, if 0 < ms then d else d(k := None)))"

primrec lua_run :: "lua \<Rightarrow> redis_db \<Rightarrow> (lua_value \<times> redis_db) option" where
  "lua_run (LReturn v) d = Some (v, d)"
| "lua_run (LCall call k) d = (case redis_run call d of None \<Rightarrow> None | Some (v, d1) \<Rightarrow> lua_run (k v) d1)"

definition redis_refused :: gerr where
  "redis_refused = Sentinel ''ERR value is not an integer or out of range''"

definition mem_redis :: "redis_db redis" where
  "mem_redis = \<lparr>is_Cmdable = True,
     SetNX = (\<lambda>c k v t. State (\<lambda>d. if d k = None then ((True, None), d(k \<mapsto> v)) else ((False, None), d))),
     Incr = (\<lambda>c k. State (\<lambda>d. case counter_of d k of
       Some n \<Rightarrow> if int64_range (n + 1) then ((word_of_int (n + 1), None), d(k \<mapsto> itoa (n + 1))) else ((0, Some redis_refused), d)
     | None \<Rightarrow> ((0, Some redis_refused), d))),
     RunScript = (\<lambda>c sc ks as. State (\<lambda>d. case lua_run (sc ks as) d of
       Some (r, d') \<Rightarrow> ((r, None), d')
     | None \<Rightarrow> ((LFalse, Some redis_refused), d)))\<rparr>"

lemma redis_run_exec: "redis_exec call d r d' \<longleftrightarrow> redis_run call d = Some (r, d')"
  by (cases call) (auto split: option.splits)

lemma lua_run_exec: "lua_exec sc d r d' \<longleftrightarrow> lua_run sc d = Some (r, d')"
proof (induction sc arbitrary: d)
  case (LCall call k)
  then show ?case by (auto simp: redis_run_exec split: option.splits)
qed auto

lemma mem_redis_laws: "redis_laws (=) id mem_redis"
  by (auto simp: redis_laws_def serves_def after_def mem_redis_def setnx_post_def incr_post_def script_post_def lua_run_exec
      split: option.splits)

lemma mem_redis_under: "world_ok env \<Longrightarrow> redis_laws env id mem_redis"
  using mem_redis_laws unfolding redis_laws_def by (simp add: serves_mono)

lemma mem_redis_up: "redis_up id mem_redis"
  by (auto simp: redis_up_def after_def mem_redis_def lua_run_exec)

text \<open>A world in which the others do what they like, but for one key while it has one value.\<close>

definition spares_key :: "string \<Rightarrow> string \<Rightarrow> redis_db \<Rightarrow> redis_db \<Rightarrow> bool" where
  "spares_key k v d d' \<longleftrightarrow> (d k = Some v \<longrightarrow> d' k = Some v)"

lemma spares_key_simps [simp]: "world_ok (spares_key k v)" "stable (spares_key k v) (\<lambda>d. d k = Some v)"
  by (auto simp: spares_key_def world_ok_def stable_def reflp_def transp_def)

theorem redis_mutual_exclusion_witness:
  "\<exists>e. fst (fst (run_state (rd_acquire plain_host mem_redis (\<lambda>_. None) ''job'' rd_defaultConfig)
      [''redislock:job'' \<mapsto> ''abc''])) = Inl e"
proof -
  have h: "\<forall>i \<in> set (slots_of (rc_maxConcurrent rd_defaultConfig)). stable (spares_key ''redislock:job'' ''abc'')
      (\<lambda>d. d (rd_slot_key rd_defaultConfig ''job'' i) = Some ''abc'')"
    "\<forall>i \<in> set (slots_of (rc_maxConcurrent rd_defaultConfig)). id [''redislock:job'' \<mapsto> ''abc''] (rd_slot_key rd_defaultConfig ''job'' i) = Some ''abc''"
    by (simp_all add: slots_of_def rd_defaultConfig_def rd_slot_key_def lockKey_def)
  obtain r evs s' where "run_state (rd_acquire plain_host mem_redis (\<lambda>_. None) ''job'' rd_defaultConfig)
      [''redislock:job'' \<mapsto> ''abc''] = ((r, evs), s')" by (metis prod.exhaust)
  with redis_mutual_exclusion[OF plain_host_laws mem_redis_under h this] show ?thesis
    by (auto simp: isl_def)
qed

theorem redis_release_own_only_witness:
  "snd (run_state (rd_ReleaseContext plain_host mem_redis (\<lambda>_. None) \<lparr>rh_key = ''redislock:job'', rh_value = ''old'', rh_token = 1,
      rh_ttl = 30 * second, rh_name = ''job'', rh_acquiredAt = 1, rh_observe = no_observe, rh_released = False\<rparr>)
      [''redislock:job'' \<mapsto> ''abc'']) ''redislock:job'' = Some ''abc''"
proof -
  let ?h = "\<lparr>rh_key = ''redislock:job'', rh_value = ''old'', rh_token = 1, rh_ttl = 30 * second, rh_name = ''job'',
      rh_acquiredAt = 1, rh_observe = no_observe, rh_released = False\<rparr>"
  let ?s = "[''redislock:job'' \<mapsto> ''abc'']"
  obtain e h' evs s' where r: "run_state (rd_ReleaseContext plain_host mem_redis (\<lambda>_. None) ?h) ?s = ((e, h', evs), s')"
    by (metis prod.exhaust)
  obtain e2 s2 where x: "run_state (rd_Extend mem_redis (\<lambda>_. None) ?h) ?s = (e2, s2)" by (metis prod.exhaust)
  have "id ?s ''redislock:job'' = Some ''abc''" "''redislock:job'' \<noteq> rh_key ?h \<or> ''abc'' \<noteq> rh_value ?h"
    "int64_range (milliseconds (rh_ttl ?h))"
    by (simp_all add: milliseconds_def int64_range_def duration_units)
  from redis_release_own_only[OF plain_host_laws mem_redis_under spares_key_simps(2) this r x] r
  show ?thesis by simp
qed

end
