(* ===== verification/Redislock_Quiet.thy ===== *)
theory Redislock_Quiet
  imports Redislock_Props
begin

text \<open>
  \<open>redislock\<close> on a server that answers and that nobody else uses meanwhile: which slot is taken,
  what is stored, what comes back, and two places where the code's choice of keys and times bites.
\<close>

section \<open>A server that nobody else uses\<close>

definition rd_quiet :: "'s host \<Rightarrow> ('s \<Rightarrow> redis_db) \<Rightarrow> 's redis \<Rightarrow> bool" where
  "rd_quiet H db rdb \<longleftrightarrow> host_laws (=) db H \<and> host_up H \<and> redis_laws (=) db rdb \<and> redis_up db rdb"

lemma quiet_SetNX:
  assumes "rd_quiet H db rdb"
  shows "after (SetNX rdb c k v t) (\<lambda>x s'. x = (db s k = None, None) \<and>
      db s' = (if db s k = None then (db s)(k \<mapsto> v) else db s)) s"
proof -
  have "after (SetNX rdb c k v t) (\<lambda>x _. snd x = None) s"
    "after (SetNX rdb c k v t) (\<lambda>x s'. setnx_post k v (db s) x (db s')) s"
    using assms after_SetNX[of "(=)" db rdb] by (auto simp: rd_quiet_def redis_up_def)
  from after_conj[OF this] show ?thesis
    by (rule after_mono) (auto simp: setnx_post_def prod_eq_iff split: if_splits)
qed

lemma quiet_Incr:
  assumes "rd_quiet H db rdb" "counter_of (db s) k = Some n" "int64_range (n + 1)"
  shows "after (Incr rdb c k) (\<lambda>x s'. x = (word_of_int (n + 1), None) \<and> db s' = (db s)(k \<mapsto> itoa (n + 1))) s"
proof -
  have "after (Incr rdb c k) (\<lambda>x _. snd x = None) s"
    "after (Incr rdb c k) (\<lambda>x s'. incr_post k (db s) x (db s')) s"
    using assms after_Incr[of "(=)" db rdb] by (auto simp: rd_quiet_def redis_up_def)
  from after_conj[OF this] show ?thesis
    by (rule after_mono) (use assms(2) in \<open>auto simp: incr_post_def prod_eq_iff\<close>)
qed

lemma quiet_RunScript:
  assumes "rd_quiet H db rdb" "lua_exec (sc ks as) (db s) r d"
  shows "after (RunScript rdb c sc ks as) (\<lambda>x s'. snd x = None \<and> lua_exec (sc ks as) (db s) (fst x) (db s')) s"
proof -
  have up: "after (RunScript rdb c sc ks as) (\<lambda>x _. snd x = None) s"
    using assms unfolding rd_quiet_def redis_up_def by blast
  have "after (RunScript rdb c sc ks as) (\<lambda>x s'. script_post (sc ks as) (db s) x (db s')) s"
    by (rule after_RunScript[of "(=)" db rdb]) (use assms(1) in \<open>simp_all add: rd_quiet_def\<close>)
  from after_conj[OF up this] show ?thesis by (rule after_mono) (auto simp: script_post_def)
qed

lemma quiet_host:
  assumes "rd_quiet H db rdb"
  shows "host_laws (=) db H" "after (randomToken H) (\<lambda>r s'. (\<exists>b. r = Inr (hex_encode b)) \<and> db s' = db s) s"
proof -
  show l: "host_laws (=) db H" using assms by (simp add: rd_quiet_def)
  have "after (ho_randRead H) (\<lambda>r _. \<not> isl r) s" using assms by (simp add: rd_quiet_def host_up_def)
  moreover have "after (ho_randRead H) (\<lambda>_ s'. db s' = db s) s" by (rule host_rand[OF l]) simp
  ultimately have "after (ho_randRead H) (\<lambda>r s'. \<not> isl r \<and> db s' = db s) s" by (rule after_conj)
  then show "after (randomToken H) (\<lambda>r s'. (\<exists>b. r = Inr (hex_encode b)) \<and> db s' = db s) s"
    unfolding randomToken_def after_bind by (rule after_mono) (auto split: sum.splits)
qed

definition rd_won :: "rd_config \<Rightarrow> string \<Rightarrow> int \<Rightarrow> string \<Rightarrow> int \<Rightarrow> redis_db \<Rightarrow> rd_holder \<Rightarrow> redis_db \<Rightarrow> bool" where
  "rd_won cfg name i tr n d h d' \<longleftrightarrow> rh_key h = rd_slot_key cfg name i \<and> rh_value h \<in> range (\<lambda>b. rd_value (hex_encode b) tr) \<and>
     rh_token h = word_of_int (n + 1) \<and> rh_ttl h = rc_ttl cfg \<and> \<not> rh_released h \<and>
     d' = d(rh_key h \<mapsto> rh_value h, fenceKey (rc_keyPrefix cfg) name \<mapsto> itoa (n + 1))"

lemma quiet_slot_held:
  assumes "rd_quiet H db rdb" "db s (rd_slot_key cfg name i) \<noteq> None"
  shows "after (rd_acquireSlot H rdb c name cfg i tr) (\<lambda>r s'. r = Inl rd_ErrLocked \<and> db s' = db s) s"
  unfolding rd_acquireSlot_def Let_def after_bind
  by (rule after_mono[OF quiet_host(2)[OF assms(1)]])
    (auto intro!: after_mono[OF quiet_SetNX[OF assms(1)]] simp: assms(2))

lemma quiet_slot_free:
  assumes "rd_quiet H db rdb" "db s (rd_slot_key cfg name i) = None"
    and "counter_of (db s) (fenceKey (rc_keyPrefix cfg) name) = Some n" "int64_range (n + 1)"
  shows "after (rd_acquireSlot H rdb c name cfg i tr) (\<lambda>r s'. \<exists>h. r = Inr h \<and> rd_won cfg name i tr n (db s) h (db s')) s"
proof -
  have "after (Incr rdb c (fenceKey (rc_keyPrefix cfg) name)) (\<lambda>x s'. x = (word_of_int (n + 1), None) \<and>
      db s' = (db s1)(fenceKey (rc_keyPrefix cfg) name \<mapsto> itoa (n + 1))) s1"
    if "db s1 (fenceKey (rc_keyPrefix cfg) name) = db s (fenceKey (rc_keyPrefix cfg) name)" for s1
    by (rule quiet_Incr[OF assms(1) _ assms(4)]) (use that assms(3) in \<open>simp add: counter_of_def\<close>)
  note incr = after_mono[OF this]
  show ?thesis
    unfolding rd_acquireSlot_def Let_def after_bind
    by (rule after_mono[OF quiet_host(2)[OF assms(1)]])
      (auto intro!: after_mono[OF quiet_SetNX[OF assms(1)]] incr
        simp: assms(2) rd_won_def rd_slot_key_fence rd_slot_key_fence[THEN not_sym])
qed

lemma rd_won_stamp: "rd_won cfg name i tr n d h d' \<Longrightarrow> rd_won cfg name i tr n d (rd_stamp obs m t h) d'"
  by (simp add: rd_won_def rd_stamp_def)

lemma quiet_up:
  assumes "rd_quiet H db rdb"
  shows "host_laws (=) db H" "host_up H" "is_Cmdable rdb"
  using assms by (simp_all add: rd_quiet_def redis_up_def)

lemma quiet_acquire:
  assumes "rd_quiet H db rdb" "slots_of (rc_maxConcurrent cfg) = is @ j # js"
    and "\<forall>i \<in> set is. db s (rd_slot_key cfg name i) \<noteq> None" "db s (rd_slot_key cfg name j) = None"
    and "counter_of (db s) (fenceKey (rc_keyPrefix cfg) name) = Some n" "int64_range (n + 1)"
  shows "after (rd_acquire H rdb c name cfg) (\<lambda>(r, evs) s'. \<exists>h. r = Inr h \<and>
      rd_won cfg name j (extract_trace (rc_observe cfg) c) n (db s) h (db s')) s"
  unfolding rd_acquire_slots(1)[OF quiet_up(3)[OF assms(1)]]
proof (rule observed_first[where J = "\<lambda>d. d = db s", OF quiet_up(1,2)[OF assms(1)] stable_eq stable_eq assms(2) refl])
  fix c' tr i s1
  assume "i \<in> set is" "db s1 = db s"
  then show "after (rd_acquireSlot H rdb c' name cfg i tr) (\<lambda>r s'. r = Inl rd_ErrLocked \<and> db s' = db s) s1"
    using quiet_slot_held[OF assms(1), of s1 cfg name i c' tr] assms(3) by simp
next
  fix c' s1
  assume "db s1 = db s"
  then show "after (rd_acquireSlot H rdb c' name cfg j (extract_trace (rc_observe cfg) c)) (\<lambda>r s'. \<exists>h. r = Inr h \<and>
      rd_won cfg name j (extract_trace (rc_observe cfg) c) n (db s) h (db s')) s1"
    using quiet_slot_free[OF assms(1), of s1 cfg name j n] assms(4-6) by simp
qed (rule rd_won_stamp)

lemma quiet_acquire_held:
  assumes "rd_quiet H db rdb" "\<forall>i \<in> set (slots_of (rc_maxConcurrent cfg)). db s (rd_slot_key cfg name i) \<noteq> None"
  shows "after (rd_acquire H rdb c name cfg) (\<lambda>(r, evs) s'. r = Inl rd_ErrLocked \<and> db s' = db s) s"
  unfolding rd_acquire_slots(1)[OF quiet_up(3)[OF assms(1)]]
proof (rule observed_held[where J = "\<lambda>d. d = db s", OF quiet_up(1,2)[OF assms(1)] stable_eq refl])
  fix c' tr i s1
  assume "i \<in> set (slots_of (rc_maxConcurrent cfg))" "db s1 = db s"
  then show "after (rd_acquireSlot H rdb c' name cfg i tr) (\<lambda>r s'. r = Inl rd_ErrLocked \<and> db s' = db s) s1"
    using quiet_slot_held[OF assms(1), of s1 cfg name i c' tr] assms(2) by simp
qed

text \<open>On a server that answers and that nobody else uses meanwhile, \<open>Acquire\<close> takes the first slot whose
  key is not set: it stores there a value made of random bytes and the trace identifier, counts the
  name's fence up by one and gives that count, modulo \<open>2^64\<close>, to the holder; no other key changes.\<close>

theorem redis_acquire_free:
  assumes "rd_quiet H db rdb" "slots_of (rc_maxConcurrent cfg) = is @ j # js" "\<forall>i \<in> set is. db s (rd_slot_key cfg name i) \<noteq> None"
    and "db s (rd_slot_key cfg name j) = None" "counter_of (db s) (fenceKey (rc_keyPrefix cfg) name) = Some n"
    and "int64_range (n + 1)"
  shows "\<exists>h evs s' b. run_state (rd_acquire H rdb c name cfg) s = ((Inr h, evs), s') \<and> rh_key h = rd_slot_key cfg name j \<and>
    rh_value h = rd_value (hex_encode b) (extract_trace (rc_observe cfg) c) \<and> rd_Holder_Token h = word_of_int (n + 1) \<and>
    \<not> rh_released h \<and> db s' = (db s)(rh_key h \<mapsto> rh_value h, fenceKey (rc_keyPrefix cfg) name \<mapsto> itoa (n + 1))"
  by (rule afterE[OF quiet_acquire[OF assms, of c]]) (auto simp: rd_won_def rd_Holder_Token_def)

text \<open>When every slot's key is set, \<open>Acquire\<close> answers \<open>ErrLocked\<close> and changes nothing on the server: it draws no
  fencing token, and does not touch the time to live of the keys it found.\<close>

theorem redis_acquire_all_held:
  assumes "rd_quiet H db rdb" "\<forall>i \<in> set (slots_of (rc_maxConcurrent cfg)). db s (rd_slot_key cfg name i) \<noteq> None"
  shows "\<exists>evs s'. run_state (rd_acquire H rdb c name cfg) s = ((Inl rd_ErrLocked, evs), s') \<and> db s' = db s"
  by (rule afterE[OF quiet_acquire_held[OF assms, of c]]) auto

lemma mem_quiet [simp]: "rd_quiet plain_host id mem_redis"
  by (simp add: rd_quiet_def mem_redis_laws mem_redis_up)

theorem redis_acquire_free_witness:
  "\<exists>h evs s'. run_state (rd_acquire plain_host mem_redis (\<lambda>_. None) ''job''
      (rd_applyOptions rd_defaultConfig [rd_WithMaxConcurrent 2])) [''redislock:job:0'' \<mapsto> ''abc'', ''redislock:job:fence'' \<mapsto> ''6''] = ((Inr h, evs), s') \<and>
    rh_key h = ''redislock:job:1'' \<and> rd_Holder_Token h = 7"
proof -
  let ?cfg = "rd_applyOptions rd_defaultConfig [rd_WithMaxConcurrent 2]"
  let ?s = "[''redislock:job:0'' \<mapsto> ''abc'', ''redislock:job:fence'' \<mapsto> ''6'']"
  have "dec 0 = ''0''" "dec (Suc 0) = ''1''" by code_simp+
  then have k: "rd_slot_key ?cfg ''job'' 0 = ''redislock:job:0''" "rd_slot_key ?cfg ''job'' 1 = ''redislock:job:1''"
    "fenceKey (rc_keyPrefix ?cfg) ''job'' = ''redislock:job:fence''"
    by (simp_all add: cfg_simps rd_slot_key_def slotLockKey_def fenceKey_def itoa_def)
  have "counter_of (id ?s) (fenceKey (rc_keyPrefix ?cfg) ''job'') = Some 6"
    unfolding k by (simp add: counter_of_def) code_simp
  moreover have "slots_of (rc_maxConcurrent ?cfg) = [0] @ 1 # []" by (simp add: slots_of_def cfg_simps upt_rec)
  ultimately show ?thesis
    using redis_acquire_free[OF mem_quiet, of ?cfg "[0]" 1 "[]" ?s "''job''" 6 "\<lambda>_. None"]
    by (simp add: k int64_range_def) blast
qed

theorem redis_acquire_all_held_witness:
  "\<exists>evs s'. run_state (rd_acquire plain_host mem_redis (\<lambda>_. None) ''job'' rd_defaultConfig) [''redislock:job'' \<mapsto> ''abc''] =
    ((Inl rd_ErrLocked, evs), s') \<and> s' = [''redislock:job'' \<mapsto> ''abc'']"
  using redis_acquire_all_held[OF mem_quiet, of rd_defaultConfig "[''redislock:job'' \<mapsto> ''abc'']" "''job''" "\<lambda>_. None"]
  by (simp add: slots_of_def rd_defaultConfig_def rd_slot_key_def lockKey_def)

section \<open>Release, WithLock and Extend\<close>

lemma quiet_release:
  assumes "rd_quiet H db rdb" "\<not> rh_released h" "db s (rh_key h) = Some (rh_value h)"
  shows "after (rd_ReleaseContext H rdb c h) (\<lambda>(e, h', evs) s'. e = None \<and> h' = h\<lparr>rh_released := True\<rparr> \<and>
      db s' = (db s)(rh_key h := None)) s"
proof -
  have "after (RunScript rdb c releaseScript [rh_key h] [rh_value h])
      (\<lambda>x s'. x = (LInt 1, None) \<and> db s' = (db s)(rh_key h := None)) s"
    by (rule after_mono[OF quiet_RunScript[OF assms(1)]]) (use assms(3) in \<open>auto simp: lua_release\<close>)
  then show ?thesis
    using assms(2) unfolding rd_ReleaseContext_def Let_def
    by (auto elim!: after_mono intro!: host_hold[OF quiet_host(1)[OF assms(1)]])
qed

text \<open>\<open>Factory.WithLock\<close> on a free lock runs the function while the key is set, and removes the key again whatever
  the function does, a panic included: of the server's keys only the fence has changed, and the
  answer is the function's.\<close>

theorem redis_WithLock_releases:
  assumes "rd_quiet H db rdb" "cfg = rd_applyOptions (rd_defaults f) opts" "slots_of (rc_maxConcurrent cfg) = is @ j # js"
    and "\<forall>i \<in> set is. db s (rd_slot_key cfg name i) \<noteq> None" "db s (rd_slot_key cfg name j) = None"
    and "counter_of (db s) (fenceKey (rc_keyPrefix cfg) name) = Some n" "int64_range (n + 1)"
    and "\<forall>s1. db s1 (rd_slot_key cfg name j) \<noteq> None \<longrightarrow> fst (run_state (fn c) s1) = res \<and> db (snd (run_state (fn c) s1)) = db s1"
  shows "\<exists>evs s'. run_state (rd_Factory_WithLock H rdb c f name fn opts) s = ((res, evs), s') \<and>
    db s' = (db s)(fenceKey (rc_keyPrefix cfg) name \<mapsto> itoa (n + 1))"
proof -
  let ?f = "fenceKey (rc_keyPrefix cfg) name" and ?k = "rd_slot_key cfg name j"
  have rest: "after (fn c) (\<lambda>x. after (rd_ReleaseContext H rdb c h)
      (\<lambda>(relErr, h', evs') s'. merge_release x relErr = res \<and> db s' = (db s)(?f \<mapsto> itoa (n + 1)))) s1"
    if "rd_won cfg name j tr n (db s) h (db s1)" for h tr s1
  proof -
    have h: "rh_key h = ?k" "\<not> rh_released h" "db s1 = (db s)(?k \<mapsto> rh_value h, ?f \<mapsto> itoa (n + 1))"
      using that by (auto simp: rd_won_def)
    then have k: "db s1 ?k = Some (rh_value h)" using rd_slot_key_fence[of cfg name j] by simp
    with assms(8) have "after (fn c) (\<lambda>x s2. x = res \<and> db s2 = db s1) s1" by (simp add: after_def)
    then show ?thesis
    proof (rule after_mono)
      fix x s2
      assume x: "x = res \<and> db s2 = db s1"
      then have "after (rd_ReleaseContext H rdb c h) (\<lambda>(e, h', evs) s'. e = None \<and> h' = h\<lparr>rh_released := True\<rparr> \<and>
          db s' = (db s1)(?k := None)) s2"
        using quiet_release[OF assms(1) h(2), of s2 c] k h(1) by simp
      then show "after (rd_ReleaseContext H rdb c h) (\<lambda>(relErr, h', evs') s'. merge_release x relErr = res \<and>
          db s' = (db s)(?f \<mapsto> itoa (n + 1))) s2"
        by (rule after_mono)
          (use x h(3) assms(5) rd_slot_key_fence[of cfg name j] in
            \<open>auto simp: merge_release_def fun_eq_iff split: fn_res.splits option.splits\<close>)
    qed
  qed
  have "after (rd_Factory_WithLock H rdb c f name fn opts)
      (\<lambda>(r, evs) s'. r = res \<and> db s' = (db s)(?f \<mapsto> itoa (n + 1))) s"
    unfolding rd_Factory_WithLock_def rd_Factory_Acquire_def with_holder_def Let_def assms(2)[symmetric] after_bind
    by (rule after_mono[OF quiet_acquire[OF assms(1,3-7)]])
      (auto intro!: after_mono[OF rest] split: prod.splits elim!: after_mono)
  then show ?thesis by (rule afterE) auto
qed

theorem redis_WithLock_releases_witness:
  "\<exists>evs. run_state (rd_Factory_WithLock plain_host mem_redis (\<lambda>_. None) (rd_NewFactory []) ''job'' (\<lambda>c. ret (Panicked ''boom'')) [])
      Map.empty = ((Panicked ''boom'', evs), [''redislock:job:fence'' \<mapsto> itoa 1])"
  using redis_WithLock_releases[OF mem_quiet refl, of "rd_NewFactory []" "[]" "[]" "- 1" "[]" Map.empty "''job''" 0
      "\<lambda>c. ret (Panicked ''boom'')" "\<lambda>_. None" "Panicked ''boom''"]
  by (simp add: rd_NewFactory_def slots_of_def rd_defaultConfig_def fenceKey_def counter_of_def int64_range_def)

text \<open>C37: \<open>Extend\<close> with a time to live under a millisecond, which \<open>SetNX\<close> accepts, asks for an expiry of zero
  milliseconds: Redis deletes the key, and the holder is told that its lock was extended.\<close>

theorem redis_extend_submillisecond:
  assumes "rd_quiet H db rdb" "\<not> rh_released h" "db s (rh_key h) = Some (rh_value h)" "0 \<le> rh_ttl h" "rh_ttl h < millisecond"
  shows "\<exists>s'. run_state (rd_Extend rdb c h) s = (None, s') \<and> db s' = (db s)(rh_key h := None)"
proof -
  have ms: "milliseconds (rh_ttl h) = 0" using assms(4,5) by (simp add: milliseconds_def)
  have "after (RunScript rdb c extendScript [rh_key h] [rh_value h, itoa 0])
      (\<lambda>x s'. x = (LInt 1, None) \<and> db s' = (db s)(rh_key h := None)) s"
    by (rule after_mono[OF quiet_RunScript[OF assms(1)]])
      (use assms(3) in \<open>auto simp: lua_extend[of 0] int64_range_def prod_eq_iff\<close>)
  then have "after (rd_Extend rdb c h) (\<lambda>e s'. e = None \<and> db s' = (db s)(rh_key h := None)) s"
    using assms(2) unfolding rd_Extend_def Let_def ms by (auto elim!: after_mono)
  then show ?thesis by (rule afterE) auto
qed

theorem redis_extend_submillisecond_witness:
  "run_state (rd_Extend mem_redis (\<lambda>_. None) \<lparr>rh_key = ''redislock:job'', rh_value = ''abc'', rh_token = 1, rh_ttl = 500 * microsecond,
      rh_name = ''job'', rh_acquiredAt = 1, rh_observe = no_observe, rh_released = False\<rparr>) [''redislock:job'' \<mapsto> ''abc''] = (None, Map.empty)"
  using redis_extend_submillisecond[OF mem_quiet, of "\<lparr>rh_key = ''redislock:job'', rh_value = ''abc'', rh_token = 1,
      rh_ttl = 500 * microsecond, rh_name = ''job'', rh_acquiredAt = 1, rh_observe = no_observe, rh_released = False\<rparr>"
      "[''redislock:job'' \<mapsto> ''abc'']" "\<lambda>_. None"]
  by (simp add: duration_units)

text \<open>C38: The counter of a name is itself a lock key.  Once a lock named \<open>n\<close> has been acquired, the lock
  named \<open>n:fence\<close> of the same prefix is refused although nobody holds it.\<close>

theorem redis_fence_key_collision:
  assumes "rd_quiet H db rdb" "rc_maxConcurrent cfg \<le> 1" "db s (lockKey (rc_keyPrefix cfg) name) = None"
    and "counter_of (db s) (fenceKey (rc_keyPrefix cfg) name) = Some n" "int64_range (n + 1)"
  shows "\<exists>h evs s1 evs' s2. run_state (rd_acquire H rdb c name cfg) s = ((Inr h, evs), s1) \<and>
    rh_key h \<noteq> lockKey (rc_keyPrefix cfg) (name @ '':fence'') \<and>
    run_state (rd_acquire H rdb c (name @ '':fence'') cfg) s1 = ((Inl rd_ErrLocked, evs'), s2)"
proof -
  have k: "slots_of (rc_maxConcurrent cfg) = [] @ (- 1) # []" "rd_slot_key cfg m (- 1) = lockKey (rc_keyPrefix cfg) m" for m
    using assms(2) by (simp_all add: slots_of_def rd_slot_key_def)
  have f: "lockKey (rc_keyPrefix cfg) (name @ '':fence'') = fenceKey (rc_keyPrefix cfg) name"
    by (simp add: lockKey_def fenceKey_def)
  have "after (rd_acquire H rdb c name cfg) (\<lambda>(r, evs) s'. \<exists>h. r = Inr h \<and>
      rd_won cfg name (- 1) (extract_trace (rc_observe cfg) c) n (db s) h (db s')) s"
    by (rule quiet_acquire[OF assms(1) k(1) _ _ assms(4,5)]) (use assms(3) in \<open>simp_all add: k(2)\<close>)
  then obtain h evs s1 where h: "run_state (rd_acquire H rdb c name cfg) s = ((Inr h, evs), s1)"
    "rd_won cfg name (- 1) (extract_trace (rc_observe cfg) c) n (db s) h (db s1)" by (rule afterE) auto
  have "\<forall>i \<in> set (slots_of (rc_maxConcurrent cfg)). db s1 (rd_slot_key cfg (name @ '':fence'') i) \<noteq> None"
    using h(2) by (simp add: k f rd_won_def)
  from quiet_acquire_held[OF assms(1) this, of c]
  obtain evs' s2 where "run_state (rd_acquire H rdb c (name @ '':fence'') cfg) s1 = ((Inl rd_ErrLocked, evs'), s2)"
    by (rule afterE) auto
  moreover have "rh_key h \<noteq> fenceKey (rc_keyPrefix cfg) name"
    using h(2) rd_slot_key_fence[of cfg name "- 1"] by (simp add: rd_won_def)
  ultimately show ?thesis using h(1) unfolding f by blast
qed

theorem redis_fence_key_collision_witness:
  "\<exists>h evs s1 evs' s2. run_state (rd_acquire plain_host mem_redis (\<lambda>_. None) ''job'' rd_defaultConfig) Map.empty = ((Inr h, evs), s1) \<and>
    run_state (rd_acquire plain_host mem_redis (\<lambda>_. None) ''job:fence'' rd_defaultConfig) s1 = ((Inl rd_ErrLocked, evs'), s2)"
  using redis_fence_key_collision[OF mem_quiet, of rd_defaultConfig Map.empty "''job''" 0 "\<lambda>_. None"]
  by (simp add: rd_defaultConfig_def counter_of_def int64_range_def) blast

section \<open>The holder's value\<close>

lemma hex_digit_plain: "CHR ''|'' \<noteq> hex_digit n"
proof -
  have "\<forall>c \<in> set ''0123456789abcdef''. CHR ''|'' \<noteq> c" by simp
  moreover have "n mod 16 < length ''0123456789abcdef''" by simp
  then have "hex_digit n \<in> set ''0123456789abcdef''" unfolding hex_digit_def by (rule nth_mem)
  ultimately show ?thesis by (rule bspec)
qed

lemma hex_encode_plain: "CHR ''|'' \<notin> set (hex_encode b)"
  using hex_digit_plain by (auto simp: hex_encode_def)

lemma hex_digit_inj: "hex_digit m = hex_digit n \<longleftrightarrow> m mod 16 = n mod 16"
proof -
  have "distinct ''0123456789abcdef''" "length ''0123456789abcdef'' = 16" by simp_all
  then show ?thesis unfolding hex_digit_def by (simp only: nth_eq_iff_index_eq mod_less_divisor zero_less_numeral)
qed

lemma hex_byte_inj:
  assumes "hex_digit (of_char a div 16) = hex_digit (of_char b div 16)" "hex_digit (of_char a) = hex_digit (of_char b)"
  shows "a = b"
proof -
  have lt: "of_char c div 16 mod 16 = (of_char c div 16 :: nat)" for c :: char
    by (rule mod_less) (use nat_of_char_less_256[of c] in \<open>simp add: div_less_iff_less_mult\<close>)
  have "(of_char a :: nat) div 16 = of_char b div 16" "(of_char a :: nat) mod 16 = of_char b mod 16"
    using assms unfolding hex_digit_inj lt by simp_all
  then have "(of_char a :: nat) = of_char b" by (metis div_mult_mod_eq)
  then show ?thesis by simp
qed

lemma hex_encode_inj: "hex_encode b = hex_encode b' \<Longrightarrow> b = b'"
proof (induction b arbitrary: b')
  case (Cons x b)
  then obtain y c where "b' = y # c" by (cases b') (auto simp: hex_encode_def)
  with Cons show ?case by (auto simp: hex_encode_def intro: hex_byte_inj)
qed (cases b'; simp add: hex_encode_def)

lemma HolderIdentifier_value: "HolderIdentifier (rd_value (hex_encode b) tr) = hex_encode b"
  using hex_encode_plain[of b] by (auto simp: HolderIdentifier_def rd_value_def)

text \<open>\<open>HolderIdentifier\<close> reads the random identifier back out of the value a holder stored, with any trace
  identifier or none, and two stored values are equal only if their random bytes and their traces are.\<close>

theorem redis_HolderIdentifier_roundtrip:
  "HolderIdentifier (rd_value (hex_encode b) tr) = hex_encode b \<and>
   (rd_value (hex_encode b) tr = rd_value (hex_encode b') tr' \<longleftrightarrow> b = b' \<and> tr = tr')"
proof -
  have "b = b'" if "rd_value (hex_encode b) tr = rd_value (hex_encode b') tr'"
    using hex_encode_inj HolderIdentifier_value that by metis
  then show ?thesis using HolderIdentifier_value by (auto simp: rd_value_def split: if_splits)
qed

end
