(* ===== verification/Server_Table.thy ===== *)
theory Server_Table
  imports Handle_Table Server_Api
begin

text \<open>
  The clients of a server as clients of \<open>Handle_Table\<close>: each call runs to its end before the next
  begins.  Names are looked at through the keys the package makes of their slots, so that names that
  share a key share a slot.
\<close>

text \<open>
  A request is a context and a name.  A release answers the holder as it left it, and \<open>put\<close> says
  where the client keeps it.
\<close>

definition server_acq ::
  "(ctx \<Rightarrow> string \<Rightarrow> ('s, 'a res \<times> obs_event list) state) \<Rightarrow> ctx \<times> string \<Rightarrow> 's \<Rightarrow> 'a res \<times> 's" where
  "server_acq acq = (\<lambda>(c, name) s. case run_state (acq c name) s of ((r, evs), s') \<Rightarrow> (r, s'))"

definition server_rel ::
  "('a \<Rightarrow> ('s, err \<times> 'h \<times> obs_event list) state) \<Rightarrow> ('h \<Rightarrow> 'a \<Rightarrow> 'a) \<Rightarrow> 'a \<Rightarrow> 's \<Rightarrow> (err \<times> 'a) \<times> 's" where
  "server_rel rel put x s = (case run_state (rel x) s of ((e, h, evs), s') \<Rightarrow> ((e, put h x), s'))"

text \<open>The laws of a backend over a server, as facts about what holds after its calls.\<close>

locale server_lock =
  fixes acq :: "ctx \<Rightarrow> string \<Rightarrow> ('s, 'a res \<times> obs_event list) state"
    and rel :: "'a \<Rightarrow> ('s, err \<times> 'h \<times> obs_event list) state"
    and put :: "'h \<Rightarrow> 'a \<Rightarrow> 'a"
    and keys :: "string \<Rightarrow> 'n list"
    and plain :: "'n \<Rightarrow> bool"
    and ok :: "'s \<Rightarrow> bool"
    and holds :: "'s \<Rightarrow> 'a \<Rightarrow> 'n \<Rightarrow> bool"
    and free :: "'s \<Rightarrow> 'n \<Rightarrow> bool"
    and released :: "'a \<Rightarrow> bool"
  assumes call_held: "ok s \<Longrightarrow> \<forall>k \<in> set (keys n). plain k \<and> (\<exists>x. holds s x k) \<Longrightarrow>
      after (acq c n) (\<lambda>(r, evs) s'. r = Inl lock_ErrLocked \<and> ok s' \<and> others plain holds free {} s s') s"
    and call_free: "ok s \<Longrightarrow> \<forall>k \<in> set (keys n). plain k \<Longrightarrow> keys n = us @ k # vs \<Longrightarrow> \<forall>u \<in> set us. \<exists>x. holds s x u \<Longrightarrow> free s k \<Longrightarrow>
      after (acq c n) (\<lambda>(r, evs) s'. \<exists>x. r = Inr x \<and> ok s' \<and> holds s' x k \<and> others plain holds free {k} s s') s"
    and call_release: "ok s \<Longrightarrow> plain k \<Longrightarrow> holds s x k \<Longrightarrow>
      after (rel x) (\<lambda>(e, h, evs) s'. e = None \<and> released (put h x) \<and> ok s' \<and> free s' k \<and> others plain holds free {k} s s') s"
    and call_again: "released x \<Longrightarrow> after (rel x) (\<lambda>(e, h, evs) s'. e = None \<and> put h x = x \<and> s' = s) s"
    and holds_one_key: "plain k \<Longrightarrow> plain k' \<Longrightarrow> holds s x k \<Longrightarrow> holds s x k' \<Longrightarrow> k = k'"

sublocale server_lock \<subseteq> client_lock "server_acq acq" "server_rel rel put" "\<lambda>q. keys (snd q)" "\<lambda>q. \<forall>k \<in> set (keys (snd q)). plain k"
  "\<lambda>_. None" plain ok holds free released
proof (unfold_locales, goal_cases)
  case (3 w q)
  obtain c n where q: "q = (c, n)" by (cases q)
  from 3 q have "after (acq c n) (\<lambda>(r, evs) s'. r = Inl lock_ErrLocked \<and> ok s' \<and> others plain holds free {} w s') w"
    by (intro call_held) auto
  then show ?case by (rule afterE) (auto simp: server_acq_def q)
next
  case (4 w q us k vs)
  obtain c n where q: "q = (c, n)" by (cases q)
  have "after (acq c n) (\<lambda>(r, evs) s'. \<exists>x. r = Inr x \<and> ok s' \<and> holds s' x k \<and> others plain holds free {k} w s') w"
    by (rule call_free[OF 4(1) _ _ 4(5,6)]) (use 4(2,4) q in simp_all)
  then show ?case by (rule afterE) (auto simp: server_acq_def q)
next
  case (5 w k x)
  show ?case by (rule afterE[OF call_release[OF 5]]) (auto simp: server_rel_def)
next
  case (6 x w)
  show ?case by (rule afterE[OF call_again[OF 6, where s = w]]) (auto simp: server_rel_def)
next
  case (7 k k' w x)
  then show ?case by (rule holds_one_key)
qed simp_all

end
