(* ===== verification/Redislock_Table.thy ===== *)
theory Redislock_Table
  imports Redislock_Quiet Server_Table
begin

text \<open>
  \<open>redislock\<close> with any number of slots, on a server that answers and while leases run, keeps the contract of
  \<open>Lock_Table\<close> over the keys of slots: clients acquire and release any names, each call undisturbed.
\<close>

section \<open>Who holds what\<close>

definition rd_slot_keys :: "rd_config \<Rightarrow> string \<Rightarrow> string list" where
  "rd_slot_keys cfg n = map (rd_slot_key cfg n) (slots_of (rc_maxConcurrent cfg))"

text \<open>The key of a slot, which is no counter of a name.\<close>

definition rd_plain :: "rd_config \<Rightarrow> string \<Rightarrow> bool" where
  "rd_plain cfg k \<longleftrightarrow> (\<exists>n. k \<in> set (rd_slot_keys cfg n)) \<and> (\<forall>m. k \<noteq> fenceKey (rc_keyPrefix cfg) m)"

definition rd_holds :: "('s \<Rightarrow> redis_db) \<Rightarrow> 's \<Rightarrow> rd_adapted \<Rightarrow> string \<Rightarrow> bool" where
  "rd_holds db s x k \<longleftrightarrow> \<not> rh_released (ra_h x) \<and> rh_key (ra_h x) = k \<and> db s k = Some (rh_value (ra_h x))"

definition rd_unheld :: "('s \<Rightarrow> redis_db) \<Rightarrow> 's \<Rightarrow> string \<Rightarrow> bool" where
  "rd_unheld db s k \<longleftrightarrow> db s k = None"

abbreviation rd_others :: "('s \<Rightarrow> redis_db) \<Rightarrow> rd_config \<Rightarrow> string set \<Rightarrow> 's \<Rightarrow> 's \<Rightarrow> bool" where
  "rd_others db cfg \<equiv> others (rd_plain cfg) (rd_holds db) (rd_unheld db)"

text \<open>Where the adapter's holder keeps the package's.\<close>

definition rd_put :: "rd_holder \<Rightarrow> rd_adapted \<Rightarrow> rd_adapted" where
  "rd_put h a = a\<lparr>ra_h := h\<rparr>"

text \<open>The key of a name that does not end in \<open>:fence\<close> is no counter, and neither is the key of a numbered slot.\<close>

lemma rd_slot_not_counter:
  assumes "0 \<le> i \<or> \<not> suffix '':fence'' n"
  shows "rd_slot_key cfg n i \<noteq> fenceKey (rc_keyPrefix cfg) m"
proof (cases "0 \<le> i")
  case True
  have "last (itoa i) \<noteq> CHR ''e''" using itoa_chars[of "last (itoa i)" i] by (auto simp: is_digit_def)
  then have "last (rd_slot_key cfg n i) \<noteq> CHR ''e''" using True by (simp add: rd_slot_key_def slotLockKey_def)
  moreover have "last (fenceKey (rc_keyPrefix cfg) m) = CHR ''e''" by (simp add: fenceKey_def)
  ultimately show ?thesis by metis
next
  case False
  with assms show ?thesis by (auto simp: lockKey_def fenceKey_def rd_slot_key_def suffix_def)
qed

lemma rd_keys_plain:
  assumes "rc_maxConcurrent cfg \<le> 1 \<Longrightarrow> \<not> suffix '':fence'' n" "k \<in> set (rd_slot_keys cfg n)"
  shows "rd_plain cfg k"
proof -
  obtain i where i: "k = rd_slot_key cfg n i" "i \<in> set (slots_of (rc_maxConcurrent cfg))"
    using assms(2) by (auto simp: rd_slot_keys_def)
  then have "0 \<le> i \<or> \<not> suffix '':fence'' n" using assms(1) by (auto simp: slots_of_def split: if_splits)
  with rd_slot_not_counter[OF this] assms(2) i(1) show ?thesis by (auto simp: rd_plain_def)
qed

lemma rd_others_keys:
  assumes "\<And>k. rd_plain cfg k \<Longrightarrow> k \<notin> N \<Longrightarrow> db s' k = db s k"
  shows "rd_others db cfg N s s'"
  using assms by (auto simp: others_def rd_holds_def rd_unheld_def)

section \<open>What the calls do\<close>

text \<open>Whatever the counter answers, a slot that is free is had; only its key and the counter change.\<close>

definition rd_took :: "rd_config \<Rightarrow> string \<Rightarrow> int \<Rightarrow> redis_db \<Rightarrow> rd_holder \<Rightarrow> redis_db \<Rightarrow> bool" where
  "rd_took cfg name i d h d' \<longleftrightarrow> \<not> rh_released h \<and> rh_key h = rd_slot_key cfg name i \<and> d' (rh_key h) = Some (rh_value h) \<and>
     (\<forall>k. k \<noteq> rh_key h \<longrightarrow> k \<noteq> fenceKey (rc_keyPrefix cfg) name \<longrightarrow> d' k = d k)"

lemma rd_took_stamp: "rd_took cfg name i d h d' \<Longrightarrow> rd_took cfg name i d (rd_stamp obs m t h) d'"
  by (auto simp: rd_took_def rd_stamp_def)

lemma quiet_Incr_any:
  assumes "rd_quiet H db rdb"
  shows "after (Incr rdb c k) (\<lambda>x s'. \<forall>k'. k' \<noteq> k \<longrightarrow> db s' k' = db s k') s"
  by (rule after_Incr[of "(=)" db rdb]) (use assms in \<open>auto simp: rd_quiet_def incr_post_def split: if_splits\<close>)

lemma quiet_slot_took:
  assumes "rd_quiet H db rdb" "db s (rd_slot_key cfg name i) = None"
  shows "after (rd_acquireSlot H rdb c name cfg i tr) (\<lambda>r s'. \<exists>h. r = Inr h \<and> rd_took cfg name i (db s) h (db s')) s"
  unfolding rd_acquireSlot_def Let_def after_bind
  by (rule after_mono[OF quiet_host(2)[OF assms(1)]])
    (use rd_slot_key_fence[of cfg name i] in \<open>auto intro!: after_mono[OF quiet_SetNX[OF assms(1)]]
      after_mono[OF quiet_Incr_any[OF assms(1)]] simp: assms(2) rd_took_def\<close>)

lemma quiet_took:
  assumes "rd_quiet H db rdb" "slots_of (rc_maxConcurrent cfg) = us @ i # vs"
    and "\<forall>u \<in> set us. db s (rd_slot_key cfg name u) \<noteq> None" "db s (rd_slot_key cfg name i) = None"
  shows "after (rd_acquire H rdb c name cfg) (\<lambda>(r, evs) s'. \<exists>h. r = Inr h \<and> rd_took cfg name i (db s) h (db s')) s"
  unfolding rd_acquire_slots(1)[OF quiet_up(3)[OF assms(1)]]
proof (rule observed_first[where J = "\<lambda>d. d = db s", OF quiet_up(1,2)[OF assms(1)] stable_eq stable_eq assms(2) refl])
  fix c' tr u s1
  assume "u \<in> set us" "db s1 = db s"
  then show "after (rd_acquireSlot H rdb c' name cfg u tr) (\<lambda>r s'. r = Inl rd_ErrLocked \<and> db s' = db s) s1"
    using quiet_slot_held[OF assms(1), of s1 cfg name u c' tr] assms(3) by simp
next
  fix c' s1
  assume "db s1 = db s"
  then show "after (rd_acquireSlot H rdb c' name cfg i (extract_trace (rc_observe cfg) c)) (\<lambda>r s'. \<exists>h. r = Inr h \<and>
      rd_took cfg name i (db s) h (db s')) s1"
    using quiet_slot_took[OF assms(1), of s1 cfg name i c'] assms(4) by simp
qed (rule rd_took_stamp)

lemma rd_took_table:
  assumes "rd_took cfg n i (db s) h (db s')"
  shows "rd_holds db s' \<lparr>ra_h = h, ra_ctx = c\<rparr> (rd_slot_key cfg n i)" "rd_others db cfg {rd_slot_key cfg n i} s s'"
proof -
  show "rd_holds db s' \<lparr>ra_h = h, ra_ctx = c\<rparr> (rd_slot_key cfg n i)" using assms by (auto simp: rd_took_def rd_holds_def)
  show "rd_others db cfg {rd_slot_key cfg n i} s s'"
    by (rule rd_others_keys) (use assms in \<open>auto simp: rd_took_def rd_plain_def\<close>)
qed

interpretation rdl: server_lock "\<lambda>c. rd_factoryAdapter_Acquire H rdb f c" "rd_holderAdapter_Release H rdb" rd_put
  "rd_slot_keys (rd_defaults f)" "rd_plain (rd_defaults f)" "\<lambda>s. rd_quiet H db rdb" "rd_holds db" "rd_unheld db"
  "\<lambda>x. rh_released (ra_h x)" for H rdb f db
proof (unfold_locales, goal_cases)
  case (1 s n c)
  let ?cfg = "rd_defaults f"
  have "\<forall>i \<in> set (slots_of (rc_maxConcurrent ?cfg)). db s (rd_slot_key ?cfg n i) \<noteq> None"
    using 1(2) by (auto simp: rd_slot_keys_def rd_holds_def)
  then have "after (rd_acquire H rdb c n ?cfg) (\<lambda>(r, evs) s'. r = Inl rd_ErrLocked \<and> db s' = db s) s"
    by (rule quiet_acquire_held[OF 1(1)])
  then show ?case
    unfolding rd_factoryAdapter_Acquire_def rd_Factory_Acquire_def
    by (auto elim!: after_mono simp: rd_adapt_def to_lock_err_def 1(1) intro: rd_others_keys)
next
  case (2 s n us k vs c)
  let ?cfg = "rd_defaults f"
  obtain us' i vs' where sl: "slots_of (rc_maxConcurrent ?cfg) = us' @ i # vs'" "us = map (rd_slot_key ?cfg n) us'" "k = rd_slot_key ?cfg n i"
    using 2(3) by (auto simp: rd_slot_keys_def map_eq_append_conv map_eq_Cons_conv)
  have "\<forall>u \<in> set us'. db s (rd_slot_key ?cfg n u) \<noteq> None" "db s (rd_slot_key ?cfg n i) = None"
    using 2(4,5) by (auto simp: sl(2,3) rd_holds_def rd_unheld_def)
  from quiet_took[OF 2(1) sl(1) this, of c]
  show ?case
    unfolding rd_factoryAdapter_Acquire_def rd_Factory_Acquire_def sl(3)
    by (auto elim!: after_mono simp: rd_adapt_def to_lock_err_def 2(1) intro: rd_took_table)
next
  case (3 s k x)
  have "after (rd_ReleaseContext H rdb (ra_ctx x) (ra_h x)) (\<lambda>(e, h', evs) s'. e = None \<and> h' = (ra_h x)\<lparr>rh_released := True\<rparr> \<and>
      db s' = (db s)(rh_key (ra_h x) := None)) s"
    by (rule quiet_release) (use 3 in \<open>auto simp: rd_holds_def\<close>)
  then show ?case
    unfolding rd_holderAdapter_Release_def
    by (rule after_mono) (use 3 in \<open>auto simp: rd_put_def rd_unheld_def rd_holds_def intro!: rd_others_keys split: if_splits\<close>)
next
  case (4 x s)
  then show ?case by (simp add: rd_holderAdapter_Release_def rd_ReleaseContext_def rd_put_def)
next
  case (5 k k' s x)
  then show ?case by (simp add: rd_holds_def)
qed

section \<open>Properties\<close>

text \<open>C7: On a Redis server that answers and while leases run, clients that acquire and release locks of any names one
  call at a time, in any order and however their counters stand, releases repeated or of holders they never got
  included, get exactly the answers of a table of who holds which slot's key: a request is granted the first slot of its
  name that nobody holds, refused with \<open>lock.ErrLocked\<close> when each is held, and a slot is free again once that very
  holder is released.  (Names that end in \<open>:fence\<close> are left out of singleton locks: their keys are counters of others.)\<close>

theorem redis_refines_table:
  assumes "rd_quiet H db rdb" "\<And>k. rd_plain (rd_defaults f) k \<Longrightarrow> db s k = None"
    and "\<And>c n. Ask (c, n) \<in> set cs \<Longrightarrow> 1 < rc_maxConcurrent (rd_defaults f) \<or> \<not> suffix '':fence'' n"
  shows "answers (client_ask (server_acq (\<lambda>c. rd_factoryAdapter_Acquire H rdb f c)))
      (client_give (server_rel (rd_holderAdapter_Release H rdb) rd_put)) cs \<lparr>cl_world = s, cl_objs = []\<rparr> =
    table_answers (\<lambda>q. rd_slot_keys (rd_defaults f) (snd q)) (\<lambda>_. None) lock_ErrLocked cs (\<lambda>_. None) 0"
proof (rule rdl.clients.answers_table[where db = db, OF client_table_new, OF assms(1)])
  show "\<forall>k \<in> set (rd_slot_keys (rd_defaults f) (snd q)). rd_plain (rd_defaults f) k" if "Ask q \<in> set cs" for q
    using rd_keys_plain[of "rd_defaults f" "snd q"] assms(3)[of "fst q" "snd q"] that by auto
qed (simp add: assms(2) rd_unheld_def)

theorem redis_refines_table_witness:
  "answers (client_ask (server_acq (\<lambda>c. rd_factoryAdapter_Acquire plain_host mem_redis (rd_NewFactory [rd_WithMaxConcurrent 2]) c)))
      (client_give (server_rel (rd_holderAdapter_Release plain_host mem_redis) rd_put))
     [Ask (background, ''job''), Ask (background, ''job''), Ask (background, ''job''), Give 0, Give 0, Ask (background, ''job'')]
     \<lparr>cl_world = Map.empty, cl_objs = []\<rparr> =
   [Granted 0, Granted 1, Refused lock_ErrLocked, Returned_with None, Returned_with None, Granted 2]"
proof -
  let ?cs = "[Ask (background, ''job''), Ask (background, ''job''), Ask (background, ''job''), Give 0, Give 0, Ask (background, ''job'')]"
  let ?cfg = "rd_defaults (rd_NewFactory [rd_WithMaxConcurrent 2])"
  have m: "rc_maxConcurrent ?cfg = 2" by (simp add: rd_NewFactory_def rd_WithMaxConcurrent_def)
  then have p: "1 < rc_maxConcurrent ?cfg \<or> \<not> suffix '':fence'' n" if "Ask (c, n) \<in> set ?cs" for c n by simp
  have e: "id Map.empty k = None" for k :: string by simp
  note eq = redis_refines_table[where cs = ?cs and db = id and s = Map.empty, OF mem_quiet e p]
  have sl: "slots_of 2 = [0, 1]" by (simp add: slots_of_def upt_rec)
  have "table_answers (\<lambda>q. rd_slot_keys ?cfg (snd q)) (\<lambda>_. None) lock_ErrLocked ?cs (\<lambda>_. None) 0 =
      [Granted 0, Granted 1, Refused lock_ErrLocked, Returned_with None, Returned_with None, Granted 2]"
    using rd_slot_key_inj[of 0 1 ?cfg "''job''"] rd_slot_key_inj[of 1 0 ?cfg "''job''"]
    by (simp add: rd_slot_keys_def m sl give_up_def)
  with eq show ?thesis by (rule trans)
qed

end
