(* ===== verification/Pglock.thy ===== *)
theory Pglock
  imports Server_Api
begin

text \<open>
  The package \<open>pglock\<close>: a lock is a session-level advisory lock of Postgres on a 64-bit key, the
  hash of the name; a holder keeps the connection whose session has it.  The connection pool is
  the parameter \<open>pgpool\<close>, over connections of any type.
\<close>

section \<open>Errors, configuration and hooks\<close>

definition pg_ErrLocked :: gerr where
  "pg_ErrLocked = Sentinel ''pglock: already locked''"

declare pg_ErrLocked_def [sentinel_defs]

text \<open>An \<open>int64\<close> is a 64-bit word; only sums of keys are taken.\<close>

record pg_config =
  pc_keyOffset :: "64 word"
  pc_maxConcurrent :: int
  pc_observe :: observeOptions

definition pg_defaultConfig :: pg_config where
  "pg_defaultConfig = \<lparr>pc_keyOffset = 0, pc_maxConcurrent = 1, pc_observe = no_observe\<rparr>"

type_synonym pg_option = "(pg_config \<Rightarrow> pg_config) option"

fun pg_applyOptions :: "pg_config \<Rightarrow> pg_option list \<Rightarrow> pg_config" where
  "pg_applyOptions cfg [] = cfg"
| "pg_applyOptions cfg (None # opts) = pg_applyOptions cfg opts"
| "pg_applyOptions cfg (Some opt # opts) = pg_applyOptions (opt cfg) opts"

definition pg_WithKeyOffset :: "64 word \<Rightarrow> pg_option" where
  "pg_WithKeyOffset off = Some (\<lambda>c. c\<lparr>pc_keyOffset := off\<rparr>)"

definition pg_WithMaxConcurrent :: "int \<Rightarrow> pg_option" where
  "pg_WithMaxConcurrent n = Some (\<lambda>c. c\<lparr>pc_maxConcurrent := (if n < 1 then 1 else n)\<rparr>)"

definition pg_WithMetrics :: "nat option \<Rightarrow> pg_option" where
  "pg_WithMetrics r = Some (\<lambda>c. c\<lparr>pc_observe := (pc_observe c)\<lparr>metrics := r\<rparr>\<rparr>)"

definition pg_WithSpanStarter :: "(ctx \<Rightarrow> string \<Rightarrow> ctx) option \<Rightarrow> pg_option" where
  "pg_WithSpanStarter st = Some (\<lambda>c. c\<lparr>pc_observe := (pc_observe c)\<lparr>span := st\<rparr>\<rparr>)"

definition pg_WithLogger :: "nat option \<Rightarrow> pg_option" where
  "pg_WithLogger l = Some (\<lambda>c. c\<lparr>pc_observe := (pc_observe c)\<lparr>logger := l\<rparr>\<rparr>)"

definition pg_WithTraceIDExtractor :: "(ctx \<Rightarrow> string) option \<Rightarrow> pg_option" where
  "pg_WithTraceIDExtractor ext = Some (\<lambda>c. c\<lparr>pc_observe := (pc_observe c)\<lparr>traceID_ext := ext\<rparr>\<rparr>)"

definition pg_startSpan :: "observeOptions \<Rightarrow> ctx \<Rightarrow> string \<Rightarrow> ctx \<times> obs_event list" where
  "pg_startSpan obs c op = start_span obs c op"

definition pg_recordAcquire ::
  "observeOptions \<Rightarrow> string \<Rightarrow> string \<Rightarrow> duration \<Rightarrow> string \<Rightarrow> err \<Rightarrow> obs_event list" where
  "pg_recordAcquire obs n oc d traceID e = record_acquire ''pglock'' obs n oc d traceID e"

definition pg_recordActive :: "observeOptions \<Rightarrow> string \<Rightarrow> int \<Rightarrow> obs_event list" where
  "pg_recordActive obs n delta = record_active obs n delta"

definition pg_recordHold :: "observeOptions \<Rightarrow> string \<Rightarrow> duration \<Rightarrow> obs_event list" where
  "pg_recordHold obs n d = record_hold ''pglock'' obs n d"

definition pg_extractTraceID :: "observeOptions \<Rightarrow> ctx \<Rightarrow> string" where
  "pg_extractTraceID obs c = extract_trace obs c"

definition pg_outcomeFor :: "err \<Rightarrow> string" where
  "pg_outcomeFor e = outcome_for pg_ErrLocked e"

lemmas pg_hook_defs = pg_startSpan_def pg_recordAcquire_def pg_recordActive_def pg_recordHold_def
  pg_extractTraceID_def pg_outcomeFor_def

lemmas pg_config_defs [cfg_simps] =
  pg_WithKeyOffset_def pg_WithMaxConcurrent_def pg_WithMetrics_def pg_WithSpanStarter_def
  pg_WithLogger_def pg_WithTraceIDExtractor_def pg_defaultConfig_def

section \<open>The key of a name\<close>

text \<open>\<open>hash/fnv\<close>: FNV-1a on 64 bits.\<close>

definition fnv64a :: "string \<Rightarrow> 64 word" where
  "fnv64a bs = foldl (\<lambda>h b. xor h (of_char b) * 1099511628211) 14695981039346656037 bs"

definition hashKey :: "string \<Rightarrow> 64 word \<Rightarrow> 64 word" where
  "hashKey name offset = fnv64a name + offset"

section \<open>The pool\<close>

text \<open>
  A pool hands out a connection and takes it back; a query on a connection is sent with one
  argument and its single value is scanned, as a Boolean or as a \<open>uint64\<close>.
\<close>

record ('s, 'c) pgpool =
  PoolAcquire :: "ctx \<Rightarrow> ('s, 'c res) state"
  ScanBool :: "'c \<Rightarrow> ctx \<Rightarrow> string \<Rightarrow> 64 word \<Rightarrow> ('s, bool res) state"
  ScanUint64 :: "'c \<Rightarrow> ctx \<Rightarrow> string \<Rightarrow> ('s, 64 word res) state"
  Exec :: "'c \<Rightarrow> ctx \<Rightarrow> string \<Rightarrow> string \<Rightarrow> ('s, err) state"
  ConnRelease :: "'c \<Rightarrow> ('s, unit) state"

section \<open>Acquire\<close>

record 'c pg_holder =
  ph_conn :: 'c
  ph_key :: "64 word"
  ph_token :: "64 word"
  ph_name :: string
  ph_acquiredAt :: gtime
  ph_observe :: observeOptions
  ph_released :: bool

definition pg_Holder_Key :: "'c pg_holder \<Rightarrow> 64 word" where
  "pg_Holder_Key h = ph_key h"

definition pg_Holder_Token :: "'c pg_holder \<Rightarrow> 64 word" where
  "pg_Holder_Token h = ph_token h"

definition tryLockSQL :: string where "tryLockSQL = ''SELECT pg_try_advisory_lock($1)''"
definition unlockSQL :: string where "unlockSQL = ''SELECT pg_advisory_unlock($1)''"

definition pg_slot_key :: "pg_config \<Rightarrow> string \<Rightarrow> int \<Rightarrow> bool \<Rightarrow> 64 word" where
  "pg_slot_key cfg name slot semaphore =
     (let baseKey = hashKey name (pc_keyOffset cfg) in if semaphore then baseKey + word_of_int slot else baseKey)"

text \<open>What follows once the lock is granted; neither step can fail the acquire.\<close>

definition pg_granted ::
  "('s, 'c) pgpool \<Rightarrow> ctx \<Rightarrow> string \<Rightarrow> string \<Rightarrow> 'c \<Rightarrow> 64 word \<Rightarrow> ('s, 'c pg_holder res) state" where
  "pg_granted pool c name traceID conn key = do {
     _ \<leftarrow> (if traceID \<noteq> []
          then Exec pool conn c ''SET application_name = $1'' (''lock:'' @ name @ ''|trace:'' @ traceID)
          else ret None);
     txid \<leftarrow> ScanUint64 pool conn c ''SELECT txid_current()'';
     ret (Inr \<lparr>ph_conn = conn, ph_key = key, ph_token = (case txid of Inl _ \<Rightarrow> 0 | Inr t \<Rightarrow> t), ph_name = [],
               ph_acquiredAt = 0, ph_observe = no_observe, ph_released = False\<rparr>)
   }"

definition pg_acquireSlot ::
  "('s, 'c) pgpool \<Rightarrow> ctx \<Rightarrow> string \<Rightarrow> pg_config \<Rightarrow> int \<Rightarrow> string \<Rightarrow> bool \<Rightarrow> ('s, 'c pg_holder res) state" where
  "pg_acquireSlot pool c name cfg slot traceID semaphore = do {
     r \<leftarrow> PoolAcquire pool c;
     case r of
       Inl err \<Rightarrow> ret (Inl (Wrap ''pglock: pool acquire'' err))
     | Inr conn \<Rightarrow> do {
         let key = pg_slot_key cfg name slot semaphore;
         q \<leftarrow> ScanBool pool conn c tryLockSQL key;
         case q of
           Inl err \<Rightarrow> do {
             _ \<leftarrow> ConnRelease pool conn;
             ret (Inl (Wrap ''pglock: try_advisory_lock'' err))
           }
         | Inr got \<Rightarrow>
             if \<not> got then do {
               _ \<leftarrow> ConnRelease pool conn;
               ret (Inl pg_ErrLocked)
             }
             else pg_granted pool c name traceID conn key
       }
   }"

definition pg_acquire_body ::
  "'s host \<Rightarrow> ('s, 'c) pgpool \<Rightarrow> string \<Rightarrow> pg_config \<Rightarrow> ctx \<Rightarrow> string \<Rightarrow> ('s, 'c pg_holder res) state" where
  "pg_acquire_body H pool name cfg c traceID = do {
     ctxErr \<leftarrow> ho_ctxErr H c;
     case ctxErr of
       Some e \<Rightarrow> ret (Inl e)
     | None \<Rightarrow>
         if pc_maxConcurrent cfg \<le> 1 then pg_acquireSlot pool c name cfg 0 traceID False
         else try_slots pg_ErrLocked (\<lambda>slot. pg_acquireSlot pool c name cfg slot traceID True)
                (map int [0..<nat (pc_maxConcurrent cfg)])
   }"

definition pg_stamp :: "observeOptions \<Rightarrow> string \<Rightarrow> gtime \<Rightarrow> 'c pg_holder \<Rightarrow> 'c pg_holder" where
  "pg_stamp obs name t h = h\<lparr>ph_observe := obs, ph_name := name, ph_acquiredAt := t\<rparr>"

definition pg_acquire ::
  "'s host \<Rightarrow> ('s, 'c) pgpool \<Rightarrow> ctx \<Rightarrow> string \<Rightarrow> pg_config \<Rightarrow> ('s, 'c pg_holder res \<times> obs_event list) state" where
  "pg_acquire H pool c name cfg = do {
     start \<leftarrow> ho_now H;
     let obs = pc_observe cfg;
     let traceID = pg_extractTraceID obs c;
     let c' = fst (pg_startSpan obs c ''pglock.Acquire'');
     r \<leftarrow> pg_acquire_body H pool name cfg c' traceID;
     done \<leftarrow> ho_now H;
     let outcome = pg_outcomeFor (err_of r);
     let evs = snd (pg_startSpan obs c ''pglock.Acquire'') @ finish_span obs (err_of r) @
           pg_recordAcquire obs name outcome (time_sub done start) traceID (err_of r);
     case r of
       Inl e \<Rightarrow> ret (Inl e, evs)
     | Inr h \<Rightarrow> do {
         now \<leftarrow> ho_now H;
         ret (Inr (pg_stamp obs name now h), evs @ pg_recordActive obs name 1)
       }
   }"

lemma pg_acquire_observed:
  "pg_acquire H pool c name cfg =
     observed H ''pglock'' ''pglock.Acquire'' pg_ErrLocked pg_stamp (pc_observe cfg) c name (pg_acquire_body H pool name cfg)"
  unfolding pg_acquire_def observed_def pg_hook_defs Let_def by (rule refl)

section \<open>Release\<close>

definition pg_ReleaseContext ::
  "'s host \<Rightarrow> ('s, 'c) pgpool \<Rightarrow> ctx \<Rightarrow> 'c pg_holder \<Rightarrow> ('s, err \<times> 'c pg_holder \<times> obs_event list) state" where
  "pg_ReleaseContext H pool c h =
     (if ph_released h then ret (None, h, [])
      else do {
        let h' = h\<lparr>ph_released := True\<rparr>;
        q \<leftarrow> ScanBool pool (ph_conn h) c unlockSQL (ph_key h);
        _ \<leftarrow> ConnRelease pool (ph_conn h);
        hold \<leftarrow> hold_events H (ph_acquiredAt h) (pg_recordHold (ph_observe h) (ph_name h));
        let evs = hold @ pg_recordActive (ph_observe h) (ph_name h) (- 1);
        ret (case q of Inl err \<Rightarrow> Some (Wrap ''pglock: advisory_unlock'' err) | Inr ok \<Rightarrow> None, h', evs)
      })"

definition pg_Release ::
  "'s host \<Rightarrow> ('s, 'c) pgpool \<Rightarrow> 'c pg_holder \<Rightarrow> ('s, err \<times> 'c pg_holder \<times> obs_event list) state" where
  "pg_Release H pool h = pg_ReleaseContext H pool background h"

section \<open>Locks, factories and adapters\<close>

record pg_lock =
  pg_name :: string
  pg_cfg :: pg_config

definition pg_New :: "string \<Rightarrow> pg_option list \<Rightarrow> pg_lock" where
  "pg_New name opts = \<lparr>pg_name = name, pg_cfg = pg_applyOptions pg_defaultConfig opts\<rparr>"

definition pg_Lock_Name :: "pg_lock \<Rightarrow> string" where
  "pg_Lock_Name l = pg_name l"

definition pg_Lock_Key :: "pg_lock \<Rightarrow> 64 word" where
  "pg_Lock_Key l = hashKey (pg_name l) (pc_keyOffset (pg_cfg l))"

definition pg_Lock_Acquire ::
  "'s host \<Rightarrow> ('s, 'c) pgpool \<Rightarrow> ctx \<Rightarrow> pg_lock \<Rightarrow> pg_option list \<Rightarrow> ('s, 'c pg_holder res \<times> obs_event list) state" where
  "pg_Lock_Acquire H pool c l opts =
     (let cfg = pg_applyOptions (pg_cfg l) opts in pg_acquire H pool c (pg_name l) cfg)"

record pg_factory =
  pg_defaults :: pg_config

definition pg_NewFactory :: "pg_option list \<Rightarrow> pg_factory" where
  "pg_NewFactory opts = \<lparr>pg_defaults = pg_applyOptions pg_defaultConfig opts\<rparr>"

definition pg_Factory_Acquire ::
  "'s host \<Rightarrow> ('s, 'c) pgpool \<Rightarrow> ctx \<Rightarrow> pg_factory \<Rightarrow> string \<Rightarrow> pg_option list \<Rightarrow>
   ('s, 'c pg_holder res \<times> obs_event list) state" where
  "pg_Factory_Acquire H pool c f name opts =
     (let cfg = pg_applyOptions (pg_defaults f) opts in pg_acquire H pool c name cfg)"

definition pg_Factory_WithLock ::
  "'s host \<Rightarrow> ('s, 'c) pgpool \<Rightarrow> ctx \<Rightarrow> pg_factory \<Rightarrow> string \<Rightarrow> (ctx \<Rightarrow> ('s, fn_res) state) \<Rightarrow> pg_option list \<Rightarrow>
   ('s, fn_res \<times> obs_event list) state" where
  "pg_Factory_WithLock H pool c f name fn opts =
     with_holder (pg_Factory_Acquire H pool c f name opts) (pg_ReleaseContext H pool c) (fn c)"

definition pg_WithLock ::
  "'s host \<Rightarrow> ('s, 'c) pgpool \<Rightarrow> ctx \<Rightarrow> pg_lock \<Rightarrow> (ctx \<Rightarrow> ('s, fn_res) state) \<Rightarrow> pg_option list \<Rightarrow>
   ('s, fn_res \<times> obs_event list) state" where
  "pg_WithLock H pool c l fn opts =
     with_holder (pg_Lock_Acquire H pool c l opts) (pg_ReleaseContext H pool c) (fn c)"

text \<open>The holder of an adapter keeps the context of the acquire for its release.\<close>

record 'c pg_adapted =
  pa_h :: "'c pg_holder"
  pa_ctx :: ctx

definition pg_adapt :: "ctx \<Rightarrow> 'c pg_holder res \<times> obs_event list \<Rightarrow> 'c pg_adapted res \<times> obs_event list" where
  "pg_adapt c x = (case x of (r, evs) \<Rightarrow>
     (map_sum (\<lambda>e. e) (\<lambda>h. \<lparr>pa_h = h, pa_ctx = c\<rparr>) (to_lock_err pg_ErrLocked r), evs))"

definition pg_factoryAdapter_Acquire ::
  "'s host \<Rightarrow> ('s, 'c) pgpool \<Rightarrow> pg_factory \<Rightarrow> ctx \<Rightarrow> string \<Rightarrow> ('s, 'c pg_adapted res \<times> obs_event list) state" where
  "pg_factoryAdapter_Acquire H pool f c name = do {
     x \<leftarrow> pg_Factory_Acquire H pool c f name [];
     ret (pg_adapt c x)
   }"

definition pg_lockAdapter_Acquire ::
  "'s host \<Rightarrow> ('s, 'c) pgpool \<Rightarrow> pg_lock \<Rightarrow> ctx \<Rightarrow> string \<Rightarrow> ('s, 'c pg_adapted res \<times> obs_event list) state" where
  "pg_lockAdapter_Acquire H pool l c name = do {
     x \<leftarrow> pg_Lock_Acquire H pool c l [];
     ret (pg_adapt c x)
   }"

definition pg_holderAdapter_Release ::
  "'s host \<Rightarrow> ('s, 'c) pgpool \<Rightarrow> 'c pg_adapted \<Rightarrow> ('s, err \<times> 'c pg_holder \<times> obs_event list) state" where
  "pg_holderAdapter_Release H pool a = pg_ReleaseContext H pool (pa_ctx a) (pa_h a)"

end
