(* ===== verification/Pglock_Props.thy ===== *)
theory Pglock_Props
  imports Pglock
begin

text \<open>
  What \<open>pglock\<close> promises, relative to what Postgres and the connection pool document.  The view is
  how often each session holds each key, and which connections are out of the pool; a session
  that ends drops its locks.  Queries may fail with or without having taken effect.
\<close>

section \<open>What Postgres and the pool document\<close>

record 'c pg_view =
  pv_locks :: "64 word \<Rightarrow> 'c \<Rightarrow> nat"
  pv_busy :: "'c set"

definition pg_count :: "(nat \<Rightarrow> nat) \<Rightarrow> 64 word \<Rightarrow> 'c \<Rightarrow> 'c pg_view \<Rightarrow> 'c pg_view" where
  "pg_count f key conn d = d\<lparr>pv_locks := (pv_locks d)(key := (pv_locks d key)(conn := f (pv_locks d key conn)))\<rparr>"

definition end_session :: "'c \<Rightarrow> 'c pg_view \<Rightarrow> 'c pg_view" where
  "end_session conn d = d\<lparr>pv_locks := (\<lambda>k. (pv_locks d k)(conn := 0))\<rparr>"

definition pool_post :: "'c pg_view \<Rightarrow> 'c res \<Rightarrow> 'c pg_view \<Rightarrow> bool" where
  "pool_post d r d' \<longleftrightarrow> (case r of
     Inl e \<Rightarrow> d' = d
   | Inr conn \<Rightarrow> conn \<notin> pv_busy d \<and> d' = d\<lparr>pv_busy := insert conn (pv_busy d)\<rparr>)"

definition unclaimed :: "'c pg_view \<Rightarrow> 64 word \<Rightarrow> 'c \<Rightarrow> bool" where
  "unclaimed d key conn \<longleftrightarrow> (\<forall>c. c \<noteq> conn \<longrightarrow> pv_locks d key c = 0)"

text \<open>\<open>pg_try_advisory_lock\<close> counts up for a session that has the lock already.\<close>

definition try_post :: "'c \<Rightarrow> 64 word \<Rightarrow> 'c pg_view \<Rightarrow> bool res \<Rightarrow> 'c pg_view \<Rightarrow> bool" where
  "try_post conn key d r d' \<longleftrightarrow> (case r of
     Inr got \<Rightarrow> got = unclaimed d key conn \<and> d' = (if got then pg_count Suc key conn d else d)
   | Inl e \<Rightarrow> d' = d \<or> unclaimed d key conn \<and> d' = pg_count Suc key conn d)"

definition unlock_post :: "'c \<Rightarrow> 64 word \<Rightarrow> 'c pg_view \<Rightarrow> bool res \<Rightarrow> 'c pg_view \<Rightarrow> bool" where
  "unlock_post conn key d r d' \<longleftrightarrow> (case r of
     Inr ok \<Rightarrow> ok = (0 < pv_locks d key conn) \<and> d' = pg_count (\<lambda>n. n - 1) key conn d
   | Inl e \<Rightarrow> d' = d \<or> d' = pg_count (\<lambda>n. n - 1) key conn d)"

text \<open>A connection that goes back to the pool may be found broken, and its session ended.\<close>

definition put_back :: "'c \<Rightarrow> 'c pg_view \<Rightarrow> 'c pg_view" where
  "put_back conn d = d\<lparr>pv_busy := pv_busy d - {conn}\<rparr>"

definition back_post :: "'c \<Rightarrow> 'c pg_view \<Rightarrow> unit \<Rightarrow> 'c pg_view \<Rightarrow> bool" where
  "back_post conn d u d' \<longleftrightarrow> d' = put_back conn d \<or> d' = put_back conn (end_session conn d)"

definition pg_laws ::
  "bool \<Rightarrow> ('c pg_view \<Rightarrow> 'c pg_view \<Rightarrow> bool) \<Rightarrow> ('s \<Rightarrow> 'c pg_view) \<Rightarrow> ('s, 'c) pgpool \<Rightarrow> bool" where
  "pg_laws up env view pool \<longleftrightarrow>
     (\<forall>c. serves env view (PoolAcquire pool c) (sure up pool_post)) \<and>
     (\<forall>conn c key. serves env view (ScanBool pool conn c tryLockSQL key) (sure up (try_post conn key))) \<and>
     (\<forall>conn c key. serves env view (ScanBool pool conn c unlockSQL key) (sure up (unlock_post conn key))) \<and>
     (\<forall>conn c q. serves env view (ScanUint64 pool conn c q) (\<lambda>d r d'. d' = d)) \<and>
     (\<forall>conn c q x. serves env view (Exec pool conn c q x) (\<lambda>d r d'. d' = d)) \<and>
     (\<forall>conn. serves env view (ConnRelease pool conn) (back_post conn))"

lemma pg_lawsD:
  assumes "pg_laws up env view pool"
  shows "serves env view (PoolAcquire pool c) (sure up pool_post)"
    "serves env view (ScanBool pool conn c tryLockSQL key) (sure up (try_post conn key))"
    "serves env view (ScanBool pool conn c unlockSQL key) (sure up (unlock_post conn key))"
    "serves env view (ScanUint64 pool conn c q) (\<lambda>d r d'. d' = d)"
    "serves env view (Exec pool conn c q x) (\<lambda>d r d'. d' = d)"
    "serves env view (ConnRelease pool conn) (back_post conn)"
  using assms by (simp_all add: pg_laws_def)

section \<open>The slots\<close>

text \<open>The action of a slot, \<open>-1\<close> standing for singleton mode, and its key.\<close>

definition pg_slot ::
  "('s, 'c) pgpool \<Rightarrow> ctx \<Rightarrow> string \<Rightarrow> pg_config \<Rightarrow> int \<Rightarrow> string \<Rightarrow> ('s, 'c pg_holder res) state" where
  "pg_slot pool c name cfg i tr =
     (if i < 0 then pg_acquireSlot pool c name cfg 0 tr False else pg_acquireSlot pool c name cfg i tr True)"

definition pg_key :: "pg_config \<Rightarrow> string \<Rightarrow> int \<Rightarrow> 64 word" where
  "pg_key cfg name i = hashKey name (pc_keyOffset cfg) + word_of_int (max i 0)"

lemma pg_key_slot:
  "pg_slot_key cfg name 0 False = pg_key cfg name (- 1)" "0 \<le> i \<Longrightarrow> pg_slot_key cfg name i True = pg_key cfg name i"
  by (simp_all add: pg_slot_key_def pg_key_def)

lemma pg_acquire_slots:
  "pg_acquire H pool c name cfg =
     observed H ''pglock'' ''pglock.Acquire'' pg_ErrLocked pg_stamp (pc_observe cfg) c name
       (\<lambda>c' tr. slot_body H pg_ErrLocked (pc_maxConcurrent cfg) c' (\<lambda>i. pg_slot pool c' name cfg i tr))"
proof -
  have "try_slots pg_ErrLocked (\<lambda>slot. pg_acquireSlot pool c' name cfg slot tr True) (map int [0..<n]) =
      try_slots pg_ErrLocked (\<lambda>i. pg_slot pool c' name cfg i tr) (map int [0..<n])" for c' tr n
    by (rule try_slots_cong) (auto simp: pg_slot_def)
  then show ?thesis
    unfolding pg_acquire_observed pg_acquire_body_def slot_body_def slots_of_def
    by (simp add: pg_slot_def cong: if_cong)
qed

lemma after_pg_granted:
  assumes "pg_laws up env view pool" "world_ok env"
    and got: "\<And>d4 h. env (view s) d4 \<Longrightarrow> ph_conn h = conn \<Longrightarrow> ph_key h = key \<Longrightarrow> \<not> ph_released h \<Longrightarrow> QH h d4"
  shows "after (pg_granted pool c name tr conn key) (settled_res QE QH view) s"
proof -
  note laws = pg_lawsD[OF assms(1)]
  have refl: "env (view s) (view s)" using assms(2) by (rule world_okD(1))
  have scan: "after (ScanUint64 pool conn c q) (\<lambda>txid s'. QH \<lparr>ph_conn = conn, ph_key = key,
      ph_token = (case txid of Inl _ \<Rightarrow> 0 | Inr t \<Rightarrow> t), ph_name = [], ph_acquiredAt = 0,
      ph_observe = no_observe, ph_released = False\<rparr> (view s')) s2" if "env (view s) (view s2)" for s2 q
    by (rule after_local[OF assms(2) laws(4)], rule got[OF world_okD(2)[OF assms(2) that]]) simp_all
  show ?thesis
    unfolding pg_granted_def after_bind
    by (cases "tr = []") (auto intro!: scan refl after_local[OF assms(2) laws(5)])
qed

lemma after_pg_back:
  assumes "pg_laws up env view pool" "stable env I"
    and put: "\<And>d4 d5. env (view s) d4 \<Longrightarrow> back_post conn d4 () d5 \<Longrightarrow> I d5"
  shows "after (ConnRelease pool conn) (\<lambda>_ s'. I (view s')) s"
proof (rule after_serves[OF pg_lawsD(6)[OF assms(1)]])
  fix u s' d4 d5
  assume x: "env (view s) d4" "back_post conn d4 u d5" "env d5 (view s')"
  have "I d5" by (rule put[OF x(1)]) (use x(2) in simp)
  then show "I (view s')" by (rule stableD[OF assms(2) x(3)])
qed

text \<open>What follows the query for a lock: the connection goes back unless the lock was granted.\<close>

lemma after_pg_query:
  assumes "pg_laws up env view pool"
    and "\<And>q s' d d'. env (view s) d \<Longrightarrow> sure up (try_post conn key) d q d' \<Longrightarrow> env d' (view s') \<Longrightarrow>
      (case q of Inl err \<Rightarrow> after (ConnRelease pool conn) (\<lambda>_. Q (Inl (Wrap ''pglock: try_advisory_lock'' err))) s'
       | Inr got \<Rightarrow> if got then after (pg_granted pool c name tr conn key) Q s'
           else after (ConnRelease pool conn) (\<lambda>_. Q (Inl pg_ErrLocked)) s')"
  shows "after (State_Monad.bind (ScanBool pool conn c tryLockSQL key) (\<lambda>q. case q of
      Inl err \<Rightarrow> State_Monad.bind (ConnRelease pool conn) (\<lambda>_. ret (Inl (Wrap ''pglock: try_advisory_lock'' err)))
    | Inr got \<Rightarrow> if \<not> got then State_Monad.bind (ConnRelease pool conn) (\<lambda>_. ret (Inl pg_ErrLocked))
        else pg_granted pool c name tr conn key)) Q s"
  unfolding after_bind
proof (rule after_serves[OF pg_lawsD(2)[OF assms(1)]], goal_cases)
  case (1 q s' d d')
  from assms(2)[OF 1] show ?case by (auto split: sum.splits if_splits)
qed

text \<open>The shape of one attempt: what holds after it, from what holds after each query.\<close>

lemma after_acquireSlot:
  assumes "pg_laws up env view pool" "world_ok env" "\<And>e. stable env (QE e)" "\<And>e. \<not> up \<Longrightarrow> QE e (view s)"
    and put: "\<And>d0 d1 d2 d3 d4 d5 conn r. env (view s) d0 \<Longrightarrow> pool_post d0 (Inr conn) d1 \<Longrightarrow> env d1 d2 \<Longrightarrow>
      sure up (try_post conn key) d2 r d3 \<Longrightarrow> r \<noteq> Inr True \<Longrightarrow> env d3 d4 \<Longrightarrow> back_post conn d4 () d5 \<Longrightarrow>
      (if isl r then \<forall>e. QE e d5 else QE pg_ErrLocked d5)"
    and got: "\<And>d0 d1 d2 d3 d4 conn h. env (view s) d0 \<Longrightarrow> pool_post d0 (Inr conn) d1 \<Longrightarrow> env d1 d2 \<Longrightarrow>
      try_post conn key d2 (Inr True) d3 \<Longrightarrow> env d3 d4 \<Longrightarrow> ph_conn h = conn \<Longrightarrow> ph_key h = key \<Longrightarrow>
      \<not> ph_released h \<Longrightarrow> QH h d4"
    and key: "pg_slot_key cfg name slot sem = key"
  shows "after (pg_acquireSlot pool c name cfg slot tr sem) (settled_res QE QH view) s"
proof -
  let ?S = "settled_res QE QH view"
  note laws = pg_lawsD[OF assms(1)]
  have granted: "after (pg_granted pool c name tr conn key) ?S s1"
    if h: "env (view s) d0" "pool_post d0 (Inr conn) d1" "env d1 d2" "try_post conn key d2 (Inr True) d3" "env d3 (view s1)"
    for s1 d0 d1 d2 d3 conn
    by (rule after_pg_granted[OF assms(1,2)]) (rule got[OF h(1-4) world_okD(2)[OF assms(2) h(5)]])
  have refused: "after (ConnRelease pool conn) (\<lambda>_ s'. QE e (view s')) s1"
    if h: "env (view s) d0" "pool_post d0 (Inr conn) d1" "env d1 d2" "sure up (try_post conn key) d2 r d3"
      "r \<noteq> Inr True" "env d3 (view s1)" and e: "isl r \<or> e = pg_ErrLocked"
    for s1 d0 d1 d2 d3 conn r e
  proof (rule after_pg_back[OF assms(1,3)])
    fix d4 d5
    assume "env (view s1) d4" "back_post conn d4 () d5"
    from put[OF h(1-5) world_okD(2)[OF assms(2) h(6) this(1)] this(2)] e show "QE e d5" by (cases "isl r") auto
  qed
  show ?thesis
    unfolding pg_acquireSlot_def Let_def key after_bind[of "PoolAcquire pool c"]
  proof (rule after_serves[OF laws(1)], goal_cases)
    case x: (1 r s1 d0 d1)
    show ?case
    proof (cases r)
      case (Inl e)
      with x(2) have "d1 = d0" "\<not> up" by (simp_all add: pool_post_def sure_def)
      then have "QE e1 (view s1)" for e1
        using stableD[OF assms(3) world_okD(2)[OF assms(2) x(1)]] x(3) assms(4) by blast
      with Inl show ?thesis by simp
    next
      case (Inr conn)
      with x(2) have d1: "pool_post d0 (Inr conn) d1" by (simp add: sure_def)
      have "after (State_Monad.bind (ScanBool pool conn c tryLockSQL key) (\<lambda>q. case q of
          Inl err \<Rightarrow> State_Monad.bind (ConnRelease pool conn) (\<lambda>_. ret (Inl (Wrap ''pglock: try_advisory_lock'' err)))
        | Inr got \<Rightarrow> if \<not> got then State_Monad.bind (ConnRelease pool conn) (\<lambda>_. ret (Inl pg_ErrLocked))
            else pg_granted pool c name tr conn key)) ?S s1"
      proof (rule after_pg_query[OF assms(1)], goal_cases)
        case y: (1 q s' d2 d3)
        note p = x(1) d1 world_okD(2)[OF assms(2) x(3) y(1)]
        show ?case
          using refused[OF p y(2) _ y(3)] granted[OF p _ y(3)] y(2) by (auto simp: sure_def settled_res_fail split: sum.splits)
      qed
      with Inr show ?thesis by simp
    qed
  qed
qed

section \<open>While sessions hold the keys\<close>

text \<open>Every key of \<open>K\<close> is held by a session whose connection is out of the pool.\<close>

definition owned :: "64 word set \<Rightarrow> (64 word \<Rightarrow> 'c) \<Rightarrow> 'c pg_view \<Rightarrow> bool" where
  "owned K own d \<longleftrightarrow> (\<forall>k \<in> K. own k \<in> pv_busy d \<and> 0 < pv_locks d k (own k))"

lemma owned_pool: "pool_post d (Inr conn) d' \<Longrightarrow> owned K own d \<Longrightarrow> owned K own d' \<and> conn \<notin> own ` K"
  by (auto simp: owned_def pool_post_def)

lemma owned_try:
  assumes "try_post conn key d r d'" "owned K own d" "conn \<notin> own ` K" "key \<in> K"
  shows "r \<noteq> Inr True" "d' = d"
proof -
  have "\<not> unclaimed d key conn"
    using assms(2-4) unfolding unclaimed_def owned_def by (metis image_eqI less_numeral_extra(3))
  then show "r \<noteq> Inr True" "d' = d" using assms(1) by (auto simp: try_post_def split: sum.splits)
qed

lemma owned_back: "back_post conn d u d' \<Longrightarrow> owned K own d \<Longrightarrow> conn \<notin> own ` K \<Longrightarrow> owned K own d'"
  by (auto simp: owned_def back_post_def put_back_def end_session_def)

definition pg_keys :: "pg_config \<Rightarrow> string \<Rightarrow> 64 word set" where
  "pg_keys cfg name = pg_key cfg name ` set (slots_of (pc_maxConcurrent cfg))"

lemma pg_slot_acquire:
  "pg_slot pool c name cfg i tr = pg_acquireSlot pool c name cfg (max i 0) tr (0 \<le> i)"
  "pg_slot_key cfg name (max i 0) (0 \<le> i) = pg_key cfg name i"
  by (auto simp: pg_slot_def pg_slot_key_def pg_key_def max_def Let_def)

text \<open>C32: While another session, its connection out of the pool, holds each key of a lock, \<open>Acquire\<close> answers
  no holder, whichever queries fail and whatever other sessions do: the pool never hands out
  those connections, and Postgres refuses the key to any other session.\<close>

theorem pg_mutual_exclusion:
  assumes "host_laws env view H" "pg_laws False env view pool" "stable env (owned (pg_keys cfg name) own)"
    and "owned (pg_keys cfg name) own (view s)" "run_state (pg_acquire H pool c name cfg) s = ((r, evs), s')"
  shows "isl r \<and> owned (pg_keys cfg name) own (view s')"
proof -
  let ?I = "owned (pg_keys cfg name) own"
  have wo: "world_ok env" using assms(1) by (simp add: host_laws_def)
  have "after (pg_slot pool c' name cfg i tr) (settled_res (\<lambda>_. ?I) (\<lambda>_ _. False) view) s1"
    if i: "i \<in> set (slots_of (pc_maxConcurrent cfg))" "?I (view s1)" for c' tr i s1
    unfolding pg_slot_acquire(1)
  proof (rule after_acquireSlot[where QE = "\<lambda>_. ?I", OF assms(2) wo assms(3) i(2) _ _ pg_slot_acquire(2)])
    have k: "pg_key cfg name i \<in> pg_keys cfg name" using i(1) by (simp add: pg_keys_def)
    fix d0 d1 d2 d3 d4 conn
    assume h: "env (view s1) d0" "pool_post d0 (Inr conn) d1" "env d1 d2"
    have o: "?I d2" "conn \<notin> own ` pg_keys cfg name"
      using owned_pool[OF h(2)] stableD[OF assms(3) h(1) i(2)] stableD[OF assms(3) h(3)] by auto
    show "if isl r then \<forall>e :: gerr. ?I d5 else ?I d5"
      if "sure False (try_post conn (pg_key cfg name i)) d2 r d3" "env d3 d4" "back_post conn d4 () d5" for r d5
      using owned_back[OF that(3) _ o(2)] stableD[OF assms(3) that(2)] owned_try(2)[OF that(1)[simplified] o k] o(1) by simp
    show False if "try_post conn (pg_key cfg name i) d2 (Inr True) d3"
      using owned_try(1)[OF that o k] by simp
  qed
  then have "after (pg_acquire H pool c name cfg) (\<lambda>(r, evs). settled_res (\<lambda>_. ?I) (\<lambda>_ _. False) view r) s"
    unfolding pg_acquire_slots
    by (intro observed_any[where J = ?I, OF assms(1,3)]) (use assms(4) in \<open>auto simp: stable_def\<close>)
  from afterD[OF this assms(5)] show ?thesis by (auto simp: settled_res_def split: sum.splits)
qed

section \<open>Connections\<close>

text \<open>What an attempt leaves out of the pool: nothing when it fails, the holder's connection otherwise.\<close>

definition took :: "'c set \<Rightarrow> 'c pg_holder \<Rightarrow> 'c pg_view \<Rightarrow> bool" where
  "took B h d \<longleftrightarrow> ph_conn h \<notin> B \<and> pv_busy d = insert (ph_conn h) B \<and> \<not> ph_released h"

lemma try_busy: "try_post conn key d r d' \<Longrightarrow> pv_busy d' = pv_busy d"
  by (auto simp: try_post_def pg_count_def split: sum.splits if_splits)

lemma unlock_busy: "unlock_post conn key d r d' \<Longrightarrow> pv_busy d' = pv_busy d"
  by (auto simp: unlock_post_def pg_count_def split: sum.splits)

lemma back_busy: "back_post conn d u d' \<Longrightarrow> pv_busy d' = pv_busy d - {conn}"
  by (auto simp: back_post_def put_back_def end_session_def)

lemma acquire_busy:
  assumes "host_laws (=) view H" "pg_laws False (=) view pool"
  shows "after (pg_acquire H pool c name cfg)
    (\<lambda>(r, evs). settled_res (\<lambda>_ d. pv_busy d = pv_busy (view s)) (took (pv_busy (view s))) view r) s"
  unfolding pg_acquire_slots
proof (rule observed_any[OF assms(1)])
  fix c' tr i s1
  assume b: "pv_busy (view s1) = pv_busy (view s)"
  show "after (pg_slot pool c' name cfg i tr)
      (settled_res (\<lambda>_ d. pv_busy d = pv_busy (view s)) (took (pv_busy (view s))) view) s1"
    unfolding pg_slot_acquire(1)
    by (rule after_acquireSlot[where QE = "\<lambda>_ d. pv_busy d = pv_busy (view s)" and key = "pg_key cfg name i",
          OF assms(2) world_ok_eq])
      (use b in \<open>auto simp: stable_def took_def pool_post_def pg_slot_acquire(2) dest!: try_busy back_busy\<close>)
qed (auto simp: stable_def took_def pg_stamp_def)

text \<open>C33: No connection is lost: whichever queries fail, an \<open>Acquire\<close> that answers an error has returned to the
  pool every connection it took, and one that answers a holder keeps exactly the holder's, which
  its \<open>Release\<close> returns, also when the unlock query fails.\<close>

theorem pg_no_connection_lost:
  assumes "host_laws (=) view H" "pg_laws False (=) view pool" "run_state (pg_acquire H pool c name cfg) s = ((r, evs), s1)"
    and "run_state (pg_ReleaseContext H pool c2 h) s1 = ((e, h', evs'), s2)"
  shows "case r of Inl x \<Rightarrow> pv_busy (view s1) = pv_busy (view s)
    | Inr h0 \<Rightarrow> pv_busy (view s1) = insert (ph_conn h0) (pv_busy (view s)) \<and> ph_conn h0 \<notin> pv_busy (view s) \<and>
        (h = h0 \<longrightarrow> ph_released h' \<and> pv_busy (view s2) = pv_busy (view s))"
proof (cases r)
  case (Inl x)
  with afterD[OF acquire_busy[OF assms(1,2)] assms(3)] show ?thesis by simp
next
  case (Inr h0)
  with afterD[OF acquire_busy[OF assms(1,2)] assms(3)] have t: "took (pv_busy (view s)) h0 (view s1)" by simp
  have "ph_released h' \<and> pv_busy (view s2) = pv_busy (view s)" if "h = h0"
  proof -
    note laws = pg_lawsD[OF assms(2)]
    have unlock: "after (ScanBool pool (ph_conn h) c2 unlockSQL (ph_key h))
        (\<lambda>q s'. pv_busy (view s') = pv_busy (view s1)) s1"
      by (rule after_serves[OF laws(3)]) (auto dest: unlock_busy)
    have put: "after (ConnRelease pool (ph_conn h)) (\<lambda>_ s'. pv_busy (view s') = pv_busy (view s)) s'"
      if "pv_busy (view s') = pv_busy (view s1)" for s'
      by (rule after_serves[OF laws(6)]) (use that t \<open>h = h0\<close> in \<open>auto simp: took_def dest!: back_busy\<close>)
    have "after (ScanBool pool (ph_conn h) c2 unlockSQL (ph_key h)) (\<lambda>q. after (ConnRelease pool (ph_conn h))
        (\<lambda>_. after (hold_events H (ph_acquiredAt h) (pg_recordHold (ph_observe h) (ph_name h)))
          (\<lambda>_ s'. pv_busy (view s') = pv_busy (view s)))) s1"
      by (rule after_mono[OF unlock], rule after_mono[OF put], assumption, rule host_hold[OF assms(1)]) simp
    then have "after (pg_ReleaseContext H pool c2 h) (\<lambda>(e, h', evs) s'. ph_released h' \<and> pv_busy (view s') = pv_busy (view s)) s1"
      using t that unfolding pg_ReleaseContext_def Let_def by (simp add: took_def)
    from afterD[OF this assms(4)] show ?thesis by simp
  qed
  with Inr t show ?thesis by (simp add: took_def)
qed

section \<open>A pool in memory\<close>

text \<open>
  Connections are numbers; one that is free is found above all that are out.  \<open>down\<close> makes every
  unlock query fail before it is sent, as a context that is done does.
\<close>

record pg_mem =
  pm_held :: "(64 word \<times> nat) list"
  pm_busy :: "nat list"

definition mem_view :: "pg_mem \<Rightarrow> nat pg_view" where
  "mem_view m = \<lparr>pv_locks = (\<lambda>k c. count_list (pm_held m) (k, c)), pv_busy = set (pm_busy m)\<rparr>"

definition mem_scan :: "bool \<Rightarrow> nat \<Rightarrow> string \<Rightarrow> 64 word \<Rightarrow> pg_mem \<Rightarrow> bool res \<times> pg_mem" where
  "mem_scan down conn q key m =
     (if q = tryLockSQL then
        if list_all (\<lambda>(k, c). k = key \<longrightarrow> c = conn) (pm_held m)
        then (Inr True, m\<lparr>pm_held := (key, conn) # pm_held m\<rparr>) else (Inr False, m)
      else if q = unlockSQL \<and> \<not> down then (Inr ((key, conn) \<in> set (pm_held m)), m\<lparr>pm_held := remove1 (key, conn) (pm_held m)\<rparr>)
      else (Inl context_Canceled, m))"

definition mem_pool :: "bool \<Rightarrow> (pg_mem, nat) pgpool" where
  "mem_pool down = \<lparr>
     PoolAcquire = (\<lambda>c. State (\<lambda>m. let conn = Suc (sum_list (pm_busy m)) in (Inr conn, m\<lparr>pm_busy := conn # pm_busy m\<rparr>))),
     ScanBool = (\<lambda>conn c q key. State (mem_scan down conn q key)),
     ScanUint64 = (\<lambda>conn c q. ret (Inr 7)),
     Exec = (\<lambda>conn c q x. ret None),
     ConnRelease = (\<lambda>conn. State (\<lambda>m. ((), m\<lparr>pm_busy := removeAll conn (pm_busy m)\<rparr>)))\<rparr>"

lemma sql_differ: "tryLockSQL \<noteq> unlockSQL"
  by (simp add: tryLockSQL_def unlockSQL_def)

lemma mem_unclaimed:
  "unclaimed (mem_view m) key conn \<longleftrightarrow> list_all (\<lambda>(k, c). k = key \<longrightarrow> c = conn) (pm_held m)"
  by (auto simp: unclaimed_def mem_view_def list_all_iff count_list_0_iff)

lemma mem_pool_laws: "pg_laws (\<not> down) (=) mem_view (mem_pool down)"
  unfolding pg_laws_def
proof (intro conjI allI)
  fix conn c key
  show "serves (=) mem_view (PoolAcquire (mem_pool down) c) (sure (\<not> down) pool_post)"
    by (auto simp: sure_def serves_def after_def mem_pool_def pool_post_def mem_view_def Let_def fresh_number)
  show "serves (=) mem_view (ScanBool (mem_pool down) conn c tryLockSQL key) (sure (\<not> down) (try_post conn key))"
    by (auto simp: sure_def serves_def after_def mem_pool_def mem_scan_def try_post_def mem_unclaimed)
      (auto simp: mem_view_def pg_count_def fun_eq_iff)
  show "serves (=) mem_view (ScanBool (mem_pool down) conn c unlockSQL key) (sure (\<not> down) (unlock_post conn key))"
    by (auto simp: sure_def serves_def after_def mem_pool_def mem_scan_def unlock_post_def sql_differ[symmetric])
      (auto simp: mem_view_def pg_count_def fun_eq_iff count_list_remove1 count_list_gt_0)
  show "serves (=) mem_view (ConnRelease (mem_pool down) conn) (back_post conn)"
    by (auto simp: serves_def after_def mem_pool_def back_post_def mem_view_def put_back_def)
qed (auto simp: mem_pool_def serves_def)

lemma mem_pool_under: "world_ok env \<Longrightarrow> pg_laws False env mem_view (mem_pool True)"
  using mem_pool_laws[of True] unfolding pg_laws_def by (simp add: serves_mono)

text \<open>The others do what they like, but for one session that holds one key.\<close>

definition spares_session :: "64 word set \<Rightarrow> (64 word \<Rightarrow> 'c) \<Rightarrow> 'c pg_view \<Rightarrow> 'c pg_view \<Rightarrow> bool" where
  "spares_session K own d d' \<longleftrightarrow> (owned K own d \<longrightarrow> owned K own d')"

lemma spares_session_simps [simp]: "world_ok (spares_session K own)" "stable (spares_session K own) (owned K own)"
  by (auto simp: spares_session_def world_ok_def stable_def reflp_def transp_def)

theorem pg_mutual_exclusion_witness:
  "\<exists>e. fst (fst (run_state (pg_acquire plain_host (mem_pool True) (\<lambda>_. None) ''job'' pg_defaultConfig)
      \<lparr>pm_held = [(hashKey ''job'' 0, 4)], pm_busy = [4]\<rparr>)) = Inl e"
proof -
  let ?s = "\<lparr>pm_held = [(hashKey ''job'' 0, 4)], pm_busy = [4]\<rparr>"
  obtain r evs s' where r: "run_state (pg_acquire plain_host (mem_pool True) (\<lambda>_. None) ''job'' pg_defaultConfig) ?s = ((r, evs), s')"
    by (metis prod.exhaust)
  have "owned (pg_keys pg_defaultConfig ''job'') (\<lambda>_. 4) (mem_view ?s)"
    by (simp add: owned_def pg_keys_def slots_of_def pg_defaultConfig_def pg_key_def mem_view_def)
  from pg_mutual_exclusion[OF plain_host_laws mem_pool_under spares_session_simps(2) this r] r
  show ?thesis by (auto simp: isl_def)
qed

theorem pg_no_connection_lost_witness:
  "\<exists>h evs s1. run_state (pg_acquire plain_host (mem_pool True) (\<lambda>_. None) ''job'' pg_defaultConfig)
      \<lparr>pm_held = [], pm_busy = [4]\<rparr> = ((Inr h, evs), s1) \<and>
    pv_busy (mem_view (snd (run_state (pg_ReleaseContext plain_host (mem_pool True) (\<lambda>_. None) h) s1))) = {4}"
proof -
  let ?s = "\<lparr>pm_held = [], pm_busy = [4]\<rparr>"
  obtain h evs s1 where r: "run_state (pg_acquire plain_host (mem_pool True) (\<lambda>_. None) ''job'' pg_defaultConfig) ?s = ((Inr h, evs), s1)"
    by (simp add: pg_acquire_def pg_acquire_body_def pg_acquireSlot_def pg_granted_def pg_hook_defs pg_defaultConfig_def
        plain_host_def mem_pool_def mem_scan_def Let_def extract_trace_def no_observe_def)
  obtain e h' evs' s2 where x: "run_state (pg_ReleaseContext plain_host (mem_pool True) (\<lambda>_. None) h) s1 = ((e, h', evs'), s2)"
    by (metis prod.exhaust)
  from pg_no_connection_lost[OF plain_host_laws mem_pool_under r x] r x show ?thesis by (auto simp: mem_view_def)
qed

end
