(* ===== verification/Pglock_Quiet.thy ===== *)
theory Pglock_Quiet
  imports Pglock_Props
begin

text \<open>
  \<open>pglock\<close> with nobody interfering: what an acquire and its release do to the locks of Postgres,
  what a failing unlock query leaves behind, and how the keys of slots and offsets relate.
\<close>

section \<open>Acquire and release\<close>

definition pg_quiet :: "'s host \<Rightarrow> ('s \<Rightarrow> 'c pg_view) \<Rightarrow> ('s, 'c) pgpool \<Rightarrow> bool" where
  "pg_quiet H view pool \<longleftrightarrow> host_laws (=) view H \<and> host_up H \<and> pg_laws True (=) view pool"

text \<open>Sessions whose connection is in the pool hold nothing.\<close>

definition pool_tidy :: "'c pg_view \<Rightarrow> bool" where
  "pool_tidy d \<longleftrightarrow> (\<forall>c. c \<notin> pv_busy d \<longrightarrow> (\<forall>k. pv_locks d k c = 0))"

definition pg_won :: "64 word \<Rightarrow> 'c pg_view \<Rightarrow> 'c pg_holder \<Rightarrow> 'c pg_view \<Rightarrow> bool" where
  "pg_won key d h d' \<longleftrightarrow> ph_key h = key \<and> ph_conn h \<notin> pv_busy d \<and> \<not> ph_released h \<and>
     d' = pg_count Suc key (ph_conn h) (d\<lparr>pv_busy := insert (ph_conn h) (pv_busy d)\<rparr>)"

lemma pg_won_stamp: "pg_won key d h d' \<Longrightarrow> pg_won key d (pg_stamp obs m t h) d'"
  by (simp add: pg_won_def pg_stamp_def)

lemma pgq_up:
  assumes "pg_quiet H view pool"
  shows "host_laws (=) view H" "host_up H" "pg_laws True (=) view pool"
  using assms by (simp_all add: pg_quiet_def)

lemma end_session_tidy:
  assumes "pool_tidy d" "conn \<notin> pv_busy d"
  shows "end_session conn d = d" "end_session conn (d\<lparr>pv_busy := B\<rparr>) = d\<lparr>pv_busy := B\<rparr>"
proof -
  have "(pv_locks d k)(conn := 0) = pv_locks d k" for k
    using assms by (auto simp: pool_tidy_def fun_upd_idem_iff)
  then show "end_session conn d = d" "end_session conn (d\<lparr>pv_busy := B\<rparr>) = d\<lparr>pv_busy := B\<rparr>"
    by (simp_all add: end_session_def)
qed

lemma back_tidy:
  assumes "pool_tidy d" "conn \<notin> pv_busy d" "back_post conn (d\<lparr>pv_busy := insert conn (pv_busy d)\<rparr>) u d'"
  shows "d' = d"
  using assms(2,3) end_session_tidy(2)[OF assms(1,2)] by (auto simp: back_post_def put_back_def)

lemma pgq_slot_held:
  assumes "pg_quiet H view pool" "pool_tidy (view s)" "c0 \<in> pv_busy (view s)" "0 < pv_locks (view s) (pg_key cfg name i) c0"
  shows "after (pg_slot pool c name cfg i tr) (\<lambda>r s'. r = Inl pg_ErrLocked \<and> view s' = view s) s"
proof -
  have no: "r = Inr False \<and> d' = d"
    if "d = (view s)\<lparr>pv_busy := B\<rparr>" "conn \<notin> pv_busy (view s)" "sure True (try_post conn (pg_key cfg name i)) d r d'"
    for d d' B conn r
  proof -
    have "\<not> unclaimed d (pg_key cfg name i) conn"
      using that(1,2) assms(3,4) unfolding unclaimed_def by auto
    then show ?thesis using that(3) by (auto simp: sure_def try_post_def isl_def split: sum.splits)
  qed
  have "after (pg_slot pool c name cfg i tr)
      (settled_res (\<lambda>e d. e = pg_ErrLocked \<and> d = view s) (\<lambda>_ _. False) view) s"
    unfolding pg_slot_acquire(1)
  proof (rule after_acquireSlot[where key = "pg_key cfg name i" and QE = "\<lambda>e d. e = pg_ErrLocked \<and> d = view s",
        OF pgq_up(3)[OF assms(1)] world_ok_eq])
    fix d0 d1 d2 d3 d4 d5 conn r
    assume h: "view s = d0" "pool_post d0 (Inr conn) d1" "d1 = d2" "sure True (try_post conn (pg_key cfg name i)) d2 r d3"
      "d3 = d4" "back_post conn d4 () d5"
    then have d: "conn \<notin> pv_busy (view s)" "d2 = (view s)\<lparr>pv_busy := insert conn (pv_busy (view s))\<rparr>"
      by (auto simp: pool_post_def)
    note r = no[OF d(2,1) h(4)]
    then have "d5 = view s" using back_tidy[OF assms(2) d(1)] h(5,6) d(2) by auto
    with r show "if isl r then \<forall>e. e = pg_ErrLocked \<and> d5 = view s else pg_ErrLocked = pg_ErrLocked \<and> d5 = view s" by simp
  next
    fix d0 d1 d2 d3 conn
    assume h: "view s = d0" "pool_post d0 (Inr conn) d1" "d1 = d2" "try_post conn (pg_key cfg name i) d2 (Inr True) d3"
    then have d: "conn \<notin> pv_busy (view s)" "d2 = (view s)\<lparr>pv_busy := insert conn (pv_busy (view s))\<rparr>"
      by (auto simp: pool_post_def)
    from no[OF d(2,1), of "Inr True" d3] h(4) show False by (auto simp: sure_def)
  qed (auto simp: stable_def pg_slot_acquire(2))
  then show ?thesis by (rule after_mono) (auto simp: settled_res_def split: sum.splits)
qed

lemma pgq_slot_free:
  assumes "pg_quiet H view pool" "pv_locks (view s) (pg_key cfg name i) = (\<lambda>_. 0)"
  shows "after (pg_slot pool c name cfg i tr) (\<lambda>r s'. \<exists>h. r = Inr h \<and> pg_won (pg_key cfg name i) (view s) h (view s')) s"
proof -
  have "after (pg_slot pool c name cfg i tr)
      (settled_res (\<lambda>_ _. False) (pg_won (pg_key cfg name i) (view s)) view) s"
    unfolding pg_slot_acquire(1)
    by (rule after_acquireSlot[where key = "pg_key cfg name i" and QE = "\<lambda>_ _. False", OF pgq_up(3)[OF assms(1)] world_ok_eq])
      (use assms(2) in \<open>auto simp: stable_def sure_def isl_def pool_post_def try_post_def unclaimed_def pg_won_def pg_slot_acquire(2)
        split: sum.splits\<close>)
  then show ?thesis by (rule after_mono) (auto simp: settled_res_def split: sum.splits)
qed

lemma pgq_acquire:
  assumes "pg_quiet H view pool" "pool_tidy (view s)" "slots_of (pc_maxConcurrent cfg) = is @ j # js"
    and "\<forall>i \<in> set is. \<exists>c \<in> pv_busy (view s). 0 < pv_locks (view s) (pg_key cfg name i) c"
    and "pv_locks (view s) (pg_key cfg name j) = (\<lambda>_. 0)"
  shows "after (pg_acquire H pool c name cfg) (\<lambda>(r, evs) s'. \<exists>h. r = Inr h \<and> pg_won (pg_key cfg name j) (view s) h (view s')) s"
  unfolding pg_acquire_slots
proof (rule observed_first[where J = "\<lambda>d. d = view s", OF pgq_up(1,2)[OF assms(1)] stable_eq stable_eq assms(3) refl])
  fix c' tr i s1
  assume i: "i \<in> set is" "view s1 = view s"
  then obtain c0 where "c0 \<in> pv_busy (view s1)" "0 < pv_locks (view s1) (pg_key cfg name i) c0" using assms(4) by auto
  from pgq_slot_held[OF assms(1) _ this, of c' tr] assms(2) i(2)
  show "after (pg_slot pool c' name cfg i tr) (\<lambda>r s'. r = Inl pg_ErrLocked \<and> view s' = view s) s1" by simp
next
  fix c' s1
  assume "view s1 = view s"
  with pgq_slot_free[OF assms(1), of s1 cfg name j c' "extract_trace (pc_observe cfg) c"] assms(5)
  show "after (pg_slot pool c' name cfg j (extract_trace (pc_observe cfg) c))
      (\<lambda>r s'. \<exists>h. r = Inr h \<and> pg_won (pg_key cfg name j) (view s) h (view s')) s1" by simp
qed (rule pg_won_stamp)

lemma count_back: "pg_count (\<lambda>n. n - 1) key conn (pg_count Suc key conn d) = d"
  by (simp add: pg_count_def fun_upd_idem_iff)

lemma pgq_release:
  assumes "pg_quiet H view pool" "pool_tidy d" "pg_won key d h (view s)"
  shows "after (pg_ReleaseContext H pool c h) (\<lambda>(e, h', evs) s'. e = None \<and> h' = h\<lparr>ph_released := True\<rparr> \<and> view s' = d) s"
proof -
  let ?d = "d\<lparr>pv_busy := insert (ph_conn h) (pv_busy d)\<rparr>"
  note laws = pg_lawsD[OF pgq_up(3)[OF assms(1)]]
  have h: "ph_key h = key" "ph_conn h \<notin> pv_busy d" "\<not> ph_released h" "view s = pg_count Suc key (ph_conn h) ?d"
    using assms(3) by (auto simp: pg_won_def)
  have unlock: "after (ScanBool pool (ph_conn h) c unlockSQL (ph_key h)) (\<lambda>q s'. \<not> isl q \<and> view s' = ?d) s"
    by (rule after_serves[OF laws(3)])
      (use h count_back[of key "ph_conn h" ?d] in \<open>auto simp: sure_def unlock_post_def isl_def split: sum.splits\<close>)
  have put: "after (ConnRelease pool (ph_conn h)) (\<lambda>_ s'. view s' = d) s'" if "view s' = ?d" for s'
    by (rule after_serves[OF laws(6)]) (use that back_tidy[OF assms(2) h(2)] in auto)
  have "after (ScanBool pool (ph_conn h) c unlockSQL (ph_key h)) (\<lambda>q. after (ConnRelease pool (ph_conn h))
      (\<lambda>_. after (hold_events H (ph_acquiredAt h) (pg_recordHold (ph_observe h) (ph_name h)))
        (\<lambda>_ s'. \<not> isl q \<and> view s' = d))) s"
    by (rule after_mono[OF unlock], rule after_mono[OF put], simp, rule host_hold[OF pgq_up(1)[OF assms(1)]]) simp
  then show ?thesis
    using h(3) unfolding pg_ReleaseContext_def Let_def
    by (auto elim!: after_mono split: sum.splits)
qed

text \<open>With nobody interfering and no query failing, \<open>Acquire\<close> takes the first slot whose key no session
  holds: the session of the holder's connection, which was in the pool, holds the key once and nobody
  else does; and \<open>Release\<close> gives back the lock and the connection, so that Postgres and the pool are
  as they were.\<close>

theorem pg_acquire_release:
  assumes "pg_quiet H view pool" "pool_tidy (view s)" "slots_of (pc_maxConcurrent cfg) = is @ j # js"
    and "\<forall>i \<in> set is. \<exists>c \<in> pv_busy (view s). 0 < pv_locks (view s) (pg_key cfg name i) c"
    and "pv_locks (view s) (pg_key cfg name j) = (\<lambda>_. 0)"
  shows "\<exists>h evs s1 evs' s2. run_state (pg_acquire H pool c name cfg) s = ((Inr h, evs), s1) \<and>
    pg_Holder_Key h = pg_key cfg name j \<and> ph_conn h \<notin> pv_busy (view s) \<and>
    pv_locks (view s1) (pg_key cfg name j) = (\<lambda>_. 0)(ph_conn h := 1) \<and>
    run_state (pg_ReleaseContext H pool c2 h) s1 = ((None, h\<lparr>ph_released := True\<rparr>, evs'), s2) \<and> view s2 = view s"
proof -
  from pgq_acquire[OF assms, of c]
  obtain h evs s1 where h: "run_state (pg_acquire H pool c name cfg) s = ((Inr h, evs), s1)"
    "pg_won (pg_key cfg name j) (view s) h (view s1)" by (rule afterE) auto
  from pgq_release[OF assms(1,2) h(2), of c2]
  obtain evs' s2 where "run_state (pg_ReleaseContext H pool c2 h) s1 = ((None, h\<lparr>ph_released := True\<rparr>, evs'), s2)" "view s2 = view s"
    by (rule afterE) auto
  moreover have "pv_locks (view s1) (pg_key cfg name j) = (\<lambda>_. 0)(ph_conn h := 1)"
    using h(2) assms(5) by (simp add: pg_won_def pg_count_def)
  ultimately show ?thesis using h unfolding pg_won_def pg_Holder_Key_def by blast
qed

lemma mem_pool_quiet: "pg_quiet plain_host mem_view (mem_pool False)"
  using mem_pool_laws[of False] by (simp add: pg_quiet_def)

theorem pg_acquire_release_witness:
  "\<exists>h evs s1 evs' s2. run_state (pg_acquire plain_host (mem_pool False) (\<lambda>_. None) ''job''
      (pg_applyOptions pg_defaultConfig [pg_WithMaxConcurrent 2])) \<lparr>pm_held = [(hashKey ''job'' 0, 4)], pm_busy = [4]\<rparr> = ((Inr h, evs), s1) \<and>
    pg_Holder_Key h = hashKey ''job'' 0 + 1 \<and>
    run_state (pg_ReleaseContext plain_host (mem_pool False) background h) s1 = ((None, h\<lparr>ph_released := True\<rparr>, evs'), s2) \<and>
    mem_view s2 = mem_view \<lparr>pm_held = [(hashKey ''job'' 0, 4)], pm_busy = [4]\<rparr>"
proof -
  let ?s = "\<lparr>pm_held = [(hashKey ''job'' 0, 4)], pm_busy = [4]\<rparr>" and ?cfg = "pg_applyOptions pg_defaultConfig [pg_WithMaxConcurrent 2]"
  have t: "pool_tidy (mem_view ?s)" "slots_of (pc_maxConcurrent ?cfg) = [0] @ 1 # []"
    by (simp_all add: pool_tidy_def mem_view_def slots_of_def cfg_simps upt_rec)
  have k: "pg_key ?cfg ''job'' 0 = hashKey ''job'' 0" "pg_key ?cfg ''job'' 1 = hashKey ''job'' 0 + 1"
    by (simp_all add: pg_key_def cfg_simps)
  have l: "\<forall>i \<in> set [0]. \<exists>c \<in> pv_busy (mem_view ?s). 0 < pv_locks (mem_view ?s) (pg_key ?cfg ''job'' i) c"
    "pv_locks (mem_view ?s) (pg_key ?cfg ''job'' 1) = (\<lambda>_. 0)"
    by (simp_all add: k mem_view_def fun_eq_iff)
  show ?thesis
    using pg_acquire_release[OF mem_pool_quiet, OF t(1) t(2) l(1) l(2), of "\<lambda>_. None" background]
    unfolding k by blast
qed

section \<open>A failing unlock\<close>

text \<open>C39: When the unlock query fails before Postgres sees it (a context that is done, as \<open>WithLock\<close> passes on),
  \<open>Release\<close> reports the error but returns the healthy connection, whose session still holds the lock, to
  the pool: the holder counts as released, and from then on only an acquire that happens to be given that
  very connection can get the lock.\<close>

theorem pg_failed_unlock_keeps_lock:
  assumes "host_laws (=) view H" "pg_laws False (=) view pool" "\<not> ph_released h" "0 < pv_locks (view s) (ph_key h) (ph_conn h)"
    and "run_state (ScanBool pool (ph_conn h) c unlockSQL (ph_key h)) s = (Inl x, s0)" "view s0 = view s"
    and "view (snd (run_state (ConnRelease pool (ph_conn h)) s0)) = put_back (ph_conn h) (view s0)"
    and "run_state (pg_ReleaseContext H pool c h) s = ((e, h', evs), s1)"
    and "pg_slot_key cfg name slot sem = ph_key h" "run_state (pg_acquireSlot pool c2 name cfg slot tr sem) s1 = (r, s2)"
  shows "e = Some (Wrap ''pglock: advisory_unlock'' x) \<and> ph_released h' \<and> ph_conn h \<notin> pv_busy (view s1) \<and>
    0 < pv_locks (view s1) (ph_key h) (ph_conn h) \<and> (case r of Inl _ \<Rightarrow> True | Inr h2 \<Rightarrow> ph_conn h2 = ph_conn h)"
proof -
  let ?k = "ph_key h" and ?c = "ph_conn h"
  have "after (hold_events H (ph_acquiredAt h) (pg_recordHold (ph_observe h) (ph_name h)))
      (\<lambda>_ s'. view s' = put_back ?c (view s)) (snd (run_state (ConnRelease pool ?c) s0))"
    by (rule host_hold[OF assms(1)]) (use assms(6,7) in simp)
  then have "after (pg_ReleaseContext H pool c h) (\<lambda>(e, h', evs) s'. e = Some (Wrap ''pglock: advisory_unlock'' x) \<and>
      ph_released h' \<and> view s' = put_back ?c (view s)) s"
    using assms(3,5) unfolding pg_ReleaseContext_def Let_def by (simp add: after_def split: prod.splits)
  from afterD[OF this assms(8)] have 1: "e = Some (Wrap ''pglock: advisory_unlock'' x)" "ph_released h'"
    "view s1 = put_back ?c (view s)" by auto
  then have held: "0 < pv_locks (view s1) ?k ?c" "?c \<notin> pv_busy (view s1)" using assms(4) by (simp_all add: put_back_def)
  have "after (pg_acquireSlot pool c2 name cfg slot tr sem) (settled_res (\<lambda>_ _. True) (\<lambda>h2 _. ph_conn h2 = ?c) view) s1"
  proof (rule after_acquireSlot[OF assms(2) world_ok_eq _ _ _ _ assms(9)])
    fix d0 d1 d2 d3 conn and h2 :: "'a pg_holder"
    assume a: "view s1 = d0" "pool_post d0 (Inr conn) d1" "d1 = d2" "try_post conn ?k d2 (Inr True) d3" "ph_conn h2 = conn"
    then have "unclaimed d2 ?k conn" "pv_locks d2 = pv_locks (view s1)" by (auto simp: try_post_def pool_post_def)
    with held(1) a(5) show "ph_conn h2 = ?c" unfolding unclaimed_def by (metis less_numeral_extra(3))
  qed (simp_all add: stable_def)
  from afterD[OF this assms(10)] 1 held show ?thesis by (auto split: sum.splits)
qed

theorem pg_failed_unlock_keeps_lock_witness:
  "let h = \<lparr>ph_conn = 4, ph_key = hashKey ''job'' 0, ph_token = 7, ph_name = ''job'', ph_acquiredAt = 1,
      ph_observe = no_observe, ph_released = False\<rparr>;
     s1 = snd (run_state (pg_ReleaseContext plain_host (mem_pool True) background h) \<lparr>pm_held = [(hashKey ''job'' 0, 4)], pm_busy = [4]\<rparr>)
   in 4 \<notin> pv_busy (mem_view s1) \<and> 0 < pv_locks (mem_view s1) (hashKey ''job'' 0) 4"
proof -
  let ?h = "\<lparr>ph_conn = 4, ph_key = hashKey ''job'' 0, ph_token = 7, ph_name = ''job'', ph_acquiredAt = 1,
      ph_observe = no_observe, ph_released = False\<rparr> :: nat pg_holder"
  let ?s = "\<lparr>pm_held = [(hashKey ''job'' 0, 4)], pm_busy = [4]\<rparr>" and ?p = "mem_pool True"
  obtain e h' evs s1 where r: "run_state (pg_ReleaseContext plain_host ?p background ?h) ?s = ((e, h', evs), s1)"
    by (metis prod.exhaust)
  obtain r2 s2 where x: "run_state (pg_acquireSlot ?p background ''job'' pg_defaultConfig 0 [] False) s1 = (r2, s2)"
    by (metis prod.exhaust)
  have q: "run_state (ScanBool ?p (ph_conn ?h) background unlockSQL (ph_key ?h)) ?s = (Inl context_Canceled, ?s)"
    by (simp add: mem_pool_def mem_scan_def sql_differ[symmetric])
  have l: "host_laws (=) mem_view plain_host" "pg_laws False (=) mem_view ?p" by (simp_all add: mem_pool_under)
  have v: "mem_view (snd (run_state (ConnRelease ?p (ph_conn ?h)) ?s)) = put_back (ph_conn ?h) (mem_view ?s)"
    "\<not> ph_released ?h" "0 < pv_locks (mem_view ?s) (ph_key ?h) (ph_conn ?h)"
    "pg_slot_key pg_defaultConfig ''job'' 0 False = ph_key ?h"
    by (simp_all add: mem_pool_def mem_view_def put_back_def pg_slot_key_def pg_defaultConfig_def)
  from pg_failed_unlock_keeps_lock[OF l v(2,3) q refl v(1) r v(4) x] r show ?thesis by simp
qed

section \<open>Keys\<close>

text \<open>The slots of one lock have different keys, up to \<open>2^64\<close> of them, with wrap-around; but a key offset
  does not set a range of keys apart: the slots under one offset are those under the next, shifted by one.\<close>

theorem pg_slot_keys:
  "inj_on (\<lambda>i. pg_slot_key cfg name i True) {0..<2 ^ 64} \<and>
   pg_slot_key (cfg\<lparr>pc_keyOffset := pc_keyOffset cfg + 1\<rparr>) name i True = pg_slot_key cfg name (i + 1) True \<and>
   pg_slot_key cfg name 0 True = pg_slot_key cfg name k False"
proof -
  have "i = j" if "i \<in> {0..<2 ^ 64}" "j \<in> {0..<2 ^ 64}" "(word_of_int i :: 64 word) = word_of_int j" for i j :: int
    using that by (simp add: word_of_int_eq_iff take_bit_int_eq_self)
  then have "inj_on (\<lambda>i. pg_slot_key cfg name i True) {0..<2 ^ 64}"
    by (auto simp: inj_on_def pg_slot_key_def)
  then show ?thesis by (simp add: pg_slot_key_def hashKey_def)
qed

end
