(* ===== verification/Pglock_Table.thy ===== *)
theory Pglock_Table
  imports Pglock_Quiet Server_Table
begin

text \<open>
  \<open>pglock\<close> with any number of slots, on a server and a pool that answer, keeps the contract of \<open>Lock_Table\<close> over
  the keys of slots: clients acquire and release, each call undisturbed.  Names whose keys overlap
  share those slots.
\<close>

section \<open>Who holds what\<close>

definition pg_holds :: "('s \<Rightarrow> 'c pg_view) \<Rightarrow> 's \<Rightarrow> 'c pg_adapted \<Rightarrow> 64 word \<Rightarrow> bool" where
  "pg_holds view s x k \<longleftrightarrow> \<not> ph_released (pa_h x) \<and> ph_key (pa_h x) = k \<and> ph_conn (pa_h x) \<in> pv_busy (view s) \<and>
     pv_locks (view s) k = (\<lambda>_. 0)(ph_conn (pa_h x) := 1)"

definition pg_unheld :: "('s \<Rightarrow> 'c pg_view) \<Rightarrow> 's \<Rightarrow> 64 word \<Rightarrow> bool" where
  "pg_unheld view s k \<longleftrightarrow> pv_locks (view s) k = (\<lambda>_. 0)"

text \<open>Connections in the pool hold nothing, and one that is out holds one key.\<close>

definition pg_tidy :: "'c pg_view \<Rightarrow> bool" where
  "pg_tidy d \<longleftrightarrow> pool_tidy d \<and> (\<forall>c k k'. 0 < pv_locks d k c \<longrightarrow> 0 < pv_locks d k' c \<longrightarrow> k = k')"

abbreviation pg_others :: "('s \<Rightarrow> 'c pg_view) \<Rightarrow> 64 word set \<Rightarrow> 's \<Rightarrow> 's \<Rightarrow> bool" where
  "pg_others view \<equiv> others (\<lambda>_. True) (pg_holds view) (pg_unheld view)"

definition pg_put :: "'c pg_holder \<Rightarrow> 'c pg_adapted \<Rightarrow> 'c pg_adapted" where
  "pg_put h a = a\<lparr>pa_h := h\<rparr>"

lemma pg_others_refl: "view s' = view s \<Longrightarrow> pg_others view N s s'"
  by (simp add: others_def pg_holds_def pg_unheld_def)

definition pg_slot_keys :: "pg_config \<Rightarrow> string \<Rightarrow> 64 word list" where
  "pg_slot_keys cfg n = map (pg_key cfg n) (slots_of (pc_maxConcurrent cfg))"

section \<open>What the calls do\<close>

lemma pgq_acquire_held:
  assumes "pg_quiet H view pool" "pool_tidy (view s)"
    and "\<forall>i \<in> set (slots_of (pc_maxConcurrent cfg)). \<exists>c \<in> pv_busy (view s). 0 < pv_locks (view s) (pg_key cfg name i) c"
  shows "after (pg_acquire H pool c name cfg) (\<lambda>(r, evs) s'. r = Inl pg_ErrLocked \<and> view s' = view s) s"
  unfolding pg_acquire_slots
proof (rule observed_held[where J = "\<lambda>d. d = view s", OF pgq_up(1,2)[OF assms(1)] stable_eq refl])
  fix c' tr i s1
  assume i: "i \<in> set (slots_of (pc_maxConcurrent cfg))" "view s1 = view s"
  then obtain c0 where "c0 \<in> pv_busy (view s1)" "0 < pv_locks (view s1) (pg_key cfg name i) c0" using assms(3) by auto
  from pgq_slot_held[OF assms(1) _ this, of c' tr] assms(2) i(2)
  show "after (pg_slot pool c' name cfg i tr) (\<lambda>r s'. r = Inl pg_ErrLocked \<and> view s' = view s) s1" by simp
qed

lemma pg_won_table:
  assumes "pg_won k (view s) h (view s')" "pg_tidy (view s)" "pg_unheld view s k"
  shows "pg_tidy (view s')" "pg_holds view s' \<lparr>pa_h = h, pa_ctx = c\<rparr> k" "pg_others view {k} s s'"
proof -
  let ?d = "view s" and ?c = "ph_conn h"
  have h: "ph_key h = k" "?c \<notin> pv_busy ?d" "\<not> ph_released h"
    "view s' = pg_count Suc k ?c (?d\<lparr>pv_busy := insert ?c (pv_busy ?d)\<rparr>)" using assms(1) by (simp_all add: pg_won_def)
  have none: "pv_locks ?d k' ?c = 0" for k' using assms(2) h(2) by (simp add: pg_tidy_def pool_tidy_def)
  have locks: "pv_locks (view s') = (pv_locks ?d)(k := (pv_locks ?d k)(?c := 1))" "pv_busy (view s') = insert ?c (pv_busy ?d)"
    using none by (simp_all add: h(4) pg_count_def)
  show "pg_holds view s' \<lparr>pa_h = h, pa_ctx = c\<rparr> k"
    using h(1,3) assms(3) by (simp add: pg_holds_def locks pg_unheld_def)
  show "pg_others view {k} s s'"
    by (auto simp: others_def pg_holds_def pg_unheld_def locks)
  show "pg_tidy (view s')"
    using assms(2) none assms(3) unfolding pg_tidy_def pool_tidy_def locks pg_unheld_def
    by (auto split: if_splits)
qed

text \<open>A holder's lock and connection come off again.\<close>

lemma pg_holds_won:
  assumes "pg_holds view s x k" "pg_tidy (view s)"
  obtains d where "pg_won k d (pa_h x) (view s)" "pool_tidy d" "pg_tidy d" "pv_locks d = (pv_locks (view s))(k := (\<lambda>_. 0))"
    "pv_busy d = pv_busy (view s) - {ph_conn (pa_h x)}"
proof
  let ?c = "ph_conn (pa_h x)"
  let ?d = "(view s)\<lparr>pv_locks := (pv_locks (view s))(k := (\<lambda>_. 0)), pv_busy := pv_busy (view s) - {?c}\<rparr>"
  have h: "\<not> ph_released (pa_h x)" "ph_key (pa_h x) = k" "?c \<in> pv_busy (view s)" "pv_locks (view s) k = (\<lambda>_. 0)(?c := 1)"
    using assms(1) by (simp_all add: pg_holds_def)
  have one: "pv_locks (view s) k' ?c = 0" if "k' \<noteq> k" for k'
    using assms(2) h(4) that unfolding pg_tidy_def by (metis fun_upd_same gr0I zero_less_one)
  have "(pv_locks (view s))(k := (\<lambda>_. 0)(?c := Suc 0)) = pv_locks (view s)" using h(4) by (metis One_nat_def fun_upd_triv)
  with h show "pg_won k ?d (pa_h x) (view s)"
    by (simp add: pg_won_def pg_count_def insert_absorb)
  show "pg_tidy ?d" using assms(2) one unfolding pg_tidy_def pool_tidy_def by auto
  then show "pool_tidy ?d" by (simp add: pg_tidy_def)
qed simp_all

lemma pg_given_table:
  assumes "pg_holds view s x k" "pg_tidy (view s)" "pv_locks (view s') = (pv_locks (view s))(k := (\<lambda>_. 0))"
    "pv_busy (view s') = pv_busy (view s) - {ph_conn (pa_h x)}"
  shows "pg_others view {k} s s'"
proof -
  have "pg_holds view s' y m" if h: "pg_holds view s y m" "m \<noteq> k" for y m
  proof -
    have "0 < pv_locks (view s) m (ph_conn (pa_h y))" "0 < pv_locks (view s) k (ph_conn (pa_h x))"
      using h(1) assms(1) by (simp_all add: pg_holds_def)
    then have "ph_conn (pa_h y) \<noteq> ph_conn (pa_h x)" using assms(2) h(2) unfolding pg_tidy_def by metis
    with h show ?thesis by (simp add: pg_holds_def assms(3,4))
  qed
  then show ?thesis by (simp add: others_def pg_unheld_def assms(3))
qed

lemma pg_held_key: "pg_holds view s x k \<Longrightarrow> \<exists>c \<in> pv_busy (view s). 0 < pv_locks (view s) k c"
  by (auto simp: pg_holds_def intro!: bexI[of _ "ph_conn (pa_h x)"])

lemma pg_ask_free:
  assumes "pg_quiet H view pool" "pg_tidy (view s)" "slots_of (pc_maxConcurrent cfg) = us @ i # vs"
    and "\<forall>u \<in> set us. \<exists>x. pg_holds view s x (pg_key cfg n u)" "pg_unheld view s (pg_key cfg n i)"
  shows "after (pg_acquire H pool c n cfg) (\<lambda>(r, evs) s'. \<exists>h. r = Inr h \<and> pg_tidy (view s') \<and>
      pg_holds view s' \<lparr>pa_h = h, pa_ctx = c\<rparr> (pg_key cfg n i) \<and> pg_others view {pg_key cfg n i} s s') s"
proof -
  let ?k = "pg_key cfg n i"
  have t: "pool_tidy (view s)" "pv_locks (view s) ?k = (\<lambda>_. 0)" using assms(2,5) by (simp_all add: pg_tidy_def pg_unheld_def)
  have us: "\<forall>u \<in> set us. \<exists>c \<in> pv_busy (view s). 0 < pv_locks (view s) (pg_key cfg n u) c"
    using assms(4) pg_held_key[where view = view and s = s] by blast
  have "after (pg_acquire H pool c n cfg) (\<lambda>(r, evs) s'. \<exists>h. r = Inr h \<and> pg_won ?k (view s) h (view s')) s"
    by (rule pgq_acquire[OF assms(1) t(1) assms(3) us t(2)])
  then show ?thesis
  proof (rule after_mono, clarify)
    fix s' h evs
    assume w: "pg_won ?k (view s) h (view s')"
    from pg_won_table[where view = view, OF w assms(2,5)]
    show "\<exists>h'. Inr h = Inr h' \<and> pg_tidy (view s') \<and> pg_holds view s' \<lparr>pa_h = h', pa_ctx = c\<rparr> ?k \<and> pg_others view {?k} s s'"
      by blast
  qed
qed

lemma pg_give_held:
  assumes "pg_quiet H view pool" "pg_tidy (view s)" "pg_holds view s x k"
  shows "after (pg_ReleaseContext H pool (pa_ctx x) (pa_h x)) (\<lambda>(e, h', evs) s'. e = None \<and> h' = (pa_h x)\<lparr>ph_released := True\<rparr> \<and>
    pg_tidy (view s') \<and> pg_unheld view s' k \<and> pg_others view {k} s s') s"
proof -
  obtain d where d: "pg_won k d (pa_h x) (view s)" "pool_tidy d" "pg_tidy d" "pv_locks d = (pv_locks (view s))(k := (\<lambda>_. 0))"
    "pv_busy d = pv_busy (view s) - {ph_conn (pa_h x)}" using assms(2,3) by (auto elim: pg_holds_won)
  have oth: "pg_others view {k} s s'" if "view s' = d" for s'
    using pg_given_table[where view = view, OF assms(3,2)] d(4,5) that by metis
  show ?thesis
    by (rule after_mono[OF pgq_release[OF assms(1) d(2,1)]]) (use d(3,4) oth in \<open>auto simp: pg_unheld_def\<close>)
qed

interpretation pgl: server_lock "\<lambda>c. pg_factoryAdapter_Acquire H pool f c" "pg_holderAdapter_Release H pool" pg_put
  "pg_slot_keys (pg_defaults f)" "\<lambda>_. True" "\<lambda>s. pg_quiet H view pool \<and> pg_tidy (view s)" "pg_holds view" "pg_unheld view"
  "\<lambda>x. ph_released (pa_h x)" for H pool f view
proof (unfold_locales, goal_cases)
  case (1 s n c)
  let ?cfg = "pg_defaults f"
  have "\<forall>i \<in> set (slots_of (pc_maxConcurrent ?cfg)). \<exists>c \<in> pv_busy (view s). 0 < pv_locks (view s) (pg_key ?cfg n i) c"
    using 1(2) pg_held_key[of view s] by (fastforce simp: pg_slot_keys_def)
  then have "after (pg_acquire H pool c n ?cfg) (\<lambda>(r, evs) s'. r = Inl pg_ErrLocked \<and> view s' = view s) s"
    using 1(1) by (intro pgq_acquire_held) (simp_all add: pg_tidy_def)
  then show ?case
    unfolding pg_factoryAdapter_Acquire_def pg_Factory_Acquire_def
    by (auto elim!: after_mono simp: pg_adapt_def to_lock_err_def 1(1) intro: pg_others_refl)
next
  case (2 s n us k vs c)
  let ?cfg = "pg_defaults f"
  obtain us' i vs' where sl: "slots_of (pc_maxConcurrent ?cfg) = us' @ i # vs'" "us = map (pg_key ?cfg n) us'" "k = pg_key ?cfg n i"
    using 2(3) by (auto simp: pg_slot_keys_def map_eq_append_conv map_eq_Cons_conv)
  have "\<forall>u \<in> set us'. \<exists>x. pg_holds view s x (pg_key ?cfg n u)" "pg_unheld view s (pg_key ?cfg n i)"
    using 2(4,5) by (simp_all add: sl(2,3))
  from pg_ask_free[OF conjunct1[OF 2(1)] conjunct2[OF 2(1)] sl(1) this, of c] show ?case
    unfolding pg_factoryAdapter_Acquire_def pg_Factory_Acquire_def pg_applyOptions.simps Let_def after_bind sl(3)
    by (rule after_mono) (use conjunct1[OF 2(1)] in \<open>clarsimp simp: pg_adapt_def to_lock_err_def\<close>)
next
  case (3 s k x)
  from pg_give_held[OF conjunct1[OF 3(1)] conjunct2[OF 3(1)] 3(3)] show ?case
    unfolding pg_holderAdapter_Release_def
    by (rule after_mono) (use 3(1) in \<open>auto simp: pg_put_def\<close>)
next
  case (4 x s)
  then show ?case by (simp add: pg_holderAdapter_Release_def pg_ReleaseContext_def pg_put_def)
next
  case (5 k k' s x)
  then show ?case by (simp add: pg_holds_def)
qed

section \<open>Properties\<close>



end
