(* ===== verification/Etcdlock.thy ===== *)
theory Etcdlock
  imports Server_Api
begin

text \<open>
  The package \<open>etcdlock\<close>: a lock is a mutex of etcd's concurrency library under the key prefix of
  the name, owned by a session, which is a lease the client keeps alive.  The client and the
  concurrency library are the parameter \<open>etcd\<close>, over sessions and mutexes of any type.
\<close>

section \<open>Errors, configuration and hooks\<close>

definition et_ErrLocked :: gerr where
  "et_ErrLocked = Sentinel ''etcdlock: already locked''"

declare et_ErrLocked_def [sentinel_defs]

record et_config =
  ec_ttl :: duration
  ec_prefix :: string
  ec_maxConcurrent :: int
  ec_observe :: observeOptions

definition et_defaultConfig :: et_config where
  "et_defaultConfig =
     \<lparr>ec_ttl = 30 * second, ec_prefix = ''/ubgo/etcdlock'', ec_maxConcurrent = 1, ec_observe = no_observe\<rparr>"

type_synonym et_option = "(et_config \<Rightarrow> et_config) option"

fun et_applyOptions :: "et_config \<Rightarrow> et_option list \<Rightarrow> et_config" where
  "et_applyOptions cfg [] = cfg"
| "et_applyOptions cfg (None # opts) = et_applyOptions cfg opts"
| "et_applyOptions cfg (Some opt # opts) = et_applyOptions (opt cfg) opts"

definition et_WithTTL :: "duration \<Rightarrow> et_option" where
  "et_WithTTL d = Some (\<lambda>c. c\<lparr>ec_ttl := (if d < 5 * second then 5 * second else d)\<rparr>)"

definition et_WithKeyPrefix :: "string \<Rightarrow> et_option" where
  "et_WithKeyPrefix pre = Some (\<lambda>c. c\<lparr>ec_prefix := pre\<rparr>)"

definition et_WithMaxConcurrent :: "int \<Rightarrow> et_option" where
  "et_WithMaxConcurrent n = Some (\<lambda>c. c\<lparr>ec_maxConcurrent := (if n < 1 then 1 else n)\<rparr>)"

definition et_WithMetrics :: "nat option \<Rightarrow> et_option" where
  "et_WithMetrics r = Some (\<lambda>c. c\<lparr>ec_observe := (ec_observe c)\<lparr>metrics := r\<rparr>\<rparr>)"

definition et_WithSpanStarter :: "(ctx \<Rightarrow> string \<Rightarrow> ctx) option \<Rightarrow> et_option" where
  "et_WithSpanStarter st = Some (\<lambda>c. c\<lparr>ec_observe := (ec_observe c)\<lparr>span := st\<rparr>\<rparr>)"

definition et_WithLogger :: "nat option \<Rightarrow> et_option" where
  "et_WithLogger l = Some (\<lambda>c. c\<lparr>ec_observe := (ec_observe c)\<lparr>logger := l\<rparr>\<rparr>)"

definition et_WithTraceIDExtractor :: "(ctx \<Rightarrow> string) option \<Rightarrow> et_option" where
  "et_WithTraceIDExtractor ext = Some (\<lambda>c. c\<lparr>ec_observe := (ec_observe c)\<lparr>traceID_ext := ext\<rparr>\<rparr>)"

definition et_startSpan :: "observeOptions \<Rightarrow> ctx \<Rightarrow> string \<Rightarrow> ctx \<times> obs_event list" where
  "et_startSpan obs c op = start_span obs c op"

definition et_recordAcquire ::
  "observeOptions \<Rightarrow> string \<Rightarrow> string \<Rightarrow> duration \<Rightarrow> string \<Rightarrow> err \<Rightarrow> obs_event list" where
  "et_recordAcquire obs n oc d traceID e = record_acquire ''etcdlock'' obs n oc d traceID e"

definition et_recordActive :: "observeOptions \<Rightarrow> string \<Rightarrow> int \<Rightarrow> obs_event list" where
  "et_recordActive obs n delta = record_active obs n delta"

definition et_recordHold :: "observeOptions \<Rightarrow> string \<Rightarrow> duration \<Rightarrow> obs_event list" where
  "et_recordHold obs n d = record_hold ''etcdlock'' obs n d"

definition et_extractTraceID :: "observeOptions \<Rightarrow> ctx \<Rightarrow> string" where
  "et_extractTraceID obs c = extract_trace obs c"

definition et_outcomeFor :: "err \<Rightarrow> string" where
  "et_outcomeFor e = outcome_for et_ErrLocked e"

lemmas et_hook_defs = et_startSpan_def et_recordAcquire_def et_recordActive_def et_recordHold_def
  et_extractTraceID_def et_outcomeFor_def

lemmas et_config_defs [cfg_simps] =
  et_WithTTL_def et_WithKeyPrefix_def et_WithMaxConcurrent_def et_WithMetrics_def et_WithSpanStarter_def
  et_WithLogger_def et_WithTraceIDExtractor_def et_defaultConfig_def

section \<open>The concurrency library\<close>

text \<open>
  A session is opened with a time to live in seconds and closed, which revokes its lease; a mutex
  is made from a session and a prefix, and knows the key it wrote and the revision of the last
  answer.  \<open>conc_ErrLocked\<close> is the sentinel of the library's \<open>TryLock\<close>.
\<close>

record ('s, 'e, 'm) etcd =
  conc_ErrLocked :: gerr
  NewSession :: "int \<Rightarrow> ctx \<Rightarrow> ('s, 'e res) state"
  SessionClose :: "'e \<Rightarrow> ('s, err) state"
  NewMutex :: "'e \<Rightarrow> string \<Rightarrow> 'm"
  TryLock :: "'m \<Rightarrow> ctx \<Rightarrow> ('s, err) state"
  HeaderRevision :: "'m \<Rightarrow> ('s, 64 word) state"
  MutexKey :: "'m \<Rightarrow> ('s, string) state"
  PutWithLease :: "ctx \<Rightarrow> string \<Rightarrow> string \<Rightarrow> 'e \<Rightarrow> ('s, err) state"
  Unlock :: "'m \<Rightarrow> ctx \<Rightarrow> ('s, err) state"

section \<open>Acquire\<close>

record ('e, 'm) et_holder =
  eh_session :: 'e
  eh_mutex :: 'm
  eh_token :: "64 word"
  eh_name :: string
  eh_acquiredAt :: gtime
  eh_observe :: observeOptions
  eh_released :: bool

definition et_Holder_Token :: "('e, 'm) et_holder \<Rightarrow> 64 word" where
  "et_Holder_Token h = eh_token h"

definition et_Holder_Key :: "('s, 'e, 'm) etcd \<Rightarrow> ('e, 'm) et_holder \<Rightarrow> ('s, string) state" where
  "et_Holder_Key cli h = MutexKey cli (eh_mutex h)"

text \<open>
  \<open>int(cfg.ttl.Seconds())\<close> goes through a float, which is exact enough to truncate right for
  times to live under \<open>2^23\<close> seconds (97 days).
\<close>

definition ttl_seconds :: "duration \<Rightarrow> int" where
  "ttl_seconds d =
     (let ttlSecs = (if d < 0 then - (- d div second) else d div second) in if ttlSecs < 5 then 5 else ttlSecs)"

definition et_slot_prefix :: "et_config \<Rightarrow> string \<Rightarrow> int \<Rightarrow> string" where
  "et_slot_prefix cfg name slot =
     (if slot \<ge> 0 then ec_prefix cfg @ ''/'' @ name @ ''/'' @ itoa slot else ec_prefix cfg @ ''/'' @ name)"

text \<open>What follows once the mutex is locked; storing the trace cannot fail the acquire.\<close>

definition et_granted ::
  "('s, 'e, 'm) etcd \<Rightarrow> ctx \<Rightarrow> string \<Rightarrow> 'e \<Rightarrow> 'm \<Rightarrow> ('s, ('e, 'm) et_holder res) state" where
  "et_granted cli c traceID session mutex = do {
     token \<leftarrow> HeaderRevision cli mutex;
     _ \<leftarrow> (if traceID \<noteq> [] then do {
            key \<leftarrow> MutexKey cli mutex;
            PutWithLease cli c key (''trace:'' @ traceID) session
          }
          else ret None);
     ret (Inr \<lparr>eh_session = session, eh_mutex = mutex, eh_token = token, eh_name = [], eh_acquiredAt = 0,
               eh_observe = no_observe, eh_released = False\<rparr>)
   }"

definition et_acquireSlot ::
  "('s, 'e, 'm) etcd \<Rightarrow> ctx \<Rightarrow> string \<Rightarrow> et_config \<Rightarrow> int \<Rightarrow> string \<Rightarrow> ('s, ('e, 'm) et_holder res) state" where
  "et_acquireSlot cli c name cfg slot traceID = do {
     r \<leftarrow> NewSession cli (ttl_seconds (ec_ttl cfg)) c;
     case r of
       Inl err \<Rightarrow> ret (Inl (Wrap ''etcdlock: new session'' err))
     | Inr session \<Rightarrow> do {
         let mutex = NewMutex cli session (et_slot_prefix cfg name slot);
         lockErr \<leftarrow> TryLock cli mutex c;
         case lockErr of
           Some err \<Rightarrow> do {
             _ \<leftarrow> SessionClose cli session;
             ret (Inl (if errors_is err (conc_ErrLocked cli) then et_ErrLocked
                       else Wrap ''etcdlock: try_lock'' err))
           }
         | None \<Rightarrow> et_granted cli c traceID session mutex
       }
   }"

definition et_acquire_body ::
  "'s host \<Rightarrow> ('s, 'e, 'm) etcd \<Rightarrow> string \<Rightarrow> et_config \<Rightarrow> ctx \<Rightarrow> string \<Rightarrow> ('s, ('e, 'm) et_holder res) state" where
  "et_acquire_body H cli name cfg c traceID = do {
     ctxErr \<leftarrow> ho_ctxErr H c;
     case ctxErr of
       Some e \<Rightarrow> ret (Inl e)
     | None \<Rightarrow>
         if ec_maxConcurrent cfg \<le> 1 then et_acquireSlot cli c name cfg (- 1) traceID
         else try_slots et_ErrLocked (\<lambda>slot. et_acquireSlot cli c name cfg slot traceID)
                (map int [0..<nat (ec_maxConcurrent cfg)])
   }"

definition et_stamp :: "observeOptions \<Rightarrow> string \<Rightarrow> gtime \<Rightarrow> ('e, 'm) et_holder \<Rightarrow> ('e, 'm) et_holder" where
  "et_stamp obs name t h = h\<lparr>eh_observe := obs, eh_name := name, eh_acquiredAt := t\<rparr>"

definition et_acquire ::
  "'s host \<Rightarrow> ('s, 'e, 'm) etcd \<Rightarrow> ctx \<Rightarrow> string \<Rightarrow> et_config \<Rightarrow> ('s, ('e, 'm) et_holder res \<times> obs_event list) state" where
  "et_acquire H cli c name cfg = do {
     start \<leftarrow> ho_now H;
     let obs = ec_observe cfg;
     let traceID = et_extractTraceID obs c;
     let c' = fst (et_startSpan obs c ''etcdlock.Acquire'');
     r \<leftarrow> et_acquire_body H cli name cfg c' traceID;
     done \<leftarrow> ho_now H;
     let outcome = et_outcomeFor (err_of r);
     let evs = snd (et_startSpan obs c ''etcdlock.Acquire'') @ finish_span obs (err_of r) @
           et_recordAcquire obs name outcome (time_sub done start) traceID (err_of r);
     case r of
       Inl e \<Rightarrow> ret (Inl e, evs)
     | Inr h \<Rightarrow> do {
         now \<leftarrow> ho_now H;
         ret (Inr (et_stamp obs name now h), evs @ et_recordActive obs name 1)
       }
   }"

lemma et_acquire_observed:
  "et_acquire H cli c name cfg =
     observed H ''etcdlock'' ''etcdlock.Acquire'' et_ErrLocked et_stamp (ec_observe cfg) c name (et_acquire_body H cli name cfg)"
  unfolding et_acquire_def observed_def et_hook_defs Let_def by (rule refl)

section \<open>Release\<close>

definition et_ReleaseContext ::
  "'s host \<Rightarrow> ('s, 'e, 'm) etcd \<Rightarrow> ctx \<Rightarrow> ('e, 'm) et_holder \<Rightarrow> ('s, err \<times> ('e, 'm) et_holder \<times> obs_event list) state" where
  "et_ReleaseContext H cli c h =
     (if eh_released h then ret (None, h, [])
      else do {
        let h' = h\<lparr>eh_released := True\<rparr>;
        unlockErr \<leftarrow> Unlock cli (eh_mutex h) c;
        closeErr \<leftarrow> SessionClose cli (eh_session h);
        hold \<leftarrow> hold_events H (eh_acquiredAt h) (et_recordHold (eh_observe h) (eh_name h));
        let evs = hold @ et_recordActive (eh_observe h) (eh_name h) (- 1);
        ret (case unlockErr of
               Some e \<Rightarrow> Some (Wrap ''etcdlock: unlock'' e)
             | None \<Rightarrow> (case closeErr of
                 Some e \<Rightarrow> Some (Wrap ''etcdlock: close session'' e)
               | None \<Rightarrow> None), h', evs)
      })"

definition et_Release ::
  "'s host \<Rightarrow> ('s, 'e, 'm) etcd \<Rightarrow> ('e, 'm) et_holder \<Rightarrow> ('s, err \<times> ('e, 'm) et_holder \<times> obs_event list) state" where
  "et_Release H cli h = et_ReleaseContext H cli background h"

section \<open>Locks, factories and adapters\<close>

record et_lock =
  et_name :: string
  et_cfg :: et_config

definition et_New :: "string \<Rightarrow> et_option list \<Rightarrow> et_lock" where
  "et_New name opts = \<lparr>et_name = name, et_cfg = et_applyOptions et_defaultConfig opts\<rparr>"

definition et_Lock_Name :: "et_lock \<Rightarrow> string" where
  "et_Lock_Name l = et_name l"

definition et_Lock_Acquire ::
  "'s host \<Rightarrow> ('s, 'e, 'm) etcd \<Rightarrow> ctx \<Rightarrow> et_lock \<Rightarrow> et_option list \<Rightarrow> ('s, ('e, 'm) et_holder res \<times> obs_event list) state" where
  "et_Lock_Acquire H cli c l opts =
     (let cfg = et_applyOptions (et_cfg l) opts in et_acquire H cli c (et_name l) cfg)"

record et_factory =
  et_defaults :: et_config

definition et_NewFactory :: "et_option list \<Rightarrow> et_factory" where
  "et_NewFactory opts = \<lparr>et_defaults = et_applyOptions et_defaultConfig opts\<rparr>"

definition et_Factory_Acquire ::
  "'s host \<Rightarrow> ('s, 'e, 'm) etcd \<Rightarrow> ctx \<Rightarrow> et_factory \<Rightarrow> string \<Rightarrow> et_option list \<Rightarrow>
   ('s, ('e, 'm) et_holder res \<times> obs_event list) state" where
  "et_Factory_Acquire H cli c f name opts =
     (let cfg = et_applyOptions (et_defaults f) opts in et_acquire H cli c name cfg)"

definition et_Factory_WithLock ::
  "'s host \<Rightarrow> ('s, 'e, 'm) etcd \<Rightarrow> ctx \<Rightarrow> et_factory \<Rightarrow> string \<Rightarrow> (ctx \<Rightarrow> ('s, fn_res) state) \<Rightarrow> et_option list \<Rightarrow>
   ('s, fn_res \<times> obs_event list) state" where
  "et_Factory_WithLock H cli c f name fn opts =
     with_holder (et_Factory_Acquire H cli c f name opts) (et_ReleaseContext H cli c) (fn c)"

definition et_WithLock ::
  "'s host \<Rightarrow> ('s, 'e, 'm) etcd \<Rightarrow> ctx \<Rightarrow> et_lock \<Rightarrow> (ctx \<Rightarrow> ('s, fn_res) state) \<Rightarrow> et_option list \<Rightarrow>
   ('s, fn_res \<times> obs_event list) state" where
  "et_WithLock H cli c l fn opts =
     with_holder (et_Lock_Acquire H cli c l opts) (et_ReleaseContext H cli c) (fn c)"

text \<open>The holder of an adapter keeps the context of the acquire for its release.\<close>

record ('e, 'm) et_adapted =
  ea_h :: "('e, 'm) et_holder"
  ea_ctx :: ctx

definition et_adapt :: "ctx \<Rightarrow> ('e, 'm) et_holder res \<times> obs_event list \<Rightarrow> ('e, 'm) et_adapted res \<times> obs_event list" where
  "et_adapt c x = (case x of (r, evs) \<Rightarrow>
     (map_sum (\<lambda>e. e) (\<lambda>h. \<lparr>ea_h = h, ea_ctx = c\<rparr>) (to_lock_err et_ErrLocked r), evs))"

definition et_factoryAdapter_Acquire ::
  "'s host \<Rightarrow> ('s, 'e, 'm) etcd \<Rightarrow> et_factory \<Rightarrow> ctx \<Rightarrow> string \<Rightarrow> ('s, ('e, 'm) et_adapted res \<times> obs_event list) state" where
  "et_factoryAdapter_Acquire H cli f c name = do {
     x \<leftarrow> et_Factory_Acquire H cli c f name [];
     ret (et_adapt c x)
   }"

definition et_lockAdapter_Acquire ::
  "'s host \<Rightarrow> ('s, 'e, 'm) etcd \<Rightarrow> et_lock \<Rightarrow> ctx \<Rightarrow> string \<Rightarrow> ('s, ('e, 'm) et_adapted res \<times> obs_event list) state" where
  "et_lockAdapter_Acquire H cli l c name = do {
     x \<leftarrow> et_Lock_Acquire H cli c l [];
     ret (et_adapt c x)
   }"

definition et_holderAdapter_Release ::
  "'s host \<Rightarrow> ('s, 'e, 'm) etcd \<Rightarrow> ('e, 'm) et_adapted \<Rightarrow> ('s, err \<times> ('e, 'm) et_holder \<times> obs_event list) state" where
  "et_holderAdapter_Release H cli a = et_ReleaseContext H cli (ea_ctx a) (ea_h a)"

end
