(* ===== verification/Etcdlock_Props.thy ===== *)
theory Etcdlock_Props
  imports Etcdlock
begin

text \<open>
  What \<open>etcdlock\<close> promises, relative to what etcd and its concurrency library document.  The view
  is which sessions the client keeps alive, which mutex keys are on the server (a prefix and the
  session that owns the key), the revision of the store, and the revision at which each mutex was
  last granted.
\<close>

section \<open>What etcd documents\<close>

record 'e et_view =
  ev_live :: "'e set"
  ev_keys :: "(string \<times> 'e) set"
  ev_rev :: int
  ev_hdr :: "string \<times> 'e \<Rightarrow> int"

text \<open>Unrelated writes move the revision on.\<close>

definition et_same :: "'e et_view \<Rightarrow> 'e et_view \<Rightarrow> bool" where
  "et_same d d' \<longleftrightarrow> ev_live d' = ev_live d \<and> ev_keys d' = ev_keys d \<and> ev_hdr d' = ev_hdr d \<and> ev_rev d \<le> ev_rev d'"

text \<open>A new session is one nobody has, and it has no keys.\<close>

definition session_post :: "'e et_view \<Rightarrow> 'e res \<Rightarrow> 'e et_view \<Rightarrow> bool" where
  "session_post d r d' \<longleftrightarrow> (case r of
     Inl e \<Rightarrow> et_same d d'
   | Inr ses \<Rightarrow> ses \<notin> ev_live d \<and> ses \<notin> snd ` ev_keys d \<and> et_same (d\<lparr>ev_live := insert ses (ev_live d)\<rparr>) d')"

text \<open>The prefix is a path: under it are its own keys and those of longer paths.\<close>

definition under :: "string \<Rightarrow> string \<Rightarrow> bool" where
  "under p p' \<longleftrightarrow> p' = p \<or> prefix (p @ ''/'') p'"

text \<open>
  \<open>TryLock\<close>: granted, no other session has a key of that very prefix, and the key is there, written at
  a new revision unless the session had it; refused, some other session has a key under the prefix, and
  the own one is gone; another error leaves open whether the key was written.
\<close>

definition lock_post :: "gerr \<Rightarrow> string \<Rightarrow> 'e \<Rightarrow> 'e et_view \<Rightarrow> err \<Rightarrow> 'e et_view \<Rightarrow> bool" where
  "lock_post refused p ses d r d' \<longleftrightarrow>
     ev_live d' = ev_live d \<and> ev_rev d \<le> ev_rev d' \<and>
     (case r of
        None \<Rightarrow> (\<forall>e. (p, e) \<in> ev_keys d \<longrightarrow> e = ses) \<and> ev_keys d' = insert (p, ses) (ev_keys d) \<and>
          ev_hdr d' (p, ses) \<le> ev_rev d' \<and> ((p, ses) \<notin> ev_keys d \<longrightarrow> ev_rev d < ev_hdr d' (p, ses))
      | Some e \<Rightarrow> ev_hdr d' = ev_hdr d \<and>
          (if errors_is e refused then (\<exists>p' e'. (p', e') \<in> ev_keys d \<and> e' \<noteq> ses \<and> under p p') \<and> ev_keys d' = ev_keys d - {(p, ses)}
           else ev_keys d' = ev_keys d \<or> ev_keys d' = insert (p, ses) (ev_keys d)))"

definition without :: "'e \<Rightarrow> 'e et_view \<Rightarrow> (string \<times> 'e) set" where
  "without ses d = {k \<in> ev_keys d. snd k \<noteq> ses}"

text \<open>Closing a session ends its upkeep in any case; its keys go at once when the lease is revoked.\<close>

definition close_post :: "'e \<Rightarrow> 'e et_view \<Rightarrow> err \<Rightarrow> 'e et_view \<Rightarrow> bool" where
  "close_post ses d r d' \<longleftrightarrow> ev_live d' = ev_live d - {ses} \<and> ev_rev d \<le> ev_rev d' \<and> ev_hdr d' = ev_hdr d \<and>
     (ev_keys d' = without ses d \<or> r \<noteq> None \<and> ev_keys d' = ev_keys d)"

definition et_unlock_post :: "string \<Rightarrow> 'e \<Rightarrow> 'e et_view \<Rightarrow> err \<Rightarrow> 'e et_view \<Rightarrow> bool" where
  "et_unlock_post p ses d r d' \<longleftrightarrow> ev_live d' = ev_live d \<and> ev_rev d \<le> ev_rev d' \<and> ev_hdr d' = ev_hdr d \<and>
     (ev_keys d' = ev_keys d - {(p, ses)} \<or> r \<noteq> None \<and> ev_keys d' = ev_keys d)"

text \<open>With \<open>up\<close>, calls fail only when the lock is refused.\<close>

definition et_laws ::
  "bool \<Rightarrow> ('e et_view \<Rightarrow> 'e et_view \<Rightarrow> bool) \<Rightarrow> ('s \<Rightarrow> 'e et_view) \<Rightarrow> ('s, 'e, 'm) etcd \<Rightarrow> bool" where
  "et_laws up env view cli \<longleftrightarrow>
     (\<forall>d d'. et_same d d' \<longrightarrow> env d d') \<and>
     (\<forall>ttl c. serves env view (NewSession cli ttl c) (sure up session_post)) \<and>
     (\<forall>ses p c. serves env view (TryLock cli (NewMutex cli ses p) c)
        (\<lambda>d r d'. lock_post (conc_ErrLocked cli) p ses d r d' \<and>
          (up \<longrightarrow> (case r of None \<Rightarrow> True | Some e \<Rightarrow> errors_is e (conc_ErrLocked cli))))) \<and>
     (\<forall>ses. serves env view (SessionClose cli ses) (\<lambda>d r d'. close_post ses d r d' \<and> (up \<longrightarrow> r = None))) \<and>
     (\<forall>ses p c. serves env view (Unlock cli (NewMutex cli ses p) c)
        (\<lambda>d r d'. et_unlock_post p ses d r d' \<and> (up \<longrightarrow> r = None))) \<and>
     (\<forall>ses p. serves env view (HeaderRevision cli (NewMutex cli ses p))
        (\<lambda>d r d'. r = word_of_int (ev_hdr d (p, ses)) \<and> et_same d d')) \<and>
     (\<forall>m. serves env view (MutexKey cli m) (\<lambda>d r d'. et_same d d')) \<and>
     (\<forall>c k v ses. serves env view (PutWithLease cli c k v ses) (\<lambda>d r d'. et_same d d'))"

lemma et_lawsD:
  assumes "et_laws up env view cli"
  shows "et_same d d' \<Longrightarrow> env d d'"
    "serves env view (NewSession cli ttl c) (sure up session_post)"
    "serves env view (TryLock cli (NewMutex cli ses p) c)
        (\<lambda>d r d'. lock_post (conc_ErrLocked cli) p ses d r d' \<and>
          (up \<longrightarrow> (case r of None \<Rightarrow> True | Some e \<Rightarrow> errors_is e (conc_ErrLocked cli))))"
    "serves env view (SessionClose cli ses) (\<lambda>d r d'. close_post ses d r d' \<and> (up \<longrightarrow> r = None))"
    "serves env view (Unlock cli (NewMutex cli ses p) c) (\<lambda>d r d'. et_unlock_post p ses d r d' \<and> (up \<longrightarrow> r = None))"
    "serves env view (HeaderRevision cli (NewMutex cli ses p))
        (\<lambda>d r d'. r = word_of_int (ev_hdr d (p, ses)) \<and> et_same d d')"
    "serves env view (MutexKey cli m) (\<lambda>d r d'. et_same d d')"
    "serves env view (PutWithLease cli c k v ses) (\<lambda>d r d'. et_same d d')"
  using assms by (simp_all add: et_laws_def)

section \<open>The shape of an attempt\<close>

lemma et_acquire_slots:
  "et_acquire H cli c name cfg =
     observed H ''etcdlock'' ''etcdlock.Acquire'' et_ErrLocked et_stamp (ec_observe cfg) c name
       (\<lambda>c' tr. slot_body H et_ErrLocked (ec_maxConcurrent cfg) c' (\<lambda>i. et_acquireSlot cli c' name cfg i tr))"
  unfolding et_acquire_observed et_acquire_body_def slot_body_def slots_of_def by (simp cong: if_cong)

text \<open>What follows the attempt to lock the mutex: the session is closed unless the lock was granted.\<close>

abbreviation et_try_err :: "('s, 'e, 'm) etcd \<Rightarrow> gerr \<Rightarrow> gerr" where
  "et_try_err cli x \<equiv> if errors_is x (conc_ErrLocked cli) then et_ErrLocked else Wrap ''etcdlock: try_lock'' x"

lemma after_et_try:
  assumes "et_laws up env view cli"
    and "\<And>r s' d d'. env (view s) d \<Longrightarrow> lock_post (conc_ErrLocked cli) p ses d r d' \<and>
        (up \<longrightarrow> (case r of None \<Rightarrow> True | Some e \<Rightarrow> errors_is e (conc_ErrLocked cli))) \<Longrightarrow> env d' (view s') \<Longrightarrow>
      (case r of Some x \<Rightarrow> after (SessionClose cli ses) (\<lambda>_. Q (Inl (et_try_err cli x))) s'
       | None \<Rightarrow> after (et_granted cli c tr ses (NewMutex cli ses p)) Q s')"
  shows "after (State_Monad.bind (TryLock cli (NewMutex cli ses p) c) (\<lambda>lockErr. case lockErr of
      Some x \<Rightarrow> State_Monad.bind (SessionClose cli ses) (\<lambda>_. ret (Inl (et_try_err cli x)))
    | None \<Rightarrow> et_granted cli c tr ses (NewMutex cli ses p))) Q s"
  unfolding after_bind
proof (rule after_serves[OF et_lawsD(3)[OF assms(1)]], goal_cases)
  case (1 r s' d d')
  from assms(2)[OF 1] show ?case by (cases r) simp_all
qed

text \<open>A call that only moves the revision on is a step of the environment.\<close>

lemma after_same:
  assumes "et_laws up env view cli" "world_ok env" "serves env view m (\<lambda>d r d'. et_same d d')"
    and "\<And>a s'. env (view s) (view s') \<Longrightarrow> Q a s'"
  shows "after m Q s"
  by (rule after_serves[OF assms(3)]) (use et_lawsD(1)[OF assms(1)] world_okD(2)[OF assms(2)] assms(4) in blast)

lemma after_et_granted:
  assumes "et_laws up env view cli" "world_ok env" "\<And>h. stable env (QH h)"
    and got: "\<And>d4 d5 h. env (view s) d4 \<Longrightarrow> et_same d4 d5 \<Longrightarrow> eh_session h = ses \<Longrightarrow> eh_mutex h = NewMutex cli ses p \<Longrightarrow>
      eh_token h = word_of_int (ev_hdr d4 (p, ses)) \<Longrightarrow> \<not> eh_released h \<Longrightarrow> QH h d5"
  shows "after (et_granted cli c tr ses (NewMutex cli ses p)) (settled_res QE QH view) s"
proof -
  let ?m = "NewMutex cli ses p"
  let ?h = "\<lambda>t. \<lparr>eh_session = ses, eh_mutex = ?m, eh_token = t, eh_name = [], eh_acquiredAt = 0,
      eh_observe = no_observe, eh_released = False\<rparr>"
  note laws = et_lawsD[OF assms(1)]
  have rest: "after (if tr \<noteq> [] then State_Monad.bind (MutexKey cli ?m) (\<lambda>key. PutWithLease cli c key (''trace:'' @ tr) ses)
      else ret None) (\<lambda>_ s'. QH (?h t) (view s')) s2" if "QH (?h t) (view s2)" for t :: "64 word" and s2
  proof -
    have 1: "after (PutWithLease cli c key x ses) (\<lambda>_ s'. QH (?h t) (view s')) s3" if "QH (?h t) (view s3)" for key x s3
      by (rule after_same[OF assms(1,2) laws(8)]) (use stableD[OF assms(3)] that in blast)
    have "after (MutexKey cli ?m) (\<lambda>_ s'. QH (?h t) (view s')) s2"
      by (rule after_same[OF assms(1,2) laws(7)]) (use stableD[OF assms(3)] that in blast)
    then have "after (MutexKey cli ?m) (\<lambda>key. after (PutWithLease cli c key (''trace:'' @ tr) ses)
        (\<lambda>_ s'. QH (?h t) (view s'))) s2" by (rule after_mono) (rule 1)
    with that show ?thesis by simp
  qed
  have "after (HeaderRevision cli ?m) (\<lambda>t s'. QH (?h t) (view s')) s"
  proof (rule after_serves[OF laws(6)])
    fix t :: "64 word" and s' d4 d5
    assume x: "env (view s) d4" "t = word_of_int (ev_hdr d4 (p, ses)) \<and> et_same d4 d5" "env d5 (view s')"
    have "QH (?h t) d5" by (rule got[OF x(1)]) (use x(2) in simp_all)
    then show "QH (?h t) (view s')" by (rule stableD[OF assms(3) x(3)])
  qed
  then show ?thesis
    unfolding et_granted_def after_bind by (rule after_mono, intro after_mono[OF rest]) simp_all
qed

lemma after_et_close:
  assumes "et_laws up env view cli" "stable env I"
    and put: "\<And>d4 r d5. env (view s) d4 \<Longrightarrow> close_post ses d4 r d5 \<Longrightarrow> (up \<Longrightarrow> r = None) \<Longrightarrow> I d5"
  shows "after (SessionClose cli ses) (\<lambda>_ s'. I (view s')) s"
proof (rule after_serves[OF et_lawsD(4)[OF assms(1)]])
  fix r s' d4 d5
  assume y: "env (view s) d4" "close_post ses d4 r d5 \<and> (up \<longrightarrow> r = None)" "env d5 (view s')"
  have "I d5" by (rule put[where r = r, OF y(1)]) (use y(2) in auto)
  then show "I (view s')" by (rule stableD[OF assms(2) y(3)])
qed

lemma after_et_acquireSlot:
  assumes "et_laws up env view cli" "world_ok env" "\<And>e. stable env (QE e)" "\<And>h. stable env (QH h)"
    and fail: "\<And>e. \<not> up \<Longrightarrow> QE e (view s)"
    and put: "\<And>d0 d1 d2 d3 d4 d5 ses x r. env (view s) d0 \<Longrightarrow> session_post d0 (Inr ses) d1 \<Longrightarrow> env d1 d2 \<Longrightarrow>
      lock_post (conc_ErrLocked cli) p ses d2 (Some x) d3 \<Longrightarrow>
      (up \<Longrightarrow> errors_is x (conc_ErrLocked cli)) \<Longrightarrow> env d3 d4 \<Longrightarrow> close_post ses d4 r d5 \<Longrightarrow> (up \<Longrightarrow> r = None) \<Longrightarrow>
      QE (et_try_err cli x) d5"
    and got: "\<And>d0 d1 d2 d3 d4 d5 ses h. env (view s) d0 \<Longrightarrow> session_post d0 (Inr ses) d1 \<Longrightarrow> env d1 d2 \<Longrightarrow>
      lock_post (conc_ErrLocked cli) p ses d2 None d3 \<Longrightarrow> env d3 d4 \<Longrightarrow> et_same d4 d5 \<Longrightarrow>
      eh_session h = ses \<Longrightarrow> eh_mutex h = NewMutex cli ses p \<Longrightarrow> eh_token h = word_of_int (ev_hdr d4 (p, ses)) \<Longrightarrow>
      \<not> eh_released h \<Longrightarrow> QH h d5"
    and p: "et_slot_prefix cfg name slot = p"
  shows "after (et_acquireSlot cli c name cfg slot tr) (settled_res QE QH view) s"
proof -
  let ?S = "settled_res QE QH view" and ?m = "\<lambda>ses. NewMutex cli ses p"
  note laws = et_lawsD[OF assms(1)]
  have granted: "after (et_granted cli c tr ses (?m ses)) ?S s1"
    if h: "env (view s) d0" "session_post d0 (Inr ses) d1" "env d1 d2"
      "lock_post (conc_ErrLocked cli) p ses d2 None d3" "env d3 (view s1)"
    for s1 d0 d1 d2 d3 ses
    by (rule after_et_granted[OF assms(1,2,4)]) (rule got[OF h(1-4) world_okD(2)[OF assms(2) h(5)]])
  have refused: "after (SessionClose cli ses) (\<lambda>_ s'. QE (et_try_err cli x) (view s')) s1"
    if h: "env (view s) d0" "session_post d0 (Inr ses) d1" "env d1 d2"
      "lock_post (conc_ErrLocked cli) p ses d2 (Some x) d3"
      "up \<Longrightarrow> errors_is x (conc_ErrLocked cli)" "env d3 (view s1)" for s1 d0 d1 d2 d3 ses x
    by (rule after_et_close[OF assms(1,3)]) (rule put[OF h(1-5) world_okD(2)[OF assms(2) h(6)]])
  show ?thesis
    unfolding et_acquireSlot_def Let_def p after_bind[of "NewSession cli (ttl_seconds (ec_ttl cfg)) c"]
  proof (rule after_serves[OF laws(2)], goal_cases)
    case x: (1 r s1 d0 d1)
    show ?case
    proof (cases r)
      case (Inl e)
      with x(2) have "env d0 d1" "\<not> up" using laws(1) by (simp_all add: session_post_def sure_def)
      then have "env (view s) (view s1)" using world_okD(2)[OF assms(2)] x(1,3) by blast
      then have "QE e1 (view s1)" for e1 using stableD[OF assms(3)] fail[OF \<open>\<not> up\<close>] by blast
      with Inl show ?thesis by simp
    next
      case (Inr ses)
      with x(2) have d1: "session_post d0 (Inr ses) d1" by (simp add: sure_def)
      have "after (State_Monad.bind (TryLock cli (?m ses) c) (\<lambda>lockErr. case lockErr of
          Some x \<Rightarrow> State_Monad.bind (SessionClose cli ses) (\<lambda>_. ret (Inl (et_try_err cli x)))
        | None \<Rightarrow> et_granted cli c tr ses (?m ses))) ?S s1"
      proof (rule after_et_try[OF assms(1)], goal_cases)
        case y: (1 r s' d2 d3)
        note q = x(1) d1 world_okD(2)[OF assms(2) x(3) y(1)]
        show ?case
          using refused[OF q _ _ y(3)] granted[OF q _ y(3)] y(2) by (cases r) (simp_all add: settled_res_fail del: split_paired_All)
      qed
      with Inr show ?thesis by simp
    qed
  qed
qed

section \<open>While sessions own the keys\<close>

definition et_owned :: "string set \<Rightarrow> (string \<Rightarrow> 'e) \<Rightarrow> 'e et_view \<Rightarrow> bool" where
  "et_owned P own d \<longleftrightarrow> (\<forall>p \<in> P. own p \<in> ev_live d \<and> (p, own p) \<in> ev_keys d)"

definition et_prefixes :: "et_config \<Rightarrow> string \<Rightarrow> string set" where
  "et_prefixes cfg name = et_slot_prefix cfg name ` set (slots_of (ec_maxConcurrent cfg))"

lemma et_owned_session: "session_post d (Inr ses) d' \<Longrightarrow> et_owned P own d \<Longrightarrow> et_owned P own d' \<and> ses \<notin> own ` P"
  by (auto simp: et_owned_def session_post_def et_same_def)

lemma et_owned_lock:
  assumes "lock_post refused p ses d r d'" "et_owned P own d" "ses \<notin> own ` P" "p \<in> P"
  shows "r \<noteq> None \<and> et_owned P own d'"
proof -
  have o: "(p, own p) \<in> ev_keys d" "own p \<noteq> ses" using assms(2-4) by (auto simp: et_owned_def)
  then have "r \<noteq> None" using assms(1) by (cases r) (auto simp: lock_post_def)
  moreover from this have "ev_keys d - {(p, ses)} \<subseteq> ev_keys d'" "ev_live d' = ev_live d"
    using assms(1) by (auto simp: lock_post_def split: if_splits)
  then have "et_owned P own d'" using assms(2,3) unfolding et_owned_def by blast
  ultimately show ?thesis by simp
qed

lemma et_owned_close: "close_post ses d r d' \<Longrightarrow> et_owned P own d \<Longrightarrow> ses \<notin> own ` P \<Longrightarrow> et_owned P own d'"
  by (auto simp: et_owned_def close_post_def without_def)

text \<open>C34: While a session that is kept alive owns the key of every slot of a lock, \<open>Acquire\<close> answers no holder,
  whatever calls fail and whatever other clients do: its new session is another one, \<open>TryLock\<close> refuses it,
  and closing it takes away no key but its own.\<close>

theorem et_mutual_exclusion:
  assumes "host_laws env view H" "et_laws False env view cli" "stable env (et_owned (et_prefixes cfg name) own)"
    and "et_owned (et_prefixes cfg name) own (view s)" "run_state (et_acquire H cli c name cfg) s = ((r, evs), s')"
  shows "isl r \<and> et_owned (et_prefixes cfg name) own (view s')"
proof -
  let ?I = "et_owned (et_prefixes cfg name) own"
  have wo: "world_ok env" using assms(1) by (simp add: host_laws_def)
  have "after (et_acquireSlot cli c' name cfg i tr) (settled_res (\<lambda>_. ?I) (\<lambda>_ _. False) view) s1"
    if i: "i \<in> set (slots_of (ec_maxConcurrent cfg))" "?I (view s1)" for c' tr i s1
  proof (rule after_et_acquireSlot[where QE = "\<lambda>_. ?I", OF assms(2) wo assms(3) _ i(2) _ _ refl])
    have k: "et_slot_prefix cfg name i \<in> et_prefixes cfg name" using i(1) by (simp add: et_prefixes_def)
    fix d0 d1 d2 d3 d4 ses
    assume h: "env (view s1) d0" "session_post d0 (Inr ses) d1" "env d1 d2"
    have o: "?I d2" "ses \<notin> own ` et_prefixes cfg name"
      using et_owned_session[OF h(2)] stableD[OF assms(3) h(1) i(2)] stableD[OF assms(3) h(3)] by auto
    show "?I d5" if "lock_post (conc_ErrLocked cli) (et_slot_prefix cfg name i) ses d2 (Some x) d3" "env d3 d4"
      "close_post ses d4 r d5" for x r d5
      using et_owned_close[OF that(3) _ o(2)] stableD[OF assms(3) that(2)] et_owned_lock[OF that(1) o k] by simp
    show False if "lock_post (conc_ErrLocked cli) (et_slot_prefix cfg name i) ses d2 None d3"
      using et_owned_lock[OF that o k] by simp
  qed (simp add: stable_def)
  then have "after (et_acquire H cli c name cfg) (\<lambda>(r, evs). settled_res (\<lambda>_. ?I) (\<lambda>_ _. False) view r) s"
    unfolding et_acquire_slots
    by (intro observed_any[where J = ?I, OF assms(1,3)]) (use assms(4) in \<open>auto simp: stable_def\<close>)
  from afterD[OF this assms(5)] show ?thesis by (auto simp: settled_res_def split: sum.splits)
qed

section \<open>Sessions\<close>

lemma world_ok_same [simp]: "world_ok et_same"
  by (auto simp: world_ok_def reflp_def transp_def et_same_def)

definition et_took :: "('s, 'e, 'm) etcd \<Rightarrow> 'e set \<Rightarrow> ('e, 'm) et_holder \<Rightarrow> 'e et_view \<Rightarrow> bool" where
  "et_took cli B h d \<longleftrightarrow> eh_session h \<notin> B \<and> ev_live d = insert (eh_session h) B \<and> \<not> eh_released h \<and>
     (\<exists>p. eh_mutex h = NewMutex cli (eh_session h) p)"

lemma et_live_steps:
  "et_same d d' \<Longrightarrow> ev_live d' = ev_live d"
  "session_post d (Inr ses) d' \<Longrightarrow> ev_live d' = insert ses (ev_live d)"
  "session_post d (Inr ses) d' \<Longrightarrow> ses \<notin> ev_live d"
  "lock_post refused p ses d e d' \<Longrightarrow> ev_live d' = ev_live d"
  "close_post ses d e d' \<Longrightarrow> ev_live d' = ev_live d - {ses}"
  by (simp_all add: et_same_def session_post_def lock_post_def close_post_def)

lemma et_slot_live:
  fixes view :: "'s \<Rightarrow> 'e et_view"
  assumes "et_laws False et_same view cli" "ev_live (view s) = B"
  shows "after (et_acquireSlot cli c name cfg i tr) (settled_res (\<lambda>_ d. ev_live d = B) (et_took cli B) view) s"
proof (rule after_et_acquireSlot[where QE = "\<lambda>_ d. ev_live d = B", OF assms(1) world_ok_same _ _ _ _ _ refl])
  fix d0 d1 d2 d3 d4 d5 :: "'e et_view" and ses
  assume h: "et_same (view s) d0" "session_post d0 (Inr ses) d1" "et_same d1 d2" "et_same d3 d4"
  have live: "ev_live d2 = insert ses B" "ses \<notin> B"
    using et_live_steps(1)[OF h(1)] et_live_steps(2,3)[OF h(2)] et_live_steps(1)[OF h(3)] assms(2) by simp_all
  show "ev_live d5 = B" if "lock_post (conc_ErrLocked cli) (et_slot_prefix cfg name i) ses d2 (Some x) d3"
    "close_post ses d4 r d5" for x r
    using live et_live_steps(4)[OF that(1)] et_live_steps(1)[OF h(4)] et_live_steps(5)[OF that(2)] by simp
  show "et_took cli B h d5" if "lock_post (conc_ErrLocked cli) (et_slot_prefix cfg name i) ses d2 None d3" "et_same d4 d5"
    "eh_session h = ses" "eh_mutex h = NewMutex cli ses (et_slot_prefix cfg name i)" "\<not> eh_released h" for h
    using live et_live_steps(4)[OF that(1)] et_live_steps(1)[OF h(4)] et_live_steps(1)[OF that(2)] that(3-)
    by (auto simp: et_took_def)
qed (use assms(2) in \<open>auto simp: stable_def et_took_def et_same_def\<close>)

lemma et_acquire_live:
  assumes "host_laws et_same view H" "et_laws False et_same view cli"
  shows "after (et_acquire H cli c name cfg)
    (\<lambda>(r, evs). settled_res (\<lambda>_ d. ev_live d = ev_live (view s)) (et_took cli (ev_live (view s))) view r) s"
  unfolding et_acquire_slots
  by (rule observed_any[OF assms(1)])
    (auto simp: stable_def et_took_def et_stamp_def et_same_def intro: et_slot_live[OF assms(2)])

lemma et_release_live:
  assumes "host_laws et_same view H" "et_laws False et_same view cli" "et_took cli B h (view s)"
  shows "after (et_ReleaseContext H cli c h) (\<lambda>(e, h', evs) s'. eh_released h' \<and> ev_live (view s') = B) s"
proof -
  obtain p where h: "eh_session h \<notin> B" "ev_live (view s) = insert (eh_session h) B" "\<not> eh_released h"
    "eh_mutex h = NewMutex cli (eh_session h) p" using assms(3) by (auto simp: et_took_def)
  note laws = et_lawsD[OF assms(2)]
  have unlock: "after (Unlock cli (eh_mutex h) c) (\<lambda>_ s'. ev_live (view s') = insert (eh_session h) B) s"
    unfolding h(4) by (rule after_serves[OF laws(5)]) (use h(2) in \<open>auto simp: et_same_def et_unlock_post_def\<close>)
  have close: "after (SessionClose cli (eh_session h)) (\<lambda>_ s'. ev_live (view s') = B) s'"
    if "ev_live (view s') = insert (eh_session h) B" for s'
    by (rule after_serves[OF laws(4)]) (use that h(1) in \<open>auto simp: et_same_def close_post_def\<close>)
  have "after (Unlock cli (eh_mutex h) c) (\<lambda>_. after (SessionClose cli (eh_session h))
      (\<lambda>_. after (hold_events H (eh_acquiredAt h) (et_recordHold (eh_observe h) (eh_name h)))
        (\<lambda>_ s'. ev_live (view s') = B))) s"
    by (rule after_mono[OF unlock], rule after_mono[OF close], assumption, rule host_hold[OF assms(1)])
      (simp add: et_same_def)
  then show ?thesis using h(3) unfolding et_ReleaseContext_def Let_def by simp
qed

text \<open>C35: No session is left running: whichever calls fail, an \<open>Acquire\<close> that answers an error has closed every
  session it opened, so that no lease is kept alive; one that answers a holder keeps exactly the holder's,
  and \<open>Release\<close> ends that one also when unlocking fails.\<close>

theorem et_no_session_left:
  assumes "host_laws et_same view H" "et_laws False et_same view cli" "run_state (et_acquire H cli c name cfg) s = ((r, evs), s1)"
    and "run_state (et_ReleaseContext H cli c2 h) s1 = ((e, h', evs'), s2)"
  shows "case r of Inl x \<Rightarrow> ev_live (view s1) = ev_live (view s)
    | Inr h0 \<Rightarrow> ev_live (view s1) = insert (eh_session h0) (ev_live (view s)) \<and> eh_session h0 \<notin> ev_live (view s) \<and>
        (h = h0 \<longrightarrow> eh_released h' \<and> ev_live (view s2) = ev_live (view s))"
proof (cases r)
  case (Inl x)
  with afterD[OF et_acquire_live[OF assms(1,2)] assms(3)] show ?thesis by simp
next
  case (Inr h0)
  with afterD[OF et_acquire_live[OF assms(1,2)] assms(3)] have t: "et_took cli (ev_live (view s)) h0 (view s1)" by simp
  then have "h = h0 \<Longrightarrow> eh_released h' \<and> ev_live (view s2) = ev_live (view s)"
    using afterD[OF et_release_live[OF assms(1,2)] assms(4)] by simp
  with Inr t show ?thesis by (simp add: et_took_def)
qed

section \<open>An etcd in memory\<close>

text \<open>Sessions are numbers, a mutex is its session and prefix, and every write moves the revision on by one.\<close>

record et_mem =
  em_live :: "nat list"
  em_keys :: "(string \<times> nat) list"
  em_rev :: int
  em_hdr :: "string \<times> nat \<Rightarrow> int"

definition et_mem_view :: "et_mem \<Rightarrow> nat et_view" where
  "et_mem_view m = \<lparr>ev_live = set (em_live m), ev_keys = set (em_keys m), ev_rev = em_rev m, ev_hdr = em_hdr m\<rparr>"

definition mem_TryLock :: "string \<Rightarrow> nat \<Rightarrow> et_mem \<Rightarrow> err \<times> et_mem" where
  "mem_TryLock p ses m =
     (if list_all (\<lambda>(p', e). under p p' \<longrightarrow> e = ses) (em_keys m)
      then (None, m\<lparr>em_keys := (p, ses) # em_keys m, em_rev := em_rev m + 1, em_hdr := (em_hdr m)((p, ses) := em_rev m + 1)\<rparr>)
      else (Some (Sentinel ''locked''), m\<lparr>em_keys := removeAll (p, ses) (em_keys m), em_rev := em_rev m + 2\<rparr>))"

definition mem_etcd :: "(et_mem, nat, nat \<times> string) etcd" where
  "mem_etcd = \<lparr>
     conc_ErrLocked = Sentinel ''locked'',
     NewSession = (\<lambda>ttl c. State (\<lambda>m. let ses = Suc (sum_list (em_live m @ map snd (em_keys m)))
       in (Inr ses, m\<lparr>em_live := ses # em_live m\<rparr>))),
     SessionClose = (\<lambda>ses. State (\<lambda>m. (None, m\<lparr>em_live := removeAll ses (em_live m),
       em_keys := filter (\<lambda>k. snd k \<noteq> ses) (em_keys m), em_rev := em_rev m + 1\<rparr>))),
     NewMutex = (\<lambda>ses p. (ses, p)),
     TryLock = (\<lambda>(ses, p) c. State (mem_TryLock p ses)),
     HeaderRevision = (\<lambda>(ses, p). State (\<lambda>m. (word_of_int (em_hdr m (p, ses)), m))),
     MutexKey = (\<lambda>(ses, p). ret (p @ ''/'' @ itoa (int ses))),
     PutWithLease = (\<lambda>c k v ses. State (\<lambda>m. (None, m\<lparr>em_rev := em_rev m + 1\<rparr>))),
     Unlock = (\<lambda>(ses, p) c. State (\<lambda>m. (None, m\<lparr>em_keys := removeAll (p, ses) (em_keys m), em_rev := em_rev m + 1\<rparr>)))\<rparr>"

lemma et_same_refl [simp]: "et_same d d"
  by (simp add: et_same_def)

lemma serves_step: "world_ok env \<Longrightarrow> (\<And>s. after m (\<lambda>a s'. post (view s) a (view s')) s) \<Longrightarrow> serves env view m post"
  unfolding serves_def using world_okD(1)[of env] by (blast intro: after_mono)

lemma mem_session: "after (NewSession mem_etcd ttl c) (\<lambda>r m'. sure True session_post (et_mem_view m) r (et_mem_view m')) m"
  using fresh_number[of "em_live m @ map snd (em_keys m)"]
  by (simp add: after_def mem_etcd_def sure_def session_post_def et_mem_view_def Let_def)

lemma mem_lock:
  "after (TryLock mem_etcd (NewMutex mem_etcd ses p) c) (\<lambda>r m'.
     lock_post (conc_ErrLocked mem_etcd) p ses (et_mem_view m) r (et_mem_view m') \<and>
     (True \<longrightarrow> (case r of None \<Rightarrow> True | Some e \<Rightarrow> errors_is e (conc_ErrLocked mem_etcd)))) m"
proof (cases "list_all (\<lambda>(p', e). under p p' \<longrightarrow> e = ses) (em_keys m)")
  case True
  then have "\<forall>e. (p, e) \<in> set (em_keys m) \<longrightarrow> e = ses" by (auto simp: list_all_iff under_def)
  with True show ?thesis by (simp add: after_def mem_etcd_def mem_TryLock_def lock_post_def et_mem_view_def)
next
  case False
  then have "\<exists>p' e'. (p', e') \<in> set (em_keys m) \<and> e' \<noteq> ses \<and> under p p'" by (auto simp: list_all_iff)
  with False show ?thesis
    by (simp add: after_def mem_etcd_def mem_TryLock_def lock_post_def et_mem_view_def set_removeAll)
qed

lemma mem_etcd_laws:
  assumes "world_ok env" "\<And>d d'. et_same d d' \<Longrightarrow> env d d'"
  shows "et_laws True env et_mem_view mem_etcd"
  unfolding et_laws_def
proof (intro conjI allI)
  fix ses p c ttl
  show "serves env et_mem_view (NewSession mem_etcd ttl c) (sure True session_post)"
    by (rule serves_step[OF assms(1) mem_session])
  show "serves env et_mem_view (TryLock mem_etcd (NewMutex mem_etcd ses p) c) (\<lambda>d r d'.
      lock_post (conc_ErrLocked mem_etcd) p ses d r d' \<and>
      (True \<longrightarrow> (case r of None \<Rightarrow> True | Some e \<Rightarrow> errors_is e (conc_ErrLocked mem_etcd))))"
    by (rule serves_step[OF assms(1) mem_lock])
qed (auto simp: assms(2) intro!: serves_step[OF assms(1)],
  auto simp: after_def mem_etcd_def et_mem_view_def close_post_def without_def et_unlock_post_def et_same_def)

lemma serves_weaken: "serves env view m post \<Longrightarrow> (\<And>d r d'. post d r d' \<Longrightarrow> post' d r d') \<Longrightarrow> serves env view m post'"
  unfolding serves_def by (blast intro: after_mono)

lemma et_laws_down:
  assumes "et_laws True env view cli"
  shows "et_laws False env view cli"
proof -
  note laws = et_lawsD[OF assms]
  show ?thesis
    unfolding et_laws_def
    by (intro conjI allI impI;
        (erule laws(1) | rule laws(6-8) | (rule serves_weaken, rule laws(2-5), simp add: sure_def)))
qed

section \<open>Witnesses\<close>

definition spares_owner :: "string set \<Rightarrow> (string \<Rightarrow> 'e) \<Rightarrow> 'e et_view \<Rightarrow> 'e et_view \<Rightarrow> bool" where
  "spares_owner P own d d' \<longleftrightarrow> (et_owned P own d \<longrightarrow> et_owned P own d')"

lemma spares_owner_simps [simp]:
  "world_ok (spares_owner P own)" "stable (spares_owner P own) (et_owned P own)" "et_same d d' \<Longrightarrow> spares_owner P own d d'"
  by (auto simp: spares_owner_def world_ok_def stable_def reflp_def transp_def et_same_def et_owned_def)

theorem et_mutual_exclusion_witness:
  "\<exists>e. fst (fst (run_state (et_acquire plain_host mem_etcd (\<lambda>_. None) ''job'' et_defaultConfig)
      \<lparr>em_live = [4], em_keys = [(''/ubgo/etcdlock/job'', 4)], em_rev = 9, em_hdr = (\<lambda>_. 0)\<rparr>)) = Inl e"
proof -
  let ?s = "\<lparr>em_live = [4], em_keys = [(''/ubgo/etcdlock/job'', 4)], em_rev = 9, em_hdr = (\<lambda>_. 0)\<rparr>"
  obtain r evs s' where r: "run_state (et_acquire plain_host mem_etcd (\<lambda>_. None) ''job'' et_defaultConfig) ?s = ((r, evs), s')"
    by (metis prod.exhaust)
  have "et_owned (et_prefixes et_defaultConfig ''job'') (\<lambda>_. 4) (et_mem_view ?s)"
    by (simp add: et_owned_def et_prefixes_def slots_of_def et_defaultConfig_def et_slot_prefix_def et_mem_view_def)
  from et_mutual_exclusion[OF plain_host_laws et_laws_down[OF mem_etcd_laws] spares_owner_simps(2) this r] r
  show ?thesis by (auto simp: isl_def)
qed

theorem et_no_session_left_witness:
  "\<exists>h evs s1. run_state (et_acquire plain_host mem_etcd (\<lambda>_. None) ''job'' et_defaultConfig)
      \<lparr>em_live = [4], em_keys = [], em_rev = 9, em_hdr = (\<lambda>_. 0)\<rparr> = ((Inr h, evs), s1) \<and>
    ev_live (et_mem_view (snd (run_state (et_ReleaseContext plain_host mem_etcd (\<lambda>_. None) h) s1))) = {4}"
proof -
  let ?s = "\<lparr>em_live = [4], em_keys = [], em_rev = 9, em_hdr = (\<lambda>_. 0)\<rparr>"
  obtain h evs s1 where r: "run_state (et_acquire plain_host mem_etcd (\<lambda>_. None) ''job'' et_defaultConfig) ?s = ((Inr h, evs), s1)"
    by (simp add: et_acquire_def et_acquire_body_def et_acquireSlot_def et_granted_def et_hook_defs et_defaultConfig_def
        plain_host_def mem_etcd_def mem_TryLock_def Let_def extract_trace_def no_observe_def)
  obtain e h' evs' s2 where x: "run_state (et_ReleaseContext plain_host mem_etcd (\<lambda>_. None) h) s1 = ((e, h', evs'), s2)"
    by (metis prod.exhaust)
  from et_no_session_left[OF plain_host_laws et_laws_down[OF mem_etcd_laws] r x] r x
  show ?thesis by (auto simp: et_mem_view_def)
qed

end
