(* ===== verification/Etcdlock_Quiet.thy ===== *)
theory Etcdlock_Quiet
  imports Etcdlock_Props
begin

text \<open>
  \<open>etcdlock\<close> with nobody interfering: what an acquire and its release do to the keys and sessions; and
  the tokens of successive holders, under interference.
\<close>

section \<open>Acquire and release\<close>

definition et_quiet :: "'s host \<Rightarrow> ('s \<Rightarrow> 'e et_view) \<Rightarrow> ('s, 'e, 'm) etcd \<Rightarrow> bool" where
  "et_quiet H view cli \<longleftrightarrow> host_laws et_same view H \<and> host_up H \<and> et_laws True et_same view cli"

lemma etq_up:
  assumes "et_quiet H view cli"
  shows "host_laws et_same view H" "host_up H" "et_laws True et_same view cli"
  using assms by (simp_all add: et_quiet_def)

lemma et_same_trans: "et_same d d' \<Longrightarrow> et_same d' d'' \<Longrightarrow> et_same d d''"
  by (simp add: et_same_def)

text \<open>The keys and sessions are those of \<open>d\<close>, the revision may have moved on.\<close>

definition et_kept :: "'e et_view \<Rightarrow> 'e et_view \<Rightarrow> bool" where
  "et_kept d d' \<longleftrightarrow> ev_live d' = ev_live d \<and> ev_keys d' = ev_keys d \<and> ev_rev d \<le> ev_rev d'"

lemma et_kept_simps [simp]: "et_kept d d" "stable et_same (et_kept d)"
  by (auto simp: et_kept_def stable_def et_same_def)

lemma et_kept_same: "et_kept d d' \<Longrightarrow> et_same d' d'' \<Longrightarrow> et_kept d d''"
  by (simp add: et_kept_def et_same_def)

text \<open>The holder has the mutex under \<open>p\<close>, and its token is the revision at which it got it.\<close>

definition et_won :: "('s, 'e, 'm) etcd \<Rightarrow> string \<Rightarrow> 'e et_view \<Rightarrow> ('e, 'm) et_holder \<Rightarrow> 'e et_view \<Rightarrow> bool" where
  "et_won cli p d h d' \<longleftrightarrow> \<not> eh_released h \<and> eh_mutex h = NewMutex cli (eh_session h) p \<and>
     eh_session h \<notin> ev_live d \<and> eh_session h \<notin> snd ` ev_keys d \<and>
     ev_live d' = insert (eh_session h) (ev_live d) \<and> ev_keys d' = insert (p, eh_session h) (ev_keys d) \<and>
     (\<exists>rev. eh_token h = word_of_int rev \<and> ev_rev d < rev \<and> rev \<le> ev_rev d')"

text \<open>The same without the token: the session and its key are what the acquire added.\<close>

definition et_had :: "('s, 'e, 'm) etcd \<Rightarrow> string \<Rightarrow> 'e et_view \<Rightarrow> ('e, 'm) et_holder \<Rightarrow> 'e et_view \<Rightarrow> bool" where
  "et_had cli p d h d' \<longleftrightarrow> \<not> eh_released h \<and> eh_mutex h = NewMutex cli (eh_session h) p \<and>
     eh_session h \<notin> ev_live d \<and> eh_session h \<notin> snd ` ev_keys d \<and>
     ev_live d' = insert (eh_session h) (ev_live d) \<and> ev_keys d' = insert (p, eh_session h) (ev_keys d) \<and>
     ev_rev d \<le> ev_rev d'"

lemma et_won_had: "et_won cli p d h d' \<Longrightarrow> et_had cli p d h d'"
  by (auto simp: et_won_def et_had_def)

lemma et_won_stamp: "et_won cli p d h d' \<Longrightarrow> et_won cli p d (et_stamp obs m t h) d'"
  by (simp add: et_won_def et_stamp_def)

lemma et_won_stable [simp]: "stable et_same (et_won cli p d h)"
  by (auto simp: stable_def et_won_def et_same_def)

text \<open>A new session, as \<open>TryLock\<close> finds it.\<close>

lemma et_new_session:
  assumes "et_kept d d0" "et_same d0 d1" "session_post d1 (Inr ses) d2" "et_same d2 d3"
  shows "ses \<notin> ev_live d" "ses \<notin> snd ` ev_keys d" "ev_live d3 = insert ses (ev_live d)" "ev_keys d3 = ev_keys d"
    "ev_rev d \<le> ev_rev d3"
  using assms by (auto simp: et_kept_def et_same_def session_post_def)

lemma etq_slot_held:
  fixes view :: "'s \<Rightarrow> 'e et_view"
  assumes "et_quiet H view cli" "(et_slot_prefix cfg name i, e0) \<in> ev_keys d" "et_kept d (view s)"
  shows "after (et_acquireSlot cli c name cfg i tr) (\<lambda>r s'. r = Inl et_ErrLocked \<and> et_kept d (view s')) s"
proof -
  let ?p = "et_slot_prefix cfg name i"
  have "after (et_acquireSlot cli c name cfg i tr)
      (settled_res (\<lambda>e d'. e = et_ErrLocked \<and> et_kept d d') (\<lambda>_ _. False) view) s"
  proof (rule after_et_acquireSlot[where QE = "\<lambda>e d'. e = et_ErrLocked \<and> et_kept d d'",
        OF etq_up(3)[OF assms(1)] world_ok_same _ _ _ _ _ refl])
    fix d0 d1 d2 d3 d4 d5 :: "'e et_view" and ses
    assume h: "et_same (view s) d0" "session_post d0 (Inr ses) d1" "et_same d1 d2" "et_same d3 d4"
    note n = et_new_session[OF assms(3) h(1-3)]
    have own: "e0 \<noteq> ses" "(?p, e0) \<in> ev_keys d2" using n(2,4) assms(2) by force+
    show False if "lock_post (conc_ErrLocked cli) ?p ses d2 None d3"
      using that own by (auto simp: lock_post_def)
    show "(if errors_is x (conc_ErrLocked cli) then et_ErrLocked else Wrap ''etcdlock: try_lock'' x) = et_ErrLocked \<and> et_kept d d5"
      if l: "lock_post (conc_ErrLocked cli) ?p ses d2 (Some x) d3" "True \<Longrightarrow> errors_is x (conc_ErrLocked cli)"
        "close_post ses d4 r d5" "True \<Longrightarrow> r = None" for x r
    proof -
      have "ev_live d5 = ev_live d" using l(1,3) h(4) n(1,3) by (auto simp: lock_post_def et_same_def close_post_def)
      moreover have "ev_keys d5 = {k \<in> ev_keys d. snd k \<noteq> ses}"
        using l h(4) n(4) by (auto simp: lock_post_def et_same_def close_post_def without_def)
      moreover have "\<dots> = ev_keys d" using n(2) by auto
      moreover have "ev_rev d \<le> ev_rev d5" using l(1,3) h(4) n(5) by (auto simp: lock_post_def et_same_def close_post_def)
      ultimately show ?thesis using l(2) by (simp add: et_kept_def)
    qed
  qed (auto simp: stable_def intro: et_kept_same)
  then show ?thesis by (rule after_mono) (auto simp: settled_res_def split: sum.splits)
qed

lemma etq_slot_free:
  fixes view :: "'s \<Rightarrow> 'e et_view" and cli :: "('s, 'e, 'm) etcd"
  assumes "et_quiet H view cli" "\<forall>(p', e) \<in> ev_keys d. \<not> under (et_slot_prefix cfg name i) p'" "et_kept d (view s)"
  shows "after (et_acquireSlot cli c name cfg i tr)
    (\<lambda>r s'. \<exists>h. r = Inr h \<and> et_won cli (et_slot_prefix cfg name i) d h (view s')) s"
proof -
  let ?p = "et_slot_prefix cfg name i"
  have "after (et_acquireSlot cli c name cfg i tr) (settled_res (\<lambda>_ _. False) (et_won cli ?p d) view) s"
  proof (rule after_et_acquireSlot[where QE = "\<lambda>_ _. False", OF etq_up(3)[OF assms(1)] world_ok_same _ _ _ _ _ refl])
    fix d0 d1 d2 d3 d4 d5 :: "'e et_view" and ses
    assume h: "et_same (view s) d0" "session_post d0 (Inr ses) d1" "et_same d1 d2" "et_same d3 d4"
    note n = et_new_session[OF assms(3) h(1-3)]
    show False if "lock_post (conc_ErrLocked cli) ?p ses d2 (Some x) d3" "True \<Longrightarrow> errors_is x (conc_ErrLocked cli)" for x
      using that n(4) assms(2) by (auto simp: lock_post_def)
    show "et_won cli ?p d hd d5" if l: "lock_post (conc_ErrLocked cli) ?p ses d2 None d3" "et_same d4 d5"
      "eh_session hd = ses" "eh_mutex hd = NewMutex cli ses ?p" "eh_token hd = word_of_int (ev_hdr d4 (?p, ses))" "\<not> eh_released hd"
    for hd :: "('e, 'm) et_holder"
    proof -
      have "(?p, ses) \<notin> ev_keys d2" using n(2,4) by force
      then have rev: "ev_rev d2 < ev_hdr d3 (?p, ses)" "ev_hdr d3 (?p, ses) \<le> ev_rev d3" using l(1) by (simp_all add: lock_post_def)
      have "ev_live d5 = insert ses (ev_live d)" "ev_keys d5 = insert (?p, ses) (ev_keys d)"
        using l(1,2) h(4) n(3,4) by (simp_all add: lock_post_def et_same_def)
      moreover have "ev_rev d < ev_hdr d4 (?p, ses)" "ev_hdr d4 (?p, ses) \<le> ev_rev d5"
        using rev n(5) h(4) l(2) by (simp_all add: et_same_def)
      ultimately show ?thesis using l(3-6) n(1,2) unfolding et_won_def by blast
    qed
  qed (simp_all add: stable_def[of et_same "\<lambda>_. False"])
  then show ?thesis by (rule after_mono) (auto simp: settled_res_def split: sum.splits)
qed

lemma etq_acquire:
  assumes "et_quiet H view cli" "slots_of (ec_maxConcurrent cfg) = is @ j # js"
    and "\<forall>i \<in> set is. \<exists>e. (et_slot_prefix cfg name i, e) \<in> ev_keys (view s)"
    and "\<forall>(p', e) \<in> ev_keys (view s). \<not> under (et_slot_prefix cfg name j) p'"
  shows "after (et_acquire H cli c name cfg)
    (\<lambda>(r, evs) s'. \<exists>h. r = Inr h \<and> et_won cli (et_slot_prefix cfg name j) (view s) h (view s')) s"
  unfolding et_acquire_slots
proof (rule observed_first[where J = "et_kept (view s)",
      OF etq_up(1,2)[OF assms(1)] et_kept_simps(2) et_won_stable assms(2) et_kept_simps(1)])
  fix c' tr i s1
  assume i: "i \<in> set is" "et_kept (view s) (view s1)"
  with assms(3) obtain e0 where "(et_slot_prefix cfg name i, e0) \<in> ev_keys (view s)" by auto
  from etq_slot_held[OF assms(1) this i(2)]
  show "after (et_acquireSlot cli c' name cfg i tr) (\<lambda>r s'. r = Inl et_ErrLocked \<and> et_kept (view s) (view s')) s1" .
next
  fix c' s1
  assume "et_kept (view s) (view s1)"
  from etq_slot_free[OF assms(1,4) this]
  show "after (et_acquireSlot cli c' name cfg j (extract_trace (ec_observe cfg) c))
      (\<lambda>r s'. \<exists>h. r = Inr h \<and> et_won cli (et_slot_prefix cfg name j) (view s) h (view s')) s1" .
qed (rule et_won_stamp)

lemma etq_release:
  assumes "et_quiet H view cli" "et_had cli p d h (view s)"
  shows "after (et_ReleaseContext H cli c h)
    (\<lambda>(e, h', evs) s'. e = None \<and> h' = h\<lparr>eh_released := True\<rparr> \<and> et_kept d (view s')) s"
proof -
  let ?ses = "eh_session h"
  let ?U = "\<lambda>d'. ev_live d' = insert ?ses (ev_live d) \<and> ev_keys d' = ev_keys d \<and> ev_rev d \<le> ev_rev d'"
  note laws = et_lawsD[OF etq_up(3)[OF assms(1)]]
  have h: "\<not> eh_released h" "eh_mutex h = NewMutex cli ?ses p" "?ses \<notin> ev_live d" "?ses \<notin> snd ` ev_keys d"
    "ev_live (view s) = insert ?ses (ev_live d)" "ev_keys (view s) = insert (p, ?ses) (ev_keys d)" "ev_rev d \<le> ev_rev (view s)"
    using assms(2) by (auto simp: et_had_def)
  have keys: "ev_keys d - {(p, ?ses)} = ev_keys d" "{k \<in> ev_keys d. snd k \<noteq> ?ses} = ev_keys d" using h(4) by force+
  have unlock: "after (Unlock cli (eh_mutex h) c) (\<lambda>r s'. r = None \<and> ?U (view s')) s"
    unfolding h(2) by (rule after_serves[OF laws(5)]) (use h(5-7) keys(1) in \<open>simp add: et_same_def et_unlock_post_def\<close>)
  have close: "after (SessionClose cli ?ses) (\<lambda>r s'. r = None \<and> et_kept d (view s')) s'" if "?U (view s')" for s'
    by (rule after_serves[OF laws(4)]) (use that h(3) keys(2) in \<open>simp add: et_same_def close_post_def without_def et_kept_def\<close>)
  have hold: "after (hold_events H (eh_acquiredAt h) (et_recordHold (eh_observe h) (eh_name h))) (\<lambda>_ s''. et_kept d (view s'')) s'"
    if "et_kept d (view s')" for s'
    by (rule host_hold[OF etq_up(1)[OF assms(1)]]) (rule et_kept_same[OF that])
  have "after (Unlock cli (eh_mutex h) c) (\<lambda>u. after (SessionClose cli ?ses)
      (\<lambda>r. after (hold_events H (eh_acquiredAt h) (et_recordHold (eh_observe h) (eh_name h)))
        (\<lambda>_ s'. u = None \<and> r = None \<and> et_kept d (view s')))) s"
    by (rule after_mono[OF unlock], elim conjE, rule after_mono[OF close], blast, elim conjE, rule after_mono[OF hold]) simp_all
  then show ?thesis using h(1) unfolding et_ReleaseContext_def Let_def by (auto elim!: after_mono)
qed

text \<open>With nobody interfering and no call failing, \<open>Acquire\<close> takes the first slot under whose prefix there
  is no key, passing over the slots before it, which other sessions own: the one new session owns the one new
  key, the fencing token is a revision later than the acquire's beginning, and \<open>Release\<close> removes that key
  and that session and nothing else.\<close>

theorem et_acquire_release:
  assumes "et_quiet H view cli" "slots_of (ec_maxConcurrent cfg) = is @ j # js"
    and "\<forall>i \<in> set is. \<exists>e. (et_slot_prefix cfg name i, e) \<in> ev_keys (view s)"
    and "\<forall>(p', e) \<in> ev_keys (view s). \<not> under (et_slot_prefix cfg name j) p'"
  shows "\<exists>h evs s1 evs' s2 rev. run_state (et_acquire H cli c name cfg) s = ((Inr h, evs), s1) \<and>
    eh_session h \<notin> ev_live (view s) \<and> ev_live (view s1) = insert (eh_session h) (ev_live (view s)) \<and>
    ev_keys (view s1) = insert (et_slot_prefix cfg name j, eh_session h) (ev_keys (view s)) \<and>
    et_Holder_Token h = word_of_int rev \<and> ev_rev (view s) < rev \<and> rev \<le> ev_rev (view s1) \<and>
    run_state (et_ReleaseContext H cli c2 h) s1 = ((None, h\<lparr>eh_released := True\<rparr>, evs'), s2) \<and>
    ev_keys (view s2) = ev_keys (view s) \<and> ev_live (view s2) = ev_live (view s)"
proof -
  from etq_acquire[OF assms, of c]
  obtain h evs s1 where h: "run_state (et_acquire H cli c name cfg) s = ((Inr h, evs), s1)"
    "et_won cli (et_slot_prefix cfg name j) (view s) h (view s1)" by (rule afterE) auto
  from etq_release[OF assms(1) et_won_had[OF h(2)], of c2]
  obtain evs' s2 where x: "run_state (et_ReleaseContext H cli c2 h) s1 = ((None, h\<lparr>eh_released := True\<rparr>, evs'), s2)"
    "et_kept (view s) (view s2)" by (rule afterE) auto
  obtain rev where "eh_token h = word_of_int rev" "ev_rev (view s) < rev" "rev \<le> ev_rev (view s1)"
    using h(2) by (auto simp: et_won_def)
  then show ?thesis using h x unfolding et_won_def et_kept_def et_Holder_Token_def by blast
qed

lemma mem_etcd_quiet: "et_quiet plain_host et_mem_view mem_etcd"
  by (simp add: et_quiet_def mem_etcd_laws)

theorem et_acquire_release_witness:
  "\<exists>h evs s1 evs' s2. run_state (et_acquire plain_host mem_etcd (\<lambda>_. None) ''job''
      (et_applyOptions et_defaultConfig [et_WithMaxConcurrent 2]))
      \<lparr>em_live = [4], em_keys = [(''/ubgo/etcdlock/job/0'', 4)], em_rev = 9, em_hdr = (\<lambda>_. 0)\<rparr> = ((Inr h, evs), s1) \<and>
    ev_keys (et_mem_view s1) = {(''/ubgo/etcdlock/job/1'', eh_session h), (''/ubgo/etcdlock/job/0'', 4)} \<and>
    run_state (et_ReleaseContext plain_host mem_etcd background h) s1 = ((None, h\<lparr>eh_released := True\<rparr>, evs'), s2) \<and>
    ev_keys (et_mem_view s2) = {(''/ubgo/etcdlock/job/0'', 4)}"
proof -
  let ?s = "\<lparr>em_live = [4], em_keys = [(''/ubgo/etcdlock/job/0'', 4)], em_rev = 9, em_hdr = (\<lambda>_. 0)\<rparr>"
  let ?cfg = "et_applyOptions et_defaultConfig [et_WithMaxConcurrent 2]"
  have t: "slots_of (ec_maxConcurrent ?cfg) = [0] @ 1 # []" by (simp add: slots_of_def cfg_simps upt_rec)
  have i: "itoa 0 = ''0''" "itoa 1 = ''1''" by code_simp+
  have k: "et_slot_prefix ?cfg ''job'' 0 = ''/ubgo/etcdlock/job/0''" "et_slot_prefix ?cfg ''job'' 1 = ''/ubgo/etcdlock/job/1''"
    by (simp_all add: et_slot_prefix_def cfg_simps i)
  have l: "\<forall>i \<in> set [0]. \<exists>e. (et_slot_prefix ?cfg ''job'' i, e) \<in> ev_keys (et_mem_view ?s)"
    "\<forall>(p', e) \<in> ev_keys (et_mem_view ?s). \<not> under (et_slot_prefix ?cfg ''job'' 1) p'"
    by (simp_all add: k et_mem_view_def under_def)
  have v: "ev_keys (et_mem_view ?s) = {(''/ubgo/etcdlock/job/0'', 4)}" by (simp add: et_mem_view_def)
  note free = et_acquire_release[OF mem_etcd_quiet, OF t, OF l(1), OF l(2)]
  from free[of "\<lambda>_. None" background]
  obtain h evs s1 evs' s2 where
    "run_state (et_acquire plain_host mem_etcd (\<lambda>_. None) ''job'' ?cfg) ?s = ((Inr h, evs), s1)"
    "ev_keys (et_mem_view s1) = insert (et_slot_prefix ?cfg ''job'' 1, eh_session h) (ev_keys (et_mem_view ?s))"
    "run_state (et_ReleaseContext plain_host mem_etcd background h) s1 = ((None, h\<lparr>eh_released := True\<rparr>, evs'), s2)"
    "ev_keys (et_mem_view s2) = ev_keys (et_mem_view ?s)" by blast
  then show ?thesis unfolding k v by blast
qed

section \<open>Fencing tokens\<close>

text \<open>
  What the others may do while a client works: write, open and close sessions of their own, but not write
  a key under a session of this client, nor change what its mutexes remember.
\<close>

definition et_others :: "'e et_view \<Rightarrow> 'e et_view \<Rightarrow> bool" where
  "et_others d d' \<longleftrightarrow> ev_live d' = ev_live d \<and> ev_hdr d' = ev_hdr d \<and> ev_rev d \<le> ev_rev d' \<and>
     (\<forall>p e. e \<in> ev_live d \<longrightarrow> (p, e) \<in> ev_keys d' \<longrightarrow> (p, e) \<in> ev_keys d)"

lemma et_others_ok [simp]: "world_ok et_others"
  by (auto simp: world_ok_def reflp_def transp_def et_others_def)

definition et_token_after :: "int \<Rightarrow> ('e, 'm) et_holder \<Rightarrow> 'e et_view \<Rightarrow> bool" where
  "et_token_after r h d \<longleftrightarrow> (\<exists>rev. eh_token h = word_of_int rev \<and> r < rev \<and> rev \<le> ev_rev d)"

lemma et_slot_token:
  fixes view :: "'s \<Rightarrow> 'e et_view" and cli :: "('s, 'e, 'm) etcd"
  assumes "et_laws False et_others view cli" "r \<le> ev_rev (view s)"
  shows "after (et_acquireSlot cli c name cfg i tr) (settled_res (\<lambda>_ d. r \<le> ev_rev d) (et_token_after r) view) s"
proof (rule after_et_acquireSlot[where QE = "\<lambda>_ d. r \<le> ev_rev d", OF assms(1) et_others_ok _ _ _ _ _ refl])
  let ?p = "et_slot_prefix cfg name i"
  fix d0 d1 d2 d3 d4 d5 :: "'e et_view" and ses
  assume h: "et_others (view s) d0" "session_post d0 (Inr ses) d1" "et_others d1 d2" "et_others d3 d4"
  have live: "ses \<in> ev_live d1" "\<forall>p. (p, ses) \<notin> ev_keys d1" using h(2) by (force simp: session_post_def et_same_def)+
  have le: "r \<le> ev_rev d2" "ev_rev d3 \<le> ev_rev d4" "ev_hdr d4 = ev_hdr d3"
    using h(1-4) assms(2) by (simp_all add: et_others_def session_post_def et_same_def)
  show "r \<le> ev_rev d5" if "lock_post (conc_ErrLocked cli) ?p ses d2 (Some x) d3" "close_post ses d4 y d5" for x y
    using le that by (simp add: lock_post_def close_post_def)
  show "et_token_after r hd d5" if l: "lock_post (conc_ErrLocked cli) ?p ses d2 None d3" "et_same d4 d5"
    "eh_token hd = word_of_int (ev_hdr d4 (?p, ses))" for hd :: "('e, 'm) et_holder"
  proof -
    have "(?p, ses) \<notin> ev_keys d2" using h(3) live by (auto simp: et_others_def)
    then have "ev_rev d2 < ev_hdr d3 (?p, ses)" "ev_hdr d3 (?p, ses) \<le> ev_rev d3" using l(1) by (simp_all add: lock_post_def)
    then have "r < ev_hdr d4 (?p, ses)" "ev_hdr d4 (?p, ses) \<le> ev_rev d5" using le l(2) by (simp_all add: et_same_def)
    with l(3) show ?thesis unfolding et_token_after_def by blast
  qed
qed (use assms(2) in \<open>auto simp: stable_def et_others_def et_token_after_def dest: order_trans\<close>)

lemma et_acquire_token:
  assumes "host_laws et_others view H" "et_laws False et_others view cli" "r \<le> ev_rev (view s)"
  shows "after (et_acquire H cli c name cfg)
    (\<lambda>(x, evs). settled_res (\<lambda>_ d. r \<le> ev_rev d) (et_token_after r) view x) s"
  unfolding et_acquire_slots
proof (rule observed_any[where J = "\<lambda>d. r \<le> ev_rev d", OF assms(1)])
  show "after (et_acquireSlot cli c' name cfg i tr) (settled_res (\<lambda>_ d. r \<le> ev_rev d) (et_token_after r) view) s1"
    if "r \<le> ev_rev (view s1)" for c' tr i s1
    by (rule et_slot_token[OF assms(2) that])
qed (use assms(3) in \<open>auto simp: stable_def et_others_def et_token_after_def et_stamp_def dest: order_trans\<close>)

text \<open>C36: Fencing: whatever calls fail and whatever the others do, of two acquires that both answer a holder, on
  any names and slots, the one that began when the store was at least at the revision at which the other
  ended has the greater token, as the unsigned number it is compared as, while the store's revision, which etcd
  keeps in 63 bits, stays in range.\<close>

theorem et_tokens_increase:
  assumes "host_laws et_others view H" "et_laws False et_others view cli"
    and "run_state (et_acquire H cli c1 n1 cfg1) s1 = ((Inr h1, evs1), s1')"
    and "run_state (et_acquire H cli c2 n2 cfg2) s2 = ((Inr h2, evs2), s2')"
    and "0 \<le> ev_rev (view s1)" "ev_rev (view s1') \<le> ev_rev (view s2)" "ev_rev (view s2') < 2 ^ 63"
  shows "et_Holder_Token h1 < et_Holder_Token h2"
proof -
  obtain r1 where r1: "et_Holder_Token h1 = word_of_int r1" "ev_rev (view s1) < r1" "r1 \<le> ev_rev (view s1')"
    using afterD[OF et_acquire_token[OF assms(1,2) order_refl] assms(3)] by (auto simp: et_token_after_def et_Holder_Token_def)
  obtain r2 where r2: "et_Holder_Token h2 = word_of_int r2" "ev_rev (view s2) < r2" "r2 \<le> ev_rev (view s2')"
    using afterD[OF et_acquire_token[OF assms(1,2) order_refl] assms(4)] by (auto simp: et_token_after_def et_Holder_Token_def)
  have "uint (word_of_int r :: 64 word) = r" if "0 \<le> r" "r < 2 ^ 63" for r :: int
    using that by (simp add: unsigned_of_int take_bit_int_eq_self)
  then show ?thesis using r1 r2 assms(5-7) by (simp add: word_less_def)
qed

theorem et_tokens_increase_witness:
  "\<exists>h1 evs1 s1 h2 evs2 s2.
     run_state (et_acquire plain_host mem_etcd (\<lambda>_. None) ''a'' et_defaultConfig)
       \<lparr>em_live = [], em_keys = [], em_rev = 9, em_hdr = (\<lambda>_. 0)\<rparr> = ((Inr h1, evs1), s1) \<and>
     run_state (et_acquire plain_host mem_etcd (\<lambda>_. None) ''b'' et_defaultConfig) s1 = ((Inr h2, evs2), s2) \<and>
     et_Holder_Token h1 < et_Holder_Token h2"
proof -
  let ?A = "\<lambda>n. et_acquire plain_host mem_etcd (\<lambda>_. None) n et_defaultConfig"
  note run = et_acquire_def et_acquire_body_def et_acquireSlot_def et_granted_def et_hook_defs et_defaultConfig_def
    plain_host_def mem_etcd_def mem_TryLock_def Let_def extract_trace_def no_observe_def et_slot_prefix_def under_def
  have "\<exists>h1 evs1. run_state (?A ''a'') \<lparr>em_live = [], em_keys = [], em_rev = 9, em_hdr = (\<lambda>_. 0)\<rparr> =
      ((Inr h1, evs1), \<lparr>em_live = [1], em_keys = [(''/ubgo/etcdlock/a'', 1)], em_rev = 10,
        em_hdr = (\<lambda>_. 0)((''/ubgo/etcdlock/a'', 1) := 10)\<rparr>)" (is "\<exists>h1 evs1. _ = (_, ?s1)") by (simp add: run)
  then obtain h1 evs1 where a: "run_state (?A ''a'') \<lparr>em_live = [], em_keys = [], em_rev = 9, em_hdr = (\<lambda>_. 0)\<rparr> =
      ((Inr h1, evs1), ?s1)" by blast
  obtain h2 evs2 s2 where b: "run_state (?A ''b'') ?s1 = ((Inr h2, evs2), s2)" "ev_rev (et_mem_view s2) = 11"
    by (simp add: run et_mem_view_def)
  have same: "et_others d d'" if "et_same d d'" for d d' :: "nat et_view" using that by (auto simp: et_same_def et_others_def)
  have "et_Holder_Token h1 < et_Holder_Token h2"
    by (rule et_tokens_increase[OF plain_host_laws et_laws_down[OF mem_etcd_laws] a b(1)])
      (use b(2) same in \<open>simp_all add: et_mem_view_def\<close>)
  with a b(1) show ?thesis by blast
qed

end
