(* ===== verification/Etcdlock_Table.thy ===== *)
theory Etcdlock_Table
  imports Etcdlock_Quiet Server_Table
begin

text \<open>
  \<open>etcdlock\<close> with any number of slots, on a cluster that answers and while sessions are kept alive, keeps the
  contract of \<open>Lock_Table\<close> over the prefixes of slots: clients acquire and release names without a slash, each
  call undisturbed but for unrelated writes.
\<close>

section \<open>Who holds what\<close>

definition et_slot_prefixes :: "et_config \<Rightarrow> string \<Rightarrow> string list" where
  "et_slot_prefixes cfg n = map (et_slot_prefix cfg n) (slots_of (ec_maxConcurrent cfg))"

definition et_plain :: "et_config \<Rightarrow> string \<Rightarrow> bool" where
  "et_plain cfg p \<longleftrightarrow> (\<exists>n. CHR ''/'' \<notin> set n \<and> p \<in> set (et_slot_prefixes cfg n))"

definition et_holds ::
  "('s, 'e, 'm) etcd \<Rightarrow> ('s \<Rightarrow> 'e et_view) \<Rightarrow> 's \<Rightarrow> ('e, 'm) et_adapted \<Rightarrow> string \<Rightarrow> bool" where
  "et_holds cli view s x p \<longleftrightarrow> \<not> eh_released (ea_h x) \<and>
     eh_mutex (ea_h x) = NewMutex cli (eh_session (ea_h x)) p \<and> eh_session (ea_h x) \<in> ev_live (view s) \<and>
     (\<forall>p'. (p', eh_session (ea_h x)) \<in> ev_keys (view s) \<longleftrightarrow> p' = p)"

definition et_unheld :: "('s \<Rightarrow> 'e et_view) \<Rightarrow> 's \<Rightarrow> string \<Rightarrow> bool" where
  "et_unheld view s p \<longleftrightarrow> (\<forall>(p', e) \<in> ev_keys (view s). \<not> under p p')"

abbreviation et_table_others ::
  "('s, 'e, 'm) etcd \<Rightarrow> ('s \<Rightarrow> 'e et_view) \<Rightarrow> et_config \<Rightarrow> string set \<Rightarrow> 's \<Rightarrow> 's \<Rightarrow> bool" where
  "et_table_others cli view cfg \<equiv> others (et_plain cfg) (et_holds cli view) (et_unheld view)"

definition et_put :: "('e, 'm) et_holder \<Rightarrow> ('e, 'm) et_adapted \<Rightarrow> ('e, 'm) et_adapted" where
  "et_put h a = a\<lparr>ea_h := h\<rparr>"

text \<open>No slot of a name without a slash is under another.\<close>

lemma et_under_plain:
  assumes "et_plain cfg p" "et_plain cfg p'"
  shows "under p p' \<longleftrightarrow> p = p'"
proof -
  have none: "filter ((=) (CHR ''/'')) x = []" if "CHR ''/'' \<notin> set x" for x
    using that by (auto simp: filter_empty_conv)
  have sep: "CHR ''/'' \<notin> set (itoa k)" for k using itoa_chars[of "CHR ''/''" k] by (auto simp: is_digit_def)
  obtain n i m j where nm: "CHR ''/'' \<notin> set n" "CHR ''/'' \<notin> set m" "p = et_slot_prefix cfg n i" "p' = et_slot_prefix cfg m j"
    and ij: "i \<in> set (slots_of (ec_maxConcurrent cfg))" "j \<in> set (slots_of (ec_maxConcurrent cfg))"
    using assms by (auto simp: et_plain_def et_slot_prefixes_def)
  have kind: "i < 0 \<and> j < 0 \<or> 0 \<le> i \<and> 0 \<le> j" using ij by (auto simp: slots_of_def split: if_splits)
  have "length (filter ((=) (CHR ''/'')) (et_slot_prefix cfg n i)) = length (filter ((=) (CHR ''/'')) (et_slot_prefix cfg m j))"
    using kind none[OF nm(1)] none[OF nm(2)] none[OF sep] by (auto simp: et_slot_prefix_def)
  then have "\<not> prefix (p @ ''/'') p'"
    unfolding nm(3,4) by (auto simp: prefix_def)
  then show ?thesis by (auto simp: under_def)
qed

lemma et_others_kept:
  assumes "et_kept (view s) (view s')"
  shows "et_table_others cli view cfg N s s'"
  using assms unfolding others_def et_holds_def et_unheld_def et_kept_def by (auto intro: order_trans)

section \<open>What the calls do\<close>

lemma etq_acquire_held:
  assumes "et_quiet H view cli"
    and "\<forall>i \<in> set (slots_of (ec_maxConcurrent cfg)). \<exists>e. (et_slot_prefix cfg name i, e) \<in> ev_keys (view s)"
  shows "after (et_acquire H cli c name cfg) (\<lambda>(r, evs) s'. r = Inl et_ErrLocked \<and> et_kept (view s) (view s')) s"
  unfolding et_acquire_slots
proof (rule observed_held[where J = "et_kept (view s)",
      OF etq_up(1,2)[OF assms(1)] et_kept_simps(2) et_kept_simps(1)])
  fix c' tr i s1
  assume i: "i \<in> set (slots_of (ec_maxConcurrent cfg))" "et_kept (view s) (view s1)"
  with assms(2) obtain e0 where "(et_slot_prefix cfg name i, e0) \<in> ev_keys (view s)" by auto
  from etq_slot_held[OF assms(1) this i(2)]
  show "after (et_acquireSlot cli c' name cfg i tr) (\<lambda>r s'. r = Inl et_ErrLocked \<and> et_kept (view s) (view s')) s1" .
qed

text \<open>A holder that was had, and one given back.\<close>

lemma et_holdsD:
  assumes "et_holds cli view s x p"
  shows "\<not> eh_released (ea_h x)" "eh_mutex (ea_h x) = NewMutex cli (eh_session (ea_h x)) p"
    "eh_session (ea_h x) \<in> ev_live (view s)" "(p', eh_session (ea_h x)) \<in> ev_keys (view s) \<longleftrightarrow> p' = p"
  using assms by (simp_all add: et_holds_def)

lemma et_held_key: "\<exists>x. et_holds cli view s x p \<Longrightarrow> \<exists>e. (p, e) \<in> ev_keys (view s)"
proof (elim exE)
  fix x assume "et_holds cli view s x p"
  from et_holdsD(4)[OF this, of p] show "\<exists>e. (p, e) \<in> ev_keys (view s)" by simp (rule exI)
qed

lemma et_won_table:
  assumes "et_won cli p (view s) h (view s')" "et_plain cfg p"
  shows "et_holds cli view s' \<lparr>ea_h = h, ea_ctx = c\<rparr> p" "et_table_others cli view cfg {p} s s'"
proof -
  let ?ses = "eh_session h"
  have w: "\<not> eh_released h" "eh_mutex h = NewMutex cli ?ses p" "?ses \<notin> ev_live (view s)" "?ses \<notin> snd ` ev_keys (view s)"
    "ev_live (view s') = insert ?ses (ev_live (view s))" "ev_keys (view s') = insert (p, ?ses) (ev_keys (view s))"
    using assms(1) by (simp_all add: et_won_def)
  have new: "(p', ?ses) \<notin> ev_keys (view s)" for p' using w(4) by force
  show "et_holds cli view s' \<lparr>ea_h = h, ea_ctx = c\<rparr> p" using new by (simp add: et_holds_def w(1,2,5,6))
  have "et_holds cli view s' y q" if h: "et_holds cli view s y q" for y q
  proof -
    have "eh_session (ea_h y) \<noteq> ?ses" using et_holdsD(3)[OF h] w(3) by metis
    with et_holdsD[OF h] show ?thesis by (simp add: et_holds_def w(5,6))
  qed
  moreover have "et_unheld view s' q" if "et_plain cfg q" "et_unheld view s q" "q \<noteq> p" for q
    using that et_under_plain[OF that(1) assms(2)] by (simp add: et_unheld_def w(6))
  ultimately show "et_table_others cli view cfg {p} s s'" by (simp add: others_def)
qed

lemma et_holds_had:
  assumes "et_holds cli view s x p" "ses = eh_session (ea_h x)"
  shows "et_had cli p ((view s)\<lparr>ev_live := ev_live (view s) - {ses}, ev_keys := ev_keys (view s) - {(p, ses)}\<rparr>) (ea_h x) (view s)"
proof -
  note h = et_holdsD[OF assms(1)]
  have "e \<noteq> ses" if "(q, e) \<in> ev_keys (view s)" "(q, e) \<noteq> (p, ses)" for q e using that h(4)[of q] assms(2) by auto
  then have "ses \<notin> snd ` (ev_keys (view s) - {(p, ses)})" by force
  with h(1-3) h(4)[of p] assms(2) show ?thesis by (simp add: et_had_def insert_absorb)
qed

lemma et_given_table:
  assumes "et_holds cli view s x p"
    and "et_kept ((view s)\<lparr>ev_live := ev_live (view s) - {eh_session (ea_h x)},
      ev_keys := ev_keys (view s) - {(p, eh_session (ea_h x))}\<rparr>) (view s')"
  shows "et_table_others cli view cfg {p} s s'"
proof -
  let ?ses = "eh_session (ea_h x)"
  have k: "ev_live (view s') = ev_live (view s) - {?ses}" "ev_keys (view s') = ev_keys (view s) - {(p, ?ses)}"
    using assms(2) by (simp_all add: et_kept_def)
  have y: "et_holds cli view s' y q" if h: "et_holds cli view s y q" "q \<noteq> p" for y q
  proof -
    have "eh_session (ea_h y) \<noteq> ?ses" using et_holdsD(4)[OF assms(1), of p] et_holdsD(4)[OF h(1), of p] h(2) by auto
    with et_holdsD[OF h(1)] show ?thesis by (simp add: et_holds_def k)
  qed
  then show ?thesis by (simp add: others_def et_unheld_def k)
qed

text \<open>Each slot has one key at most, and no key beneath it.\<close>

definition et_tidy :: "et_config \<Rightarrow> 'e et_view \<Rightarrow> bool" where
  "et_tidy cfg d \<longleftrightarrow> (\<forall>p. et_plain cfg p \<longrightarrow>
     (\<forall>e e'. (p, e) \<in> ev_keys d \<longrightarrow> (p, e') \<in> ev_keys d \<longrightarrow> e = e') \<and>
     (\<forall>p' e. (p', e) \<in> ev_keys d \<longrightarrow> under p p' \<longrightarrow> p' = p))"

lemma et_tidyD:
  assumes "et_tidy cfg d" "et_plain cfg p"
  shows "(p, e) \<in> ev_keys d \<Longrightarrow> (p, e') \<in> ev_keys d \<Longrightarrow> e = e'" "(p', e) \<in> ev_keys d \<Longrightarrow> under p p' \<Longrightarrow> p' = p"
  using assms unfolding et_tidy_def by blast+

lemma et_tidy_kept: "et_kept d d' \<Longrightarrow> et_tidy cfg d \<Longrightarrow> et_tidy cfg d'"
  by (simp add: et_tidy_def et_kept_def)

lemma et_tidy_won:
  assumes "et_tidy cfg (view s)" "et_plain cfg p" "et_unheld view s p" "et_won cli p (view s) h (view s')"
  shows "et_tidy cfg (view s')"
proof -
  have k: "ev_keys (view s') = insert (p, eh_session h) (ev_keys (view s))" using assms(4) by (simp add: et_won_def)
  have none: "(p, e) \<notin> ev_keys (view s)" for e using assms(3) by (auto simp: et_unheld_def under_def)
  show ?thesis
    unfolding et_tidy_def k
  proof (intro allI impI conjI)
    fix q e e'
    assume q: "et_plain cfg q" "(q, e) \<in> insert (p, eh_session h) (ev_keys (view s))"
      "(q, e') \<in> insert (p, eh_session h) (ev_keys (view s))"
    then show "e = e'" using none et_tidyD(1)[OF assms(1) q(1)] by (cases "q = p") auto
  next
    fix q p' e
    assume q: "et_plain cfg q" "(p', e) \<in> insert (p, eh_session h) (ev_keys (view s))" "under q p'"
    then show "p' = q"
      using et_tidyD(2)[OF assms(1) q(1)] et_under_plain[OF q(1) assms(2)] by auto
  qed
qed

lemma et_tidy_given:
  assumes "et_tidy cfg (view s)" "et_plain cfg p" "et_holds cli view s x p"
    and "ev_keys (view s') = ev_keys (view s) - {(p, eh_session (ea_h x))}"
  shows "et_tidy cfg (view s')" "et_unheld view s' p"
proof -
  show "et_tidy cfg (view s')" using assms(1) unfolding et_tidy_def assms(4) by blast
  have "(p, eh_session (ea_h x)) \<in> ev_keys (view s)" using et_holdsD(4)[OF assms(3)] by simp
  then have "(p, e) \<notin> ev_keys (view s')" for e using et_tidyD(1)[OF assms(1,2)] assms(4) by auto
  moreover have "p' = p" if "(p', e) \<in> ev_keys (view s')" "under p p'" for p' e
    using et_tidyD(2)[OF assms(1,2)] that assms(4) by auto
  ultimately show "et_unheld view s' p" unfolding et_unheld_def by blast
qed

interpretation etl: server_lock "\<lambda>c. et_factoryAdapter_Acquire H cli f c" "et_holderAdapter_Release H cli" et_put
  "et_slot_prefixes (et_defaults f)" "et_plain (et_defaults f)"
  "\<lambda>s. et_quiet H view cli \<and> et_tidy (et_defaults f) (view s)" "et_holds cli view" "et_unheld view" "\<lambda>x. eh_released (ea_h x)"
  for H cli f view
proof (unfold_locales, goal_cases)
  case (1 s n c)
  let ?cfg = "et_defaults f"
  have "\<forall>i \<in> set (slots_of (ec_maxConcurrent ?cfg)). \<exists>e. (et_slot_prefix ?cfg n i, e) \<in> ev_keys (view s)"
    using 1(2) et_held_key[where view = view and s = s and cli = cli] unfolding et_slot_prefixes_def by simp
  then have "after (et_acquire H cli c n ?cfg) (\<lambda>(r, evs) s'. r = Inl et_ErrLocked \<and> et_kept (view s) (view s')) s"
    by (rule etq_acquire_held[OF conjunct1[OF 1(1)]])
  then show ?case
    unfolding et_factoryAdapter_Acquire_def et_Factory_Acquire_def
    using 1(1) by (auto elim!: after_mono simp: et_adapt_def to_lock_err_def intro: et_others_kept et_tidy_kept)
next
  case (2 s n us p vs c)
  let ?cfg = "et_defaults f"
  obtain us' i vs' where sl: "slots_of (ec_maxConcurrent ?cfg) = us' @ i # vs'" "us = map (et_slot_prefix ?cfg n) us'" "p = et_slot_prefix ?cfg n i"
    using 2(3) by (auto simp: et_slot_prefixes_def map_eq_append_conv map_eq_Cons_conv)
  have pl: "et_plain ?cfg p" using 2(2,3) by simp
  have us: "\<forall>u \<in> set us'. \<exists>e. (et_slot_prefix ?cfg n u, e) \<in> ev_keys (view s)"
    using 2(4) et_held_key[where view = view and s = s and cli = cli] unfolding sl(2) by simp
  have "after (et_acquire H cli c n ?cfg) (\<lambda>(r, evs) s'. \<exists>h. r = Inr h \<and> et_won cli p (view s) h (view s')) s"
    unfolding sl(3) by (rule etq_acquire[OF conjunct1[OF 2(1)] sl(1) us]) (use 2(5) in \<open>simp add: et_unheld_def sl(3)\<close>)
  moreover have "et_tidy ?cfg (view s')" if "et_won cli p (view s) h (view s')" for h s'
    using 2(1) et_tidy_won[OF _ pl 2(5) that] by simp
  ultimately show ?case
    unfolding et_factoryAdapter_Acquire_def et_Factory_Acquire_def
    by (auto elim!: after_mono simp: et_adapt_def to_lock_err_def 2(1) intro: et_won_table[OF _ pl])
next
  case (3 s p x)
  let ?cfg = "et_defaults f"
  let ?d = "(view s)\<lparr>ev_live := ev_live (view s) - {eh_session (ea_h x)}, ev_keys := ev_keys (view s) - {(p, eh_session (ea_h x))}\<rparr>"
  have "after (et_ReleaseContext H cli (ea_ctx x) (ea_h x)) (\<lambda>(e, h', evs) s'. e = None \<and>
      h' = (ea_h x)\<lparr>eh_released := True\<rparr> \<and> et_kept ?d (view s')) s"
    by (rule etq_release[OF conjunct1[OF 3(1)] et_holds_had[OF 3(3) refl]])
  moreover have "et_tidy ?cfg (view s') \<and> et_unheld view s' p" if k: "et_kept ?d (view s')" for s'
    using et_tidy_given[OF conjunct2[OF 3(1)] 3(2,3)] k by (simp add: et_kept_def)
  ultimately show ?case
    unfolding et_holderAdapter_Release_def
    by (elim after_mono) (use 3(1) et_given_table[OF 3(3)] in \<open>auto simp: et_put_def\<close>)
next
  case (4 x s)
  then show ?case by (simp add: et_holderAdapter_Release_def et_ReleaseContext_def et_put_def)
next
  case (5 p p' s x)
  then show ?case using et_holdsD(4)[OF 5(3), of p] et_holdsD(4)[OF 5(4), of p] by simp
qed

section \<open>Properties\<close>

text \<open>C9: On an etcd cluster that answers and while sessions are kept alive, clients that acquire and release locks of any
  names without a slash one call at a time, in any order, releases repeated or of holders they never got included,
  while unrelated writes go on, get exactly the answers of a table of who holds which slot's prefix: a request is granted
  the first slot of its name that nobody holds, refused with \<open>lock.ErrLocked\<close> when each is held, and a slot is free
  again once that very holder is released.\<close>

theorem et_refines_table:
  assumes "et_quiet H view cli"
    and "\<And>n i p e. CHR ''/'' \<notin> set n \<Longrightarrow> (p, e) \<in> ev_keys (view s) \<Longrightarrow> \<not> under (et_slot_prefix (et_defaults f) n i) p"
    and "\<And>c n. Ask (c, n) \<in> set cs \<Longrightarrow> CHR ''/'' \<notin> set n"
  shows "answers (client_ask (server_acq (\<lambda>c. et_factoryAdapter_Acquire H cli f c)))
      (client_give (server_rel (et_holderAdapter_Release H cli) et_put)) cs \<lparr>cl_world = s, cl_objs = []\<rparr> =
    table_answers (\<lambda>q. et_slot_prefixes (et_defaults f) (snd q)) (\<lambda>_. None) lock_ErrLocked cs (\<lambda>_. None) 0"
proof -
  have free: "et_unheld view s p" if "et_plain (et_defaults f) p" for p
    using that assms(2) by (auto simp: et_plain_def et_slot_prefixes_def et_unheld_def)
  then have "(p, e) \<notin> ev_keys (view s)" if "et_plain (et_defaults f) p" for p e
    using that by (auto simp: et_unheld_def under_def)
  with free have "et_tidy (et_defaults f) (view s)" unfolding et_tidy_def et_unheld_def by blast
  with assms(1) have ok: "et_quiet H view cli \<and> et_tidy (et_defaults f) (view s)" by simp
  have "\<forall>p \<in> set (et_slot_prefixes (et_defaults f) (snd q)). et_plain (et_defaults f) p" if "Ask q \<in> set cs" for q
    using assms(3)[of "fst q" "snd q"] that unfolding et_plain_def by auto
  then show ?thesis
    by (intro etl.clients.answers_table[where view = view, OF client_table_new, OF ok free])
qed

theorem et_refines_table_witness:
  "answers (client_ask (server_acq (\<lambda>c. et_factoryAdapter_Acquire plain_host mem_etcd (et_NewFactory [et_WithMaxConcurrent 2]) c)))
      (client_give (server_rel (et_holderAdapter_Release plain_host mem_etcd) et_put))
     [Ask (background, ''job''), Ask (background, ''job''), Ask (background, ''job''), Give 0, Give 0, Ask (background, ''job'')]
     \<lparr>cl_world = \<lparr>em_live = [], em_keys = [], em_rev = 9, em_hdr = (\<lambda>_. 0)\<rparr>, cl_objs = []\<rparr> =
   [Granted 0, Granted 1, Refused lock_ErrLocked, Returned_with None, Returned_with None, Granted 2]"
proof -
  let ?cs = "[Ask (background, ''job''), Ask (background, ''job''), Ask (background, ''job''), Give 0, Give 0, Ask (background, ''job'')]"
  let ?cfg = "et_defaults (et_NewFactory [et_WithMaxConcurrent 2])"
  let ?s = "\<lparr>em_live = [], em_keys = [], em_rev = 9, em_hdr = (\<lambda>_. 0)\<rparr>"
  have m: "ec_maxConcurrent ?cfg = 2" by (simp add: et_NewFactory_def et_WithMaxConcurrent_def)
  have e: "\<not> under (et_slot_prefix ?cfg n i) p" if "CHR ''/'' \<notin> set n" "(p, e) \<in> ev_keys (et_mem_view ?s)" for n i p e
    using that(2) by (simp add: et_mem_view_def)
  have p: "CHR ''/'' \<notin> set n" if "Ask (c, n) \<in> set ?cs" for c n using that by auto
  note eq = et_refines_table[where cs = ?cs and view = et_mem_view and s = ?s, OF mem_etcd_quiet e p]
  have sl: "slots_of 2 = [0, 1]" by (simp add: slots_of_def upt_rec)
  have "table_answers (\<lambda>q. et_slot_prefixes ?cfg (snd q)) (\<lambda>_. None) lock_ErrLocked ?cs (\<lambda>_. None) 0 =
      [Granted 0, Granted 1, Refused lock_ErrLocked, Returned_with None, Returned_with None, Granted 2]"
    by (simp add: et_slot_prefixes_def m sl et_slot_prefix_def itoa_inject_nonneg give_up_def)
  with eq show ?thesis by (rule trans)
qed

end
