(* ===== verification/Backends.thy ===== *)
theory Backends
  imports Memlock_Table Filelock_Table Flock_Table Redislock_Table Pglock_Table Etcdlock_Table
begin

text \<open>
  The backends seen together: \<open>lock.Locker\<close> is one interface, and a scheduler that takes its job locks
  through \<open>contrib/gocronlock\<close> cannot tell by the answers which backend it was given.
\<close>

section \<open>The backends as \<open>lock.Locker\<close>\<close>

text \<open>A process of a host with its file locks, and a client of a server.  The requests of the latter are made with a
  context that is never done.\<close>

definition filelock_Locker :: "ctx \<Rightarrow> fl_factory \<Rightarrow> int \<Rightarrow> ((world, int \<times> fl_holder) clients, nat) Locker" where
  "filelock_Locker c f me =
     client_Locker (host_acq (fl_factoryAdapter_Acquire darwin c f)) (host_rel fl_holderAdapter_Release) (Pair me)"

definition flock_Locker :: "try_lock \<Rightarrow> ctx \<Rightarrow> fk_factory \<Rightarrow> int \<Rightarrow> ((world, int \<times> fk_holder) clients, nat) Locker" where
  "flock_Locker tlk c f me =
     client_Locker (host_acq (fk_factoryAdapter_Acquire tlk c f)) (host_rel fk_holderAdapter_Release) (Pair me)"

definition redis_Locker :: "'s host \<Rightarrow> 's redis \<Rightarrow> rd_factory \<Rightarrow> (('s, rd_adapted) clients, nat) Locker" where
  "redis_Locker H rdb f = client_Locker (server_acq (\<lambda>c. rd_factoryAdapter_Acquire H rdb f c))
     (server_rel (rd_holderAdapter_Release H rdb) rd_put) (\<lambda>(ctx, n). (background, n))"

definition pg_Locker :: "'s host \<Rightarrow> ('s, 'c) pgpool \<Rightarrow> pg_factory \<Rightarrow> (('s, 'c pg_adapted) clients, nat) Locker" where
  "pg_Locker H pool f = client_Locker (server_acq (\<lambda>c. pg_factoryAdapter_Acquire H pool f c))
     (server_rel (pg_holderAdapter_Release H pool) pg_put) (\<lambda>(ctx, n). (background, n))"

definition etcd_Locker :: "'s host \<Rightarrow> ('s, 'e, 'm) etcd \<Rightarrow> et_factory \<Rightarrow> (('s, ('e, 'm) et_adapted) clients, nat) Locker" where
  "etcd_Locker H cli f = client_Locker (server_acq (\<lambda>c. et_factoryAdapter_Acquire H cli f c))
     (server_rel (et_holderAdapter_Release H cli) et_put) (\<lambda>(ctx, n). (background, n))"

section \<open>Backends nobody has used yet\<close>

text \<open>Each is in order for locks with \<open>N\<close> slots, and no slot is taken.\<close>

definition filelock_fresh :: "ctx \<Rightarrow> fl_factory \<Rightarrow> int \<Rightarrow> int \<Rightarrow> world \<Rightarrow> bool" where
  "filelock_fresh c f me N w \<longleftrightarrow> fl_host c (fl_defaults f) (\<lambda>p. p = me) w \<and> fc_maxConcurrent (fl_defaults f) = N \<and>
     (\<forall>n i. slash_free n \<longrightarrow> lookup w (slot_path (fc_dir (fl_defaults f)) n i) = None)"

definition flock_fresh :: "try_lock \<Rightarrow> fk_factory \<Rightarrow> int \<Rightarrow> world \<Rightarrow> bool" where
  "flock_fresh tlk f N w \<longleftrightarrow> fk_host_ok tlk (fk_defaults f) w \<and> kc_maxConcurrent (fk_defaults f) = N \<and>
     (\<forall>n i. slash_free n \<longrightarrow> fk_free w (fk_slot_path (kc_dir (fk_defaults f)) n i))"

definition redis_fresh :: "'s host \<Rightarrow> ('s \<Rightarrow> redis_db) \<Rightarrow> 's redis \<Rightarrow> rd_factory \<Rightarrow> int \<Rightarrow> 's \<Rightarrow> bool" where
  "redis_fresh H db rdb f N s \<longleftrightarrow> rd_quiet H db rdb \<and> rc_maxConcurrent (rd_defaults f) = N \<and>
     (\<forall>k. rd_plain (rd_defaults f) k \<longrightarrow> db s k = None)"

definition pg_fresh :: "'s host \<Rightarrow> ('s \<Rightarrow> 'c pg_view) \<Rightarrow> ('s, 'c) pgpool \<Rightarrow> pg_factory \<Rightarrow> int \<Rightarrow> 's \<Rightarrow> bool" where
  "pg_fresh H view pool f N s \<longleftrightarrow> pg_quiet H view pool \<and> pc_maxConcurrent (pg_defaults f) = N \<and>
     (\<forall>k. pv_locks (view s) k = (\<lambda>_. 0))"

definition etcd_fresh :: "'s host \<Rightarrow> ('s \<Rightarrow> 'e et_view) \<Rightarrow> ('s, 'e, 'm) etcd \<Rightarrow> et_factory \<Rightarrow> int \<Rightarrow> 's \<Rightarrow> bool" where
  "etcd_fresh H view cli f N s \<longleftrightarrow> et_quiet H view cli \<and> ec_maxConcurrent (et_defaults f) = N \<and> ev_keys (view s) = {}"

text \<open>
  The jobs of a scheduler: asked for with a context that is not done, under names that every backend takes as
  they are.
\<close>

definition plain_jobs :: "(err \<times> string) call list \<Rightarrow> bool" where
  "plain_jobs cs \<longleftrightarrow> (\<forall>ctx n. Ask (ctx, n) \<in> set cs \<longrightarrow> ctx = None \<and> slash_free n \<and> \<not> suffix '':fence'' n)"

lemma plain_jobsD:
  assumes "plain_jobs cs" "Ask q \<in> set cs"
  shows "fst q = None" "slash_free (snd q)" "\<not> suffix '':fence'' (snd q)"
  using assms by (cases q, auto simp: plain_jobs_def)+

text \<open>The slots that the jobs ask for, and the table they are looked up in.\<close>

definition job_slots :: "int \<Rightarrow> err \<times> string \<Rightarrow> (string \<times> int) list" where
  "job_slots N q = map (Pair (snd q)) (slots_of N)"

definition job_rows :: "int \<Rightarrow> (err \<times> string) call list \<Rightarrow> (string \<times> int) set" where
  "job_rows N cs = {(n, i). (\<exists>ctx. Ask (ctx, n) \<in> set cs) \<and> i \<in> set (slots_of N)}"

abbreviation job_answers :: "int \<Rightarrow> (err \<times> string) call list \<Rightarrow> answer list" where
  "job_answers N cs \<equiv> table_answers (job_slots N) (\<lambda>_. None) lock_ErrLocked cs (\<lambda>_. None) 0"

lemma job_slots_rows: "Ask q \<in> set cs \<Longrightarrow> set (job_slots N q) \<subseteq> job_rows N cs"
  by (cases q) (auto simp: job_slots_def job_rows_def)

lemma job_answers_rename:
  assumes "inj_on g (job_rows N cs)"
    and "\<And>q. Ask q \<in> set cs \<Longrightarrow> slots q = map g (job_slots N q) \<and> fails q = None"
  shows "table_answers slots fails lock_ErrLocked cs (\<lambda>_. None) 0 = job_answers N cs"
  by (rule table_answers_rename[OF assms(1)]) (use assms(2) job_slots_rows in auto)

lemma slots_of_kind: "i \<in> set (slots_of N) \<Longrightarrow> j \<in> set (slots_of N) \<Longrightarrow> i = - 1 \<and> j = - 1 \<or> 0 \<le> i \<and> 0 \<le> j"
  by (auto simp: slots_of_def split: if_splits)

lemma inj_job_rows:
  assumes "\<And>n m i j. i = - 1 \<and> j = - 1 \<or> 0 \<le> i \<and> 0 \<le> j \<Longrightarrow> g n i = g m j \<longleftrightarrow> n = m \<and> i = j"
  shows "inj_on (\<lambda>(n, i). g n i) (job_rows N cs)"
  unfolding inj_on_def using assms[OF slots_of_kind] by (auto simp: job_rows_def)

section \<open>What a scheduler sees of each\<close>

lemma filelock_answers:
  assumes "filelock_fresh c f me N w" "plain_jobs cs"
  shows "answers (gc_request (filelock_Locker c f me)) (gc_return (filelock_Locker c f me)) cs \<lparr>cl_world = w, cl_objs = []\<rparr> =
    job_answers N cs"
proof -
  have s: "fl_slots_of (fl_defaults f) = slots_of N"
    using assms(1) by (simp add: filelock_fresh_def fl_slots_of_def fl_slots_def slots_of_def)
  have "answers (gc_request (filelock_Locker c f me)) (gc_return (filelock_Locker c f me)) cs \<lparr>cl_world = w, cl_objs = []\<rparr> =
    table_answers (\<lambda>q. host_slots (slots_of N) (me, q)) (\<lambda>q. host_fails fl_ErrLocked (me, q)) lock_ErrLocked cs (\<lambda>_. None) 0"
    unfolding s[symmetric]
    by (rule gocron_filelock_table[where alive = "\<lambda>p. p = me"])
      (use assms(1) plain_jobsD(2)[OF assms(2)] in \<open>simp_all add: filelock_fresh_def filelock_Locker_def\<close>)
  also have "\<dots> = job_answers N cs"
    by (rule job_answers_rename[where g = id])
      (use plain_jobsD(1)[OF assms(2)] in \<open>auto simp: host_slots_def job_slots_def host_fails_def\<close>)
  finally show ?thesis .
qed

lemma flock_answers:
  assumes "flock_fresh tlk f N w" "plain_jobs cs"
  shows "answers (gc_request (flock_Locker tlk c f me)) (gc_return (flock_Locker tlk c f me)) cs \<lparr>cl_world = w, cl_objs = []\<rparr> =
    job_answers N cs"
proof -
  have s: "fk_slots_of (fk_defaults f) = slots_of N"
    using assms(1) by (simp add: flock_fresh_def fk_slots_of_def slots_of_def)
  have "answers (gc_request (flock_Locker tlk c f me)) (gc_return (flock_Locker tlk c f me)) cs \<lparr>cl_world = w, cl_objs = []\<rparr> =
    table_answers (\<lambda>q. host_slots (slots_of N) (me, q)) (\<lambda>q. host_fails fk_ErrLocked (me, q)) lock_ErrLocked cs (\<lambda>_. None) 0"
    unfolding s[symmetric]
    by (rule gocron_flock_table)
      (use assms(1) plain_jobsD(2)[OF assms(2)] in \<open>simp_all add: flock_fresh_def flock_Locker_def\<close>)
  also have "\<dots> = job_answers N cs"
    by (rule job_answers_rename[where g = id])
      (use plain_jobsD(1)[OF assms(2)] in \<open>auto simp: host_slots_def job_slots_def host_fails_def\<close>)
  finally show ?thesis .
qed

lemma rd_slot_key_inject:
  assumes "i = - 1 \<and> j = - 1 \<or> 0 \<le> i \<and> 0 \<le> j"
  shows "rd_slot_key cfg n i = rd_slot_key cfg m j \<longleftrightarrow> n = m \<and> i = j"
  using assms itoa_after_inject[of i j "CHR '':''" n m]
  by (auto simp: rd_slot_key_def lockKey_def slotLockKey_def is_digit_def)

lemma redis_answers:
  assumes "redis_fresh H db rdb f N s" "plain_jobs cs"
  shows "answers (gc_request (redis_Locker H rdb f)) (gc_return (redis_Locker H rdb f)) cs \<lparr>cl_world = s, cl_objs = []\<rparr> =
    job_answers N cs"
proof -
  let ?cfg = "rd_defaults f"
  have f: "rd_quiet H db rdb" "rc_maxConcurrent ?cfg = N" "\<And>k. rd_plain ?cfg k \<Longrightarrow> rd_unheld db s k"
    using assms(1) by (simp_all add: redis_fresh_def rd_unheld_def)
  have pl: "\<forall>k \<in> set (rd_slot_keys ?cfg (snd q)). rd_plain ?cfg k" if "Ask q \<in> set cs" for q
    using rd_keys_plain plain_jobsD(3)[OF assms(2) that] by blast
  have "answers (gc_request (redis_Locker H rdb f)) (gc_return (redis_Locker H rdb f)) cs \<lparr>cl_world = s, cl_objs = []\<rparr> =
      table_answers (\<lambda>q. rd_slot_keys ?cfg (snd (case q of (ctx, n) \<Rightarrow> (background, n)))) (\<lambda>_. None) lock_ErrLocked cs (\<lambda>_. None) 0"
    unfolding redis_Locker_def
    by (rule rdl.proc.gocron_answers[where db = db, OF client_table_new, OF f(1,3)])
      (assumption, drule pl, simp add: case_prod_beta)
  also have "\<dots> = job_answers N cs"
    by (rule job_answers_rename[where g = "\<lambda>(n, i). rd_slot_key ?cfg n i", OF inj_job_rows])
      (use rd_slot_key_inject in \<open>auto simp: job_slots_def rd_slot_keys_def f(2)\<close>)
  finally show ?thesis .
qed

lemma et_slot_prefix_inject:
  assumes "i = - 1 \<and> j = - 1 \<or> 0 \<le> i \<and> 0 \<le> j"
  shows "et_slot_prefix cfg n i = et_slot_prefix cfg m j \<longleftrightarrow> n = m \<and> i = j"
  using assms itoa_after_inject[of i j "CHR ''/''" n m] by (auto simp: et_slot_prefix_def is_digit_def)

lemma etcd_answers:
  assumes "etcd_fresh H view cli f N s" "plain_jobs cs"
  shows "answers (gc_request (etcd_Locker H cli f)) (gc_return (etcd_Locker H cli f)) cs \<lparr>cl_world = s, cl_objs = []\<rparr> =
    job_answers N cs"
proof -
  let ?cfg = "et_defaults f"
  have f: "et_quiet H view cli \<and> et_tidy ?cfg (view s)" "ec_maxConcurrent ?cfg = N" "\<And>p. et_plain ?cfg p \<Longrightarrow> et_unheld view s p"
    using assms(1) by (simp_all add: etcd_fresh_def et_tidy_def et_unheld_def)
  have pl: "\<forall>p \<in> set (et_slot_prefixes ?cfg (snd q)). et_plain ?cfg p" if "Ask q \<in> set cs" for q
    using plain_jobsD(2)[OF assms(2) that] unfolding et_plain_def by blast
  have "answers (gc_request (etcd_Locker H cli f)) (gc_return (etcd_Locker H cli f)) cs \<lparr>cl_world = s, cl_objs = []\<rparr> =
      table_answers (\<lambda>q. et_slot_prefixes ?cfg (snd (case q of (ctx, n) \<Rightarrow> (background, n)))) (\<lambda>_. None) lock_ErrLocked cs (\<lambda>_. None) 0"
    unfolding etcd_Locker_def
    by (rule etl.proc.gocron_answers[where view = view, OF client_table_new, OF f(1,3)])
      (assumption, drule pl, simp add: case_prod_beta)
  also have "\<dots> = job_answers N cs"
    by (rule job_answers_rename[where g = "\<lambda>(n, i). et_slot_prefix ?cfg n i", OF inj_job_rows])
      (use et_slot_prefix_inject in \<open>auto simp: job_slots_def et_slot_prefixes_def f(2)\<close>)
  finally show ?thesis .
qed

lemma pg_answers:
  assumes "pg_fresh H view pool f N s" "inj_on (\<lambda>(n, i). pg_key (pg_defaults f) n i) (job_rows N cs)"
    and "plain_jobs cs"
  shows "answers (gc_request (pg_Locker H pool f)) (gc_return (pg_Locker H pool f)) cs \<lparr>cl_world = s, cl_objs = []\<rparr> =
    job_answers N cs"
proof -
  let ?cfg = "pg_defaults f"
  have f: "pg_quiet H view pool \<and> pg_tidy (view s)" "pc_maxConcurrent ?cfg = N" "\<And>k. pg_unheld view s k"
    using assms(1) by (simp_all add: pg_fresh_def pg_tidy_def pool_tidy_def pg_unheld_def)
  have "answers (gc_request (pg_Locker H pool f)) (gc_return (pg_Locker H pool f)) cs \<lparr>cl_world = s, cl_objs = []\<rparr> =
      table_answers (\<lambda>q. pg_slot_keys ?cfg (snd (case q of (ctx, n) \<Rightarrow> (background, n)))) (\<lambda>_. None) lock_ErrLocked cs (\<lambda>_. None) 0"
    unfolding pg_Locker_def
    by (rule pgl.proc.gocron_answers[where view = view, OF client_table_new, OF f(1,3)]) simp
  also have "\<dots> = job_answers N cs"
    by (rule job_answers_rename[OF assms(2)]) (auto simp: job_slots_def pg_slot_keys_def f(2))
  finally show ?thesis .
qed

lemma mem_answers:
  assumes "N \<le> 1" "plain_jobs cs"
  shows "answers (gc_request mem_Locker) (gc_return mem_Locker) cs mem_NewFactory = job_answers N cs"
proof -
  have "answers (gc_request mem_Locker) (gc_return mem_Locker) cs mem_NewFactory =
      table_answers (\<lambda>q. [snd q]) mem_fails lock_ErrLocked cs (\<lambda>_. None) 0"
    by (rule mlt.gocron_answers)
      (simp_all add: mem_table_def mem_live_def mem_NewFactory_def mem_inv_new[unfolded mem_NewFactory_def])
  also have "\<dots> = job_answers N cs"
    by (rule job_answers_rename[where g = fst])
      (use assms(1) plain_jobsD(1)[OF assms(2)] in \<open>auto simp: inj_on_def job_rows_def slots_of_def job_slots_def mem_fails_def\<close>)
  finally show ?thesis .
qed

section \<open>Properties\<close>


text \<open>All backends, with two slots per job.\<close>

lemma fresh_backends:
  "filelock_fresh (\<lambda>_. None) (fl_NewFactory ''/locks'' [fl_WithMaxConcurrent 2]) 4242 2 host_world"
  "flock_fresh tryLock_unix (fk_NewFactory ''/locks'' [fk_WithMaxConcurrent 2]) 2 host_world"
  "redis_fresh plain_host id mem_redis (rd_NewFactory [rd_WithMaxConcurrent 2]) 2 Map.empty"
  "pg_fresh plain_host mem_view (mem_pool False) (pg_NewFactory [pg_WithMaxConcurrent 2]) 2 \<lparr>pm_held = [], pm_busy = []\<rparr>"
  "etcd_fresh plain_host et_mem_view mem_etcd (et_NewFactory [et_WithMaxConcurrent 2]) 2
     \<lparr>em_live = [], em_keys = [], em_rev = 9, em_hdr = (\<lambda>_. 0)\<rparr>"
proof -
  have d: "fc_dir (fl_defaults (fl_NewFactory ''/locks'' [fl_WithMaxConcurrent 2])) = ''/locks''"
    by (simp only: two_slots) (simp add: fl_defaultConfig_def)
  show "filelock_fresh (\<lambda>_. None) (fl_NewFactory ''/locks'' [fl_WithMaxConcurrent 2]) 4242 2 host_world"
    unfolding filelock_fresh_def d using host_world_filelock host_world_markers(1) by (simp add: two_slots)
  show "flock_fresh tryLock_unix (fk_NewFactory ''/locks'' [fk_WithMaxConcurrent 2]) 2 host_world"
    unfolding flock_fresh_def using host_world_flock by (simp add: fk_NewFactory_def fk_WithMaxConcurrent_def)
  show "redis_fresh plain_host id mem_redis (rd_NewFactory [rd_WithMaxConcurrent 2]) 2 Map.empty"
    by (simp add: redis_fresh_def rd_NewFactory_def rd_WithMaxConcurrent_def)
  show "pg_fresh plain_host mem_view (mem_pool False) (pg_NewFactory [pg_WithMaxConcurrent 2]) 2 \<lparr>pm_held = [], pm_busy = []\<rparr>"
    by (simp add: pg_fresh_def pg_NewFactory_def pg_WithMaxConcurrent_def mem_view_def mem_pool_quiet)
  show "etcd_fresh plain_host et_mem_view mem_etcd (et_NewFactory [et_WithMaxConcurrent 2]) 2
      \<lparr>em_live = [], em_keys = [], em_rev = 9, em_hdr = (\<lambda>_. 0)\<rparr>"
    by (simp add: etcd_fresh_def et_NewFactory_def et_WithMaxConcurrent_def et_mem_view_def mem_etcd_quiet)
qed


end
