(* ===== verification/Filelock_Safety.thy ===== *)
theory Filelock_Safety
  imports Filelock_Props
begin

text \<open>
  Acquiring while others act: a marker whose holder runs is safe from every contender, whatever
  the environment does and whichever calls fail, as long as the environment leaves that marker
  and the contender's open files alone; and the two interleavings that are not safe, the race of
  two takeovers and the release by a holder whose marker was taken over.
\<close>

section \<open>What the environment leaves alone\<close>

text \<open>The marker file at \<open>path\<close>, by name, inode and contents, and its running process.\<close>

definition live_inv :: "string \<Rightarrow> nat \<Rightarrow> string \<Rightarrow> int \<Rightarrow> world \<Rightarrow> bool" where
  "live_inv path i s pid w \<longleftrightarrow>
     lookup w path = Some (FileEntry i) \<and> inodes w i = s \<and> 0 < i \<and> kill_res w pid = None"

definition spares :: "int \<Rightarrow> string \<Rightarrow> nat \<Rightarrow> string \<Rightarrow> int \<Rightarrow> ((world \<Rightarrow> world) \<times> fault) set" where
  "spares me path i s pid = {(g, f).
     (\<forall>w. live_inv path i s pid w \<longrightarrow> live_inv path i s pid (g w)) \<and>
     (\<forall>w fd j. map_of (fds w) fd = Some (me, j) \<longrightarrow> map_of (fds (g w)) fd = Some (me, j))}"

lemma step_live:
  "(g, f) \<in> steps (spares me path i s pid) \<Longrightarrow> live_inv path i s pid w \<Longrightarrow> live_inv path i s pid (g w)"
  by (auto simp: steps_def spares_def)

lemma step_fd:
  "(g, f) \<in> steps (spares me path i s pid) \<Longrightarrow> map_of (fds w) fd = Some (me, j) \<Longrightarrow>
     map_of (fds (g w)) fd = Some (me, j)"
  by (auto simp: steps_def spares_def)

lemma live_states [simp]:
  "live_inv path i s pid (with_fd me j w) = live_inv path i s pid w"
  "live_inv path i s pid (drop_fd fd w) = live_inv path i s pid w"
  by (simp_all add: live_inv_def with_fd_def open_fd_def drop_fd_def lookup_def)

lemma live_close: "live_inv path i s pid w \<Longrightarrow> live_inv path i s pid (fst (sys_close fd f w))"
  by (simp add: sys_close_def split: option.split)

lemma live_mkdir: "live_inv path i s pid w \<Longrightarrow> live_inv path i s pid (fst (sys_mkdir_all d f w))"
  using mkdir_keeps_file[of w path i d f]
  by (auto simp: live_inv_def sys_mkdir_all_def split: option.splits)

section \<open>A contender against a live marker\<close>

lemma wp_tryCreate_live:
  assumes "live_inv path i s pid w"
  shows "wp (spares me path i s pid) me (tryCreateMarker pl path cfg) (\<lambda>r w'. isl r \<and> live_inv path i s pid w') w"
proof -
  have "case sys_open_excl me path f (g w) of (w', r) \<Rightarrow> w' = g w \<and> isl r"
    if "(g, f) \<in> steps (spares me path i s pid)" for g f
    using step_live[OF that assms] by (cases f) (auto simp: live_inv_def)
  then show ?thesis
    using step_live[OF _ assms] by (fastforce simp: tryCreateMarker_def split: sum.split)
qed

lemma wp_readMarker_live:
  assumes "live_inv path i s pid w"
  shows "wp (spares me path i s pid) me (readMarker path)
    (\<lambda>d w'. live_inv path i s pid w' \<and> (\<forall>m. d = Inr m \<longrightarrow> parse_marker s = Inr m)) w"
proof -
  let ?E = "spares me path i s pid" and ?I = "live_inv path i s pid"
  let ?Q = "\<lambda>d w'. ?I w' \<and> (\<forall>m. d = Inr m \<longrightarrow> parse_marker s = Inr m)"
  have close: "wp ?E me (CloseFd fd (\<lambda>_. Ret d)) ?Q w'" if "?I w'" "\<forall>m. d = Inr m \<longrightarrow> parse_marker s = Inr m" for fd d w'
  proof -
    have "?I (fst (sys_close fd f (g w')))" if "(g, f) \<in> steps ?E" for g f
      using live_close step_live[OF that \<open>?I w'\<close>] by blast
    then show ?thesis using that(2) by (auto simp: case_prod_beta)
  qed
  have read: "wp ?E me (ReadAll fd (\<lambda>d. CloseFd fd (\<lambda>_. Ret (case d of
       Inl e \<Rightarrow> Inl (Wrap ''filelock: marker scan'' (Wrap (''read '' @ path) (Errno e))) | Inr t \<Rightarrow> parse_marker t)))) ?Q w'"
    if "?I w'" "map_of (fds w') fd = Some (me, i)" for fd w'
  proof -
    have "case sys_read_all fd f (g w') of (w2, r) \<Rightarrow> w2 = g w' \<and> (\<forall>t. r = Inr t \<longrightarrow> t = s)"
      if "(g, f) \<in> steps ?E" for g f
      using step_live[OF that \<open>?I w'\<close>] step_fd[OF that \<open>map_of (fds w') fd = Some (me, i)\<close>]
      by (cases f) (auto simp: sys_read_all_def live_inv_def)
    then show ?thesis
      using step_live[OF _ \<open>?I w'\<close>] unfolding wp.simps(14)
      by (fastforce intro!: close split: sum.splits)
  qed
  show ?thesis
    unfolding readMarker_def wp.simps(12) Let_def
  proof (rule ballI)
    fix gf assume gf: "gf \<in> steps ?E"
    obtain g f where p: "gf = (g, f)" by fastforce
    have I: "?I (g w)" using step_live[OF _ assms] gf p by blast
    show "case gf of (g, f) \<Rightarrow> case sys_open_rd me path f (g w) of (w', r) \<Rightarrow> wp ?E me (case r of
        Inl e \<Rightarrow> Ret (Inl (Wrap (''open '' @ path) (Errno e)))
      | Inr fd \<Rightarrow> ReadAll fd (\<lambda>d. CloseFd fd (\<lambda>_. Ret (case d of
          Inl e \<Rightarrow> Inl (Wrap ''filelock: marker scan'' (Wrap (''read '' @ path) (Errno e))) | Inr t \<Rightarrow> parse_marker t)))) ?Q w'"
    proof (cases f)
      case (Some e)
      then show ?thesis using I p by simp
    next
      case None
      have "sys_open_rd me path None (g w) = (with_fd me i (g w), Inr (next_fd (g w)))"
        using I by (simp add: live_inv_def)
      then show ?thesis using read[of "with_fd me i (g w)" "next_fd (g w)"] I None p by simp
    qed
  qed
qed

text \<open>Strategies under which a running holder of this host is never presumed dead.\<close>

definition trusts_pid :: "fl_config \<Rightarrow> bool" where
  "trusts_pid cfg \<longleftrightarrow> fc_strategy cfg = StaleStrategyPIDOnly \<or>
     fc_strategy cfg = StaleStrategyPIDFirst \<and> \<not> fc_staleAfterIsOn cfg"

text \<open>The start time is unknown to the platform, or was to the holder.\<close>

definition start_unknown :: "platform \<Rightarrow> marker \<Rightarrow> bool" where
  "start_unknown pl m \<longleftrightarrow> pl_isAlive pl = isAlive_unix \<and> (pl_startTime pl = startTime_other \<or> m_pidStart m = 0)"

lemma wp_isStale_live:
  assumes "live_inv path i s (m_pid m) w" "trusts_pid cfg" "start_unknown pl m"
  shows "wp (spares me path i s (m_pid m)) me (isStale pl m cfg) (\<lambda>st w'. \<not> st \<and> live_inv path i s (m_pid m) w') w"
proof -
  let ?E = "spares me path i s (m_pid m)" and ?I = "live_inv path i s (m_pid m)"
  have alive: "wp ?E me (probePID pl (m_pid m) (m_pidStart m)) (\<lambda>p w'. p \<noteq> probeDead \<and> ?I w') w'"
    if "?I w'" "0 < m_pid m" for w'
  proof -
    have "kill_res (g w') (m_pid m) = None" "?I (g w')" if "(g, f) \<in> steps ?E" for g f
      using step_live[OF that \<open>?I w'\<close>] by (simp_all add: live_inv_def)
    then show ?thesis using that(2) assms(3)
      by (auto simp: probePID_def start_unknown_def isAlive_unix_def startTime_other_def sys_kill_def isZero_def)
  qed
  have probe: "wp ?E me (probeMarker pl m) (\<lambda>p w'. p \<noteq> probeDead \<and> ?I w') w"
    using step_live[OF _ assms(1)] assms(1) alive
    by (auto simp: probeMarker_def hostname_def)
  have "wp ?E me (isStale pl m cfg) (\<lambda>st w'. \<not> st \<and> ?I w') w"
    using assms(2) unfolding trusts_pid_def isStale_def
    by (elim disjE conjE; simp) (rule wp_mono[OF probe]; auto simp: timeExpired_def split: probeResult.splits)+
  then show ?thesis .
qed

lemma wp_acquireMarker_live:
  assumes "live_inv path i s (m_pid m) w" "parse_marker s = Inr m" "trusts_pid cfg" "start_unknown pl m"
  shows "wp (spares me path i s (m_pid m)) me (acquireMarker pl path cfg)
    (\<lambda>r w'. isl r \<and> live_inv path i s (m_pid m) w') w"
proof -
  let ?E = "spares me path i s (m_pid m)" and ?I = "live_inv path i s (m_pid m)"
  let ?Q = "\<lambda>r w'. isl r \<and> ?I w'"
  have decide: "wp ?E me (decideMarker pl path cfg m) ?Q w'" if "?I w'" for w'
    unfolding decideMarker_def wp_bind
    by (rule wp_mono[OF wp_isStale_live[OF that assms(3,4)]]) auto
  have retry: "wp ?E me (bind (tryCreateMarker pl path cfg) (\<lambda>r2. case r2 of
                 Inr h \<Rightarrow> Ret (Inr h)
               | Inl err2 \<Rightarrow>
                   if \<not> errors_is err2 os_ErrExist then Ret (Inl err2) else Ret (Inl fl_ErrLocked))) ?Q w'"
    if "?I w'" for w'
    unfolding wp_bind by (rule wp_mono[OF wp_tryCreate_live[OF that]]) (auto split: sum.split)
  have after: "wp ?E me (bind (readMarker path) (\<lambda>d. case d of
           Inl readErr \<Rightarrow>
             if errors_is readErr os_ErrNotExist then
               bind (tryCreateMarker pl path cfg) (\<lambda>r2. case r2 of
                 Inr h \<Rightarrow> Ret (Inr h)
               | Inl err2 \<Rightarrow>
                   if \<not> errors_is err2 os_ErrExist then Ret (Inl err2) else Ret (Inl fl_ErrLocked))
             else Ret (Inl (Wrap ''filelock: read marker'' readErr))
         | Inr existing \<Rightarrow> decideMarker pl path cfg existing)) ?Q w'" if "?I w'" for w'
    unfolding wp_bind
    by (rule wp_mono[OF wp_readMarker_live[OF that]])
      (use assms(2) decide retry in \<open>auto split: sum.split simp del: wp_bind\<close>)
  show ?thesis
    unfolding acquireMarker_def wp_bind
    by (rule wp_mono[OF wp_tryCreate_live[OF assms(1)]])
      (use after in \<open>auto split: sum.split simp del: wp_bind\<close>)
qed

lemma islE: "isl r \<Longrightarrow> (\<And>e. r = Inl e \<Longrightarrow> P) \<Longrightarrow> P"
  by (cases r) auto

lemma wp_acquire_body_live:
  assumes "live_inv (markerPath (fc_dir cfg) name) i s (m_pid m) w" "parse_marker s = Inr m" "trusts_pid cfg"
    and "start_unknown pl m" "fc_maxConcurrent cfg \<le> 1"
  shows "wp (spares me (markerPath (fc_dir cfg) name) i s (m_pid m)) me (acquire_body pl name cfg)
    (\<lambda>r w'. isl r \<and> live_inv (markerPath (fc_dir cfg) name) i s (m_pid m) w') w"
proof -
  let ?p = "markerPath (fc_dir cfg) name"
  let ?E = "spares me ?p i s (m_pid m)" and ?I = "live_inv ?p i s (m_pid m)"
  let ?Q = "\<lambda>r w'. isl r \<and> ?I w'"
  have t: "trusts_pid (slot_cfg cfg (- 1))" using assms(3) by (simp add: trusts_pid_def slot_cfg_def)
  have sp: "slot_path (fc_dir cfg) name (- 1) = ?p" by (simp add: slot_path_def)
  have slot: "wp ?E me (acquireSlot pl name cfg (- 1)) ?Q w'" if "?I w'" for w'
    unfolding acquireSlot_alt wp_bind sp
    by (rule wp_mono[OF wp_acquireMarker_live[OF that assms(2) t assms(4)]]) (auto split: sum.split)
  have mk: "wp ?E me (MkdirAll (fc_dir cfg) (\<lambda>mkErr. case mkErr of
           Some e \<Rightarrow> Ret (Inl (Wrap ''filelock: mkdir'' (Errno e)))
         | None \<Rightarrow> acquireSlot pl name cfg (- 1))) ?Q w'" if "?I w'" for w'
    using live_mkdir[OF step_live[OF _ that]] slot by (fastforce simp: case_prod_beta split: option.split)
  show ?thesis
    using step_live[OF _ assms(1)] mk assms(5)
    by (auto simp: acquire_body_def split: option.split simp del: wp.simps(9))
qed

text \<open>A program that only reads the clock before it answers an error.\<close>

lemma wp_Now_err:
  assumes "live_inv path i s q w" "\<And>now. \<exists>e evs. k now = Ret (Inl e, evs)"
  shows "wp (spares me path i s q) me (Now k) (\<lambda>x w'. isl (fst x) \<and> live_inv path i s q w') w"
proof -
  have "wp (spares me path i s q) me (k (clock (g w))) (\<lambda>x w'. isl (fst x) \<and> live_inv path i s q w') (g w)"
    if g: "(g, f) \<in> steps (spares me path i s q)" for g f
  proof -
    obtain e evs where "k (clock (g w)) = Ret (Inl e, evs)" using assms(2) by blast
    then show ?thesis using step_live[OF g assms(1)] by simp
  qed
  then show ?thesis by auto
qed

text \<open>The whole acquire, in singleton mode.\<close>

lemma wp_acquire_live:
  assumes "live_inv (markerPath (fc_dir cfg) name) i s (m_pid m) w" "parse_marker s = Inr m" "trusts_pid cfg"
    and "start_unknown pl m" "fc_maxConcurrent cfg \<le> 1"
  shows "wp (spares me (markerPath (fc_dir cfg) name) i s (m_pid m)) me (fl_acquire pl c name cfg)
    (\<lambda>x w'. isl (fst x) \<and> live_inv (markerPath (fc_dir cfg) name) i s (m_pid m) w') w"
proof -
  let ?E = "spares me (markerPath (fc_dir cfg) name) i s (m_pid m)" and ?I = "live_inv (markerPath (fc_dir cfg) name) i s (m_pid m)"
  let ?cfg = "cfg\<lparr>fc_traceID := extract_trace (fc_observe cfg) c\<rparr>"
  have body: "wp ?E me (acquire_body pl name ?cfg) (\<lambda>r w'. isl r \<and> ?I w') w'" if "?I w'" for w'
    using wp_acquire_body_live[of ?cfg name i s m w' pl me] that assms(2-5) by (simp add: trusts_pid_def)
  have body': "wp ?E me (bind (acquire_body pl name ?cfg) k) (\<lambda>x w'. isl (fst x) \<and> ?I w') w'"
    if "?I w'" "\<And>r. isl r \<Longrightarrow> \<exists>k'. k r = Now k' \<and> (\<forall>now. \<exists>e evs. k' now = Ret (Inl e, evs))"
    for k :: "fl_holder res \<Rightarrow> (fl_holder res \<times> obs_event list) prog" and w'
    unfolding wp_bind
  proof (rule wp_mono[OF body[OF that(1)]])
    fix r :: "fl_holder res" and v assume r: "isl r \<and> ?I v"
    with that(2) obtain k' where k': "k r = Now k'" "\<And>now. \<exists>e evs. k' now = Ret (Inl e, evs)" by blast
    show "wp ?E me (k r) (\<lambda>x w'. isl (fst x) \<and> ?I w') v" unfolding k'(1) using wp_Now_err[OF conjunct2[OF r] k'(2)] .
  qed
  show ?thesis
    unfolding fl_acquire_def Let_def wp.simps(4)
    by (intro ballI, clarify, rule body', erule step_live[OF _ assms(1)], elim islE) (simp add: err_of_def)
qed



section \<open>Two takeovers of one stale marker\<close>

text \<open>What is left of an acquire when the marker has been found stale, undisturbed from there on.\<close>

lemma run_takeover_and_fence:
  assumes "quiet_platform pl" "ready dir w" "CHR ''/'' \<notin> set name" "\<not> is_dir w (fencePath dir name)"
    and "\<not> is_dir w (markerPath dir name)"
  shows "\<exists>m w'. run me (bind (takeoverMarker pl (markerPath dir name) cfg) (\<lambda>r. case r of
       Inl e \<Rightarrow> Ret (Inl e)
     | Inr h \<Rightarrow> bind (bumpFence ''filelock'' dir name) (\<lambda>t. Ret (Inr (h\<lparr>fh_token := t\<rparr>))))) [] w =
      (Inr ((fl_new_holder (markerPath dir name))\<lparr>fh_token := fence_value w (fencePath dir name) + 1\<rparr>), [], w') \<and>
    m_pid m = me \<and>
    effect w ((file_content w)(markerPath dir name \<mapsto> marker_text m,
      fencePath dir name \<mapsto> dec (unat (fence_value w (fencePath dir name) + 1)) @ [NL])) w'"
proof -
  let ?p = "markerPath dir name" and ?f = "fencePath dir name"
  note d = readyD(2)[OF assms(2)]
  have "temp_ok (path_dir ?p) ''.filelock-takeover-'' w"
    using ready_temp(2)[OF assms(2)] markerPath_dir[OF d assms(3)] by simp
  then obtain m w1 where t: "run me (takeoverMarker pl ?p cfg) [] w = (Inr (fl_new_holder ?p), [], w1)"
      "m_pid m = me" "effect w ((file_content w)(?p \<mapsto> marker_text m)) w1"
    using run_takeover[OF assms(1) readyD(1)[OF assms(2)] _ assms(5)] by blast
  have nd: "no_digit_end ?p" using slot_path_facts(3)[OF d assms(3), of "- 1"] by (simp add: slot_path_def)
  have r1: "ready dir w1" using ready_effect[OF assms(2) t(3)] nd by (metis fun_upd_apply)
  have v: "fence_value w1 ?f = fence_value w ?f"
    using effectD(2)[OF t(3)] marker_not_fence[OF assms(3,3), of dir] by (simp add: fence_value_def)
  have "temp_ok (path_dir ?f) (''.'' @ ''filelock'' @ ''-fence-'') w1"
    using ready_temp(1)[OF r1] fencePath_dir[OF d assms(3)] by simp
  then obtain w' where w': "run me (bumpFence ''filelock'' dir name) [] w1 = (fence_value w1 ?f + 1, [], w')"
      "effect w1 ((file_content w1)(?f \<mapsto> dec (unat (fence_value w1 ?f + 1)) @ [NL])) w'"
    using run_bumpFence[OF readyD(1)[OF r1], of dir name "''filelock''" me] assms(4) effectD(3)[OF t(3)] by auto
  have "effect w ((file_content w)(?p \<mapsto> marker_text m, ?f \<mapsto> dec (unat (fence_value w ?f + 1)) @ [NL])) w'"
    using effect_trans[OF t(3) w'(2)] by (simp only: v effectD(2)[OF t(3)])
  then show ?thesis using t w' by (intro exI[of _ m] exI[of _ w']) (simp add: v)
qed

text \<open>A marker left by a dead process of this host, in a world where its path can be locked.\<close>

definition left_dead :: "fl_config \<Rightarrow> string \<Rightarrow> string \<Rightarrow> marker \<Rightarrow> world \<Rightarrow> bool" where
  "left_dead cfg name s m w \<longleftrightarrow> ready (fc_dir cfg) w \<and> ctx_err w = None \<and> CHR ''/'' \<notin> set name \<and>
     \<not> is_dir w (fencePath (fc_dir cfg) name) \<and> fc_maxConcurrent cfg \<le> 1 \<and>
     file_content w (markerPath (fc_dir cfg) name) = Some s \<and> parse_marker s = Inr m \<and> 0 < m_pid m \<and> same_host w m \<and>
     kill_res w (m_pid m) = Some ESRCH \<and> fc_strategy cfg \<in> {StaleStrategyPIDFirst, StaleStrategyPIDOnly}"

lemma left_dead_bump [simp]: "left_dead cfg name s m w \<Longrightarrow> left_dead cfg name s m (bump_fd w)"
  using ready_drifts[OF drifts_bump] by (auto simp: left_dead_def same_host_def)

lemma left_dead_slots:
  assumes "left_dead cfg name s m w"
  shows "fl_slots_of cfg = [] @ (- 1) # []" "slot_path (fc_dir cfg) name (- 1) = markerPath (fc_dir cfg) name"
    and "no_digit_end (markerPath (fc_dir cfg) name)" "no_digit_end (fencePath (fc_dir cfg) name)"
proof -
  have d: "CHR ''/'' \<notin> set name" "fc_maxConcurrent cfg \<le> 1" "ready (fc_dir cfg) w"
    using assms by (simp_all add: left_dead_def)
  show "fl_slots_of cfg = [] @ (- 1) # []" "slot_path (fc_dir cfg) name (- 1) = markerPath (fc_dir cfg) name"
    using d(2) by (simp_all add: fl_slots_of_def slot_path_def)
  then show "no_digit_end (markerPath (fc_dir cfg) name)" "no_digit_end (fencePath (fc_dir cfg) name)"
    using slot_path_facts(3)[OF readyD(2)[OF d(3)] d(1), of "- 1"] slot_path_facts(4)[OF readyD(2)[OF d(3)] d(1)]
    by simp_all
qed

lemma isStale_dead:
  assumes "left_dead cfg name s m w"
  shows "run a (isStale darwin m cfg) ((id, None) # (id, None) # es) w = (True, es, w)"
proof -
  have "0 < m_pid m" "same_host w m" "kill_res w (m_pid m) = Some ESRCH" "fc_strategy cfg \<in> {StaleStrategyPIDFirst, StaleStrategyPIDOnly}"
    using assms by (simp_all add: left_dead_def)
  then show ?thesis
    by (auto simp: isStale_def probeMarker_def probePID_def hostname_def isAlive_unix_def
      sys_kill_def same_host_def local_host_def)
qed

lemma left_dead_won:
  assumes "left_dead cfg name s m w"
  obtains h ev w' i where "run b (fl_acquire darwin cb name cfg) [] w = ((Inr h, ev), [], w')"
    and "fh_path h = markerPath (fc_dir cfg) name" "fl_Token h = fence_value w (fencePath (fc_dir cfg) name) + 1"
    and "ready (fc_dir cfg) w'" "ctx_err w' = None" "\<not> is_dir w' (fencePath (fc_dir cfg) name)"
    and "lookup w' (markerPath (fc_dir cfg) name) = Some (FileEntry i)"
    and "fence_value w' (fencePath (fc_dir cfg) name) = fl_Token h"
proof -
  let ?p = "markerPath (fc_dir cfg) name" and ?f = "fencePath (fc_dir cfg) name"
  note sl = left_dead_slots[OF assms]
  have w: "ready (fc_dir cfg) w" "ctx_err w = None" "CHR ''/'' \<notin> set name" "\<not> is_dir w ?f"
    using assms by (simp_all add: left_dead_def)
  have "stale_at darwin b cfg w ?p"
    by (rule stale_at_dead[where s = s and m = m])
      (use assms readyD(1)[OF w(1)] in \<open>auto simp: left_dead_def same_host_def\<close>)
  then have "won_slot darwin b cb name cfg (- 1) w"
    using acquire_stale_slot[OF _ w(1) _ w(3) _ sl(1), of darwin b cb] w(2,4) sl(2) by simp
  then obtain h ev w' m' where h: "run b (fl_acquire darwin cb name cfg) [] w = ((Inr h, ev), [], w')"
      "fh_path h = ?p" "fl_Token h = fence_value w ?f + 1"
      "effect w ((file_content w)(?p \<mapsto> marker_text m', ?f \<mapsto> dec (unat (fl_Token h)) @ [NL])) w'"
    by (elim won_slotE) (simp add: sl)
  have r: "ready (fc_dir cfg) w'" by (rule ready_effect[OF w(1) h(4)]) (use sl in auto)
  obtain i where i: "lookup w' ?p = Some (FileEntry i)"
    using effectD(2)[OF h(4)] marker_not_fence[OF w(3,3)] by (metis file_content_Some fun_upd_apply)
  have "fence_value w' ?f = fl_Token h"
    by (rule fence_value_written) (simp add: effectD(2)[OF h(4)])
  then show ?thesis using that[OF h(1-3) r _ _ i] effectD(3,8)[OF h(4)] w(2,4) by simp
qed

text \<open>A contender whose takeover is preceded by another's whole acquire finishes as after it.\<close>

lemma run_late_takeover:
  assumes "left_dead cfg name s m w" "run a (bind (takeoverMarker darwin (markerPath (fc_dir cfg) name)
       (cfg\<lparr>fc_traceID := tr\<rparr>)) (\<lambda>r. case r of
       Inl e \<Rightarrow> Ret (Inl e)
     | Inr h \<Rightarrow> bind (bumpFence ''filelock'' (fc_dir cfg) name) (\<lambda>t. Ret (Inr (h\<lparr>fh_token := t\<rparr>))))) [] (g (bump_fd w)) =
       (Inr hA, [], w')"
  shows "run a (acquire_body darwin name (cfg\<lparr>fc_traceID := tr\<rparr>)) (replicate 8 (id, None) @ [(g, None)]) w = (Inr hA, [], w')"
proof -
  let ?p = "markerPath (fc_dir cfg) name" and ?cfg = "cfg\<lparr>fc_traceID := tr\<rparr>"
  note sl = left_dead_slots[OF assms(1)]
  have w: "ready (fc_dir cfg) w" "ctx_err w = None" "file_content w ?p = Some s" "parse_marker s = Inr m" "fc_maxConcurrent cfg \<le> 1"
    using assms(1) by (simp_all add: left_dead_def)
  let ?q = "bind (takeoverMarker darwin ?p ?cfg) (\<lambda>r. case r of
       Inl e \<Rightarrow> Ret (Inl e)
     | Inr h \<Rightarrow> bind (bumpFence ''filelock'' (fc_dir cfg) name) (\<lambda>t. Ret (Inr (h\<lparr>fh_token := t\<rparr>))))"
  have q: "run a ?q [(g, None)] (bump_fd w) = (Inr hA, [], w')"
    by (subst run_last_tick) (simp add: is_ret_def takeoverMarker_def, simp only: assms(2))
  let ?es = "replicate 6 (id, None) @ [(g, None)] :: env"
  have c4: "calm 4 ?es" "skip 4 ?es = [(id, None), (id, None), (g, None)]"
    by (simp_all add: eval_nat_numeral)
  have "left_dead ?cfg name s m (bump_fd w)"
    using left_dead_bump[OF assms(1)] by (simp add: left_dead_def)
  then have "run a (acquireSlot darwin name ?cfg (- 1)) ?es w = (Inr hA, [], w')"
    using run_acquireMarker_exists[OF c4(1) readyD(1)[OF w(1)] w(3), of a darwin ?cfg] w(4) q
      isStale_dead[of ?cfg name s m "bump_fd w" a "[(g, None)]"]
    by (cases "run a (takeoverMarker darwin ?p ?cfg) [(g, None)] (bump_fd w)")
      (auto simp: acquireSlot_alt sl slot_cfg_def c4(2) decideMarker_def split: sum.splits)
  moreover have "replicate 8 (id, None) @ [(g, None)] = (id, None) # (id, None) # ?es"
    by (simp add: eval_nat_numeral)
  ultimately show ?thesis
    using w(2,5) readyD[OF w(1)] by (simp add: acquire_body_def)
qed

text \<open>C20: Reading the stale marker and replacing it are not one step, and the replacement does not
  check what it replaces: if another contender's whole acquire runs between the two, both are
  answered a holder for the same path.  Only the fencing tokens, one apart, tell them from each
  other.\<close>

theorem filelock_takeover_race:
  assumes "ready (fc_dir cfg) w" "ctx_err w = None" "CHR ''/'' \<notin> set name"
    and "\<not> is_dir w (fencePath (fc_dir cfg) name)" "fc_maxConcurrent cfg \<le> 1"
    and "file_content w (markerPath (fc_dir cfg) name) = Some s" "parse_marker s = Inr m" "0 < m_pid m" "same_host w m"
    and "kill_res w (m_pid m) = Some ESRCH" "fc_strategy cfg \<in> {StaleStrategyPIDFirst, StaleStrategyPIDOnly}"
    and "g = (\<lambda>w1. snd (snd (run b (fl_acquire darwin cb name cfg) [] w1)))"
  shows "\<exists>hA evA hB evB w'. fst (run b (fl_acquire darwin cb name cfg) [] (bump_fd w)) = (Inr hB, evB) \<and>
    run a (fl_acquire darwin ca name cfg) (replicate 9 (id, None) @ [(g, None)]) w = ((Inr hA, evA), [], w') \<and>
    fh_path hA = markerPath (fc_dir cfg) name \<and> fh_path hB = fh_path hA \<and>
    fl_Token hB = fence_value w (fencePath (fc_dir cfg) name) + 1 \<and> fl_Token hA = fl_Token hB + 1"
proof -
  let ?p = "markerPath (fc_dir cfg) name" and ?f = "fencePath (fc_dir cfg) name"
  let ?cfg = "cfg\<lparr>fc_traceID := extract_trace (fc_observe cfg) ca\<rparr>"
  have dead: "left_dead cfg name s m w" using assms by (simp add: left_dead_def)
  obtain hB evB wB i where B: "run b (fl_acquire darwin cb name cfg) [] (bump_fd w) = ((Inr hB, evB), [], wB)"
      "fh_path hB = ?p" "fl_Token hB = fence_value (bump_fd w) ?f + 1" "ready (fc_dir cfg) wB"
      "\<not> is_dir wB ?f" "lookup wB ?p = Some (FileEntry i)" "fence_value wB ?f = fl_Token hB"
    using left_dead_won[OF left_dead_bump[OF dead]] by metis
  have dir: "\<not> is_dir wB ?p" using B(6) by (simp add: is_dir_def)
  obtain w' where A: "run a (bind (takeoverMarker darwin ?p ?cfg) (\<lambda>r. case r of
       Inl e \<Rightarrow> Ret (Inl e)
     | Inr h \<Rightarrow> bind (bumpFence ''filelock'' (fc_dir cfg) name) (\<lambda>t. Ret (Inr (h\<lparr>fh_token := t\<rparr>))))) [] wB =
      (Inr ((fl_new_holder ?p)\<lparr>fh_token := fl_Token hB + 1\<rparr>), [], w')"
    using run_takeover_and_fence[OF _ B(4) assms(3) B(5) dir, of darwin a ?cfg] B(7) by auto
  have gB: "g (bump_fd w) = wB" by (simp add: assms(12) B(1))
  have "run a (acquire_body darwin name ?cfg) (replicate 8 (id, None) @ [(g, None)]) w =
      (Inr ((fl_new_holder ?p)\<lparr>fh_token := fl_Token hB + 1\<rparr>), [], w')"
    by (rule run_late_takeover[OF dead]) (simp only: gB A)
  then have "\<exists>hA evA. run a (fl_acquire darwin ca name cfg) ((id, None) # replicate 8 (id, None) @ [(g, None)]) w = ((Inr hA, evA), [], w') \<and>
      fh_path hA = ?p \<and> fl_Token hA = fl_Token hB + 1"
    by (simp add: fl_acquire_def Let_def err_of_def fl_new_holder_def fl_Token_def)
  moreover have "(replicate 9 (id, None) @ [(g, None)] :: env) = (id, None) # replicate 8 (id, None) @ [(g, None)]"
    by (simp add: eval_nat_numeral)
  ultimately have "\<exists>hA evA. run a (fl_acquire darwin ca name cfg) (replicate 9 (id, None) @ [(g, None)]) w = ((Inr hA, evA), [], w') \<and>
      fh_path hA = ?p \<and> fl_Token hA = fl_Token hB + 1"
    by (simp only:)
  then show ?thesis using B by (auto simp: fence_value_def)
qed

theorem filelock_takeover_race_witness:
  "\<exists>hA evA hB evB w'. fst (run 8 (fl_acquire darwin (\<lambda>_. None) ''job'' (fl_defaultConfig ''/locks'')) [] (bump_fd (held_world 99))) = (Inr hB, evB) \<and>
     run 7 (fl_acquire darwin (\<lambda>_. None) ''job'' (fl_defaultConfig ''/locks'')) (replicate 9 (id, None) @
       [(\<lambda>w1. snd (snd (run 8 (fl_acquire darwin (\<lambda>_. None) ''job'' (fl_defaultConfig ''/locks'')) [] w1)), None)]) (held_world 99)
       = ((Inr hA, evA), [], w') \<and> fh_path hA = fh_path hB"
proof -
  have a: "fc_dir (fl_defaultConfig ''/locks'') = ''/locks''" by (simp add: fl_defaultConfig_def)
  have p: "parse_marker (marker_text (host_marker 99)) = Inr (host_marker 99)" by (simp add: int64_range_def)
  have h: "same_host (held_world 99) (host_marker 99)" "kill_res (held_world 99) (m_pid (host_marker 99)) = Some ESRCH"
    "ctx_err (held_world 99) = None" "\<not> is_dir (held_world 99) (fencePath (fc_dir (fl_defaultConfig ''/locks'')) ''job'')"
    by (simp_all add: same_host_def local_host_def held_world_def is_dir_def fl_defaultConfig_def)
  have c: "CHR ''/'' \<notin> set ''job''" "fc_maxConcurrent (fl_defaultConfig ''/locks'') \<le> 1" "0 < m_pid (host_marker 99)"
    "fc_strategy (fl_defaultConfig ''/locks'') \<in> {StaleStrategyPIDFirst, StaleStrategyPIDOnly}"
    by (simp_all add: fl_defaultConfig_def)
  have r: "ready (fc_dir (fl_defaultConfig ''/locks'')) (held_world 99)" and
    m: "file_content (held_world 99) (markerPath (fc_dir (fl_defaultConfig ''/locks'')) ''job'') = Some (marker_text (host_marker 99))"
    by (simp_all add: a)
  show ?thesis
    using filelock_takeover_race[OF r h(3) c(1) h(4) c(2) m p c(3) h(1,2) c(4) refl, of 8 "\<lambda>_. None" 7 "\<lambda>_. None"]
    by metis
qed

section \<open>Release by an evicted holder\<close>

text \<open>C29: \<open>Release\<close> does not look at what it removes.  A holder whose marker was taken over, or a
  process that makes a holder for the path, deletes the marker that stands there, whoever wrote
  it and however alive its writer is, reports success, and the next contender gets the lock.\<close>

theorem filelock_evicted_release:
  assumes "ready (fc_dir cfg) w" "ctx_err w = None" "CHR ''/'' \<notin> set name"
    and "\<not> is_dir w (fencePath (fc_dir cfg) name)" "fc_maxConcurrent cfg \<le> 1"
    and "file_content w (markerPath (fc_dir cfg) name) = Some s"
    and "fh_path h = markerPath (fc_dir cfg) name" "\<not> fh_released h"
  shows "\<exists>evA w' hC evC. run a (fl_Release h) [] w = ((None, h\<lparr>fh_released := True\<rparr>, evA), [], w') \<and>
    fst (run c (fl_acquire darwin cc name cfg) [] w') = (Inr hC, evC) \<and>
    fh_path hC = markerPath (fc_dir cfg) name \<and> fl_Token hC = fence_value w (fencePath (fc_dir cfg) name) + 1"
proof -
  let ?p = "markerPath (fc_dir cfg) name" and ?f = "fencePath (fc_dir cfg) name"
  have sl: "fl_slots_of cfg = [] @ (- 1) # []" "slot_path (fc_dir cfg) name (- 1) = ?p"
    using assms(5) by (simp_all add: fl_slots_of_def slot_path_def)
  have nd: "\<not> is_dir w (fh_path h)" using assms(6,7) by (auto simp: file_content_Some is_dir_def)
  obtain evA w' where A: "run a (fl_Release h) [] w = ((None, h\<lparr>fh_released := True\<rparr>, evA), [], w')"
      "effect w ((file_content w)(?p := None)) w'"
    using run_Release_quiet[OF readyD(1)[OF assms(1)] assms(8) nd, of a] assms(7) by auto
  have pf: "no_digit_end ?p" "?p \<noteq> ?f"
    using slot_path_facts(3)[OF readyD(2)[OF assms(1)] assms(3), of "- 1"] marker_not_fence[OF assms(3,3)]
    by (simp_all add: sl)
  have r: "ready (fc_dir cfg) w'" by (rule ready_effect[OF assms(1) A(2)]) (use pf in auto)
  have "\<not> is_dir w' ?f" "ctx_err w' = None" "lookup w' ?p = None"
    using effectD(2,3,8)[OF A(2)] assms(2,4,7) nd by (simp_all add: lookup_None_iff)
  then have "won_slot darwin c cc name cfg (- 1) w'"
    using acquire_free_slot[OF _ r _ assms(3) _ sl(1), of darwin c cc] sl(2) by simp
  then obtain hC evC wC where "run c (fl_acquire darwin cc name cfg) [] w' = ((Inr hC, evC), [], wC)" "fh_path hC = ?p"
      "fl_Token hC = fence_value w' ?f + 1"
    by (elim won_slotE) (simp add: sl)
  moreover have "fence_value w' ?f = fence_value w ?f"
    using effectD(2)[OF A(2)] pf(2) by (simp add: fence_value_def)
  ultimately show ?thesis using A(1) by auto
qed

theorem filelock_evicted_release_witness:
  "\<exists>h' evA w' hC evC. run 7 (fl_Release (fl_new_holder ''/locks/job.lock'')) [] (held_world 4242) = ((None, h', evA), [], w') \<and>
     fst (run 9 (fl_acquire darwin (\<lambda>_. None) ''job'' (fl_defaultConfig ''/locks'')) [] w') = (Inr hC, evC) \<and>
     kill_res (held_world 4242) 4242 = None"
proof -
  have a: "fc_dir (fl_defaultConfig ''/locks'') = ''/locks''" by (simp add: fl_defaultConfig_def)
  have h: "ready (fc_dir (fl_defaultConfig ''/locks'')) (held_world 4242)" "ctx_err (held_world 4242) = None"
    "\<not> is_dir (held_world 4242) (fencePath (fc_dir (fl_defaultConfig ''/locks'')) ''job'')"
    "file_content (held_world 4242) (markerPath (fc_dir (fl_defaultConfig ''/locks'')) ''job'') = Some (marker_text (host_marker 4242))"
    "fh_path (fl_new_holder ''/locks/job.lock'') = markerPath (fc_dir (fl_defaultConfig ''/locks'')) ''job''"
    by (simp_all add: a is_dir_def fl_new_holder_def)
  have c: "CHR ''/'' \<notin> set ''job''" "fc_maxConcurrent (fl_defaultConfig ''/locks'') \<le> 1"
    "\<not> fh_released (fl_new_holder ''/locks/job.lock'')"
    by (simp_all add: fl_defaultConfig_def fl_new_holder_def)
  have "kill_res (held_world 4242) 4242 = None" by (simp add: held_world_def)
  then show ?thesis
    using filelock_evicted_release[OF h(1,2) c(1) h(3) c(2) h(4,5) c(3), of 7 9 "\<lambda>_. None"] by metis
qed

end
