(* ===== verification/Filelock_Sweep.thy ===== *)
theory Filelock_Sweep
  imports Filelock_Safety "HOL-Library.Multiset"
begin

text \<open>
  \<open>filelock/sweep.go\<close>: the walk over the directory that removes stale markers.  Undisturbed it
  removes exactly the stale ones and counts them; under interference it never touches the marker
  of a running process; and it can still delete a marker that was fresh when it was removed.
\<close>

section \<open>The programs\<close>

text \<open>
  The second look at a marker that was found stale, and its removal.  The code tells a marker that
  is already gone from other errors of the removal and answers the same in both cases.
\<close>

definition reclaim_again :: "string \<Rightarrow> marker \<Rightarrow> bool prog" where
  "reclaim_again path m1 =
     bind (readMarker path) (\<lambda>d2. case d2 of
       Inl err \<Rightarrow> Ret False
     | Inr m2 \<Rightarrow>
         if m_acquired m2 \<noteq> m_acquired m1 \<or> m_pid m2 \<noteq> m_pid m1 then Ret False
         else RemovePath path (\<lambda>r. case r of
           Some e \<Rightarrow> Ret False
         | None \<Rightarrow> Ret True))"

definition reclaimOne :: "platform \<Rightarrow> string \<Rightarrow> fl_config \<Rightarrow> bool prog" where
  "reclaimOne pl path cfg =
     bind (readMarker path) (\<lambda>d1. case d1 of
       Inl err \<Rightarrow> Ret False
     | Inr m1 \<Rightarrow>
         bind (isStale pl m1 cfg) (\<lambda>stale. if \<not> stale then Ret False else reclaim_again path m1))"

fun sweep_loop :: "platform \<Rightarrow> fl_config \<Rightarrow> nat \<Rightarrow> (string \<times> bool) list \<Rightarrow> (nat \<times> err) prog" where
  "sweep_loop pl cfg reclaimed [] = Ret (reclaimed, None)"
| "sweep_loop pl cfg reclaimed ((name, isDir) # entries) =
     CtxErr (\<lambda>ctxErr. case ctxErr of
       Some e \<Rightarrow> Ret (reclaimed, Some e)
     | None \<Rightarrow>
         if isDir then sweep_loop pl cfg reclaimed entries
         else if \<not> suffix ''.lock'' name then sweep_loop pl cfg reclaimed entries
         else bind (reclaimOne pl (path_join (fc_dir cfg) name) cfg) (\<lambda>b.
           sweep_loop pl cfg (if b then reclaimed + 1 else reclaimed) entries))"

definition fl_Sweep :: "platform \<Rightarrow> fl_factory \<Rightarrow> (nat \<times> err) prog" where
  "fl_Sweep pl f =
     (let cfg = fl_defaults f in
        ReadDir (fc_dir cfg) (\<lambda>r. case r of
          Inl e \<Rightarrow> Ret (0, Some (Wrap ''filelock: sweep readdir'' (Errno e)))
        | Inr entries \<Rightarrow> sweep_loop pl cfg 0 entries))"

section \<open>One marker\<close>

text \<open>States that differ only in what lock files there are, and what they hold.\<close>

definition lockish :: "string \<Rightarrow> bool" where
  "lockish p \<longleftrightarrow> suffix ''.lock'' p"

definition sweeps :: "world \<Rightarrow> world \<Rightarrow> bool" where
  "sweeps w w' \<longleftrightarrow> (\<exists>fc. effect w fc w' \<and> (\<forall>p. fc p \<noteq> file_content w p \<longrightarrow> lockish p))"

lemma sweeps_refl: "wf_world w \<Longrightarrow> sweeps w w"
  unfolding sweeps_def by (intro exI[of _ "file_content w"]) (simp add: effect_def)

lemma sweeps_trans: "sweeps w w' \<Longrightarrow> sweeps w' w'' \<Longrightarrow> sweeps w w''"
  unfolding sweeps_def by (metis effectD(2) effect_trans)

lemma sweeps_drifts: "drifts w w' \<Longrightarrow> wf_world w \<Longrightarrow> sweeps w w'"
  unfolding sweeps_def using drifts_effect by blast

lemma sweepsD:
  assumes "sweeps w w'"
  shows "wf_world w'" "is_dir w' = is_dir w" "same_env w w'"
  using assms unfolding sweeps_def by (auto dest: effectD)

text \<open>
  A marker the sweep takes: it parses and stays stale while other lock files come and go.  One
  it leaves: there is none, it does not parse, or it stays not stale.
\<close>

definition sweepable :: "platform \<Rightarrow> int \<Rightarrow> fl_config \<Rightarrow> world \<Rightarrow> string \<Rightarrow> bool" where
  "sweepable pl me cfg w path \<longleftrightarrow> (\<exists>s m. file_content w path = Some s \<and> parse_marker s = Inr m \<and>
     (\<forall>w'. sweeps w w' \<longrightarrow> fst (run me (isStale pl m cfg) [] w')))"

definition spared :: "platform \<Rightarrow> int \<Rightarrow> fl_config \<Rightarrow> world \<Rightarrow> string \<Rightarrow> bool" where
  "spared pl me cfg w path \<longleftrightarrow> (\<forall>s m. file_content w path = Some s \<longrightarrow> parse_marker s = Inr m \<longrightarrow>
     (\<forall>w'. sweeps w w' \<longrightarrow> \<not> fst (run me (isStale pl m cfg) [] w')))"

lemma sweeps_keep:
  assumes "sweeps w w'" "file_content w' p = file_content w p"
  shows "sweepable pl me cfg w p \<Longrightarrow> sweepable pl me cfg w' p" "spared pl me cfg w p \<Longrightarrow> spared pl me cfg w' p"
  using assms sweeps_trans[OF assms(1)] unfolding sweepable_def spared_def by metis+

lemma run_readMarker_quiet:
  assumes "wf_world w" "\<not> is_dir w path"
  shows "\<exists>d w'. run me (readMarker path) [] w = (d, [], w') \<and> drifts w w' \<and>
    (\<forall>m. d = Inr m \<longleftrightarrow> (\<exists>s. file_content w path = Some s \<and> parse_marker s = Inr m))"
proof (cases "file_content w path")
  case None
  with assms(2) have "lookup w path = None" by (simp add: lookup_None_iff)
  then show ?thesis using None by (simp add: readMarker_def)
next
  case (Some s)
  then show ?thesis using run_readMarker[OF calm_Nil assms(1) Some, of me] by (auto intro!: drifts_bump)
qed

lemma run_reclaim_stale:
  assumes "quiet_platform pl" "wf_world w" "sweepable pl me cfg w path"
  shows "\<exists>w'. run me (reclaimOne pl path cfg) [] w = (True, [], w') \<and>
    effect w ((file_content w)(path := None)) w'"
proof -
  obtain s m where m: "file_content w path = Some s" "parse_marker s = Inr m"
      "\<And>w'. sweeps w w' \<Longrightarrow> fst (run me (isStale pl m cfg) [] w')"
    using assms(3) by (auto simp: sweepable_def)
  have r: "run me (readMarker path) [] w' = (Inr m, [], bump_fd w')" if "drifts w w'" for w'
    using run_readMarker[OF calm_Nil drifts_wf[OF that assms(2)], of path s me] m(1,2) drifts_eqs(2)[OF that]
    by simp
  have wb: "wf_world (bump_fd w)" using assms(2) by simp
  obtain st w1 where st: "run me (isStale pl m cfg) [] (bump_fd w) = (st, [], w1)" "drifts (bump_fd w) w1"
    using reads_only_isStale[OF assms(1)] wb unfolding reads_only_def by blast
  have "st" using m(3)[OF sweeps_drifts[OF drifts_bump assms(2)]] st(1) by simp
  have d: "drifts w w1" "drifts w (bump_fd w1)" using drifts_trans[OF drifts_bump st(2)] drifts_trans drifts_bump by blast+
  have wf: "wf_world (bump_fd w1)" using drifts_wf[OF d(2) assms(2)] .
  obtain i where "lookup (bump_fd w1) path = Some (FileEntry i)"
    using m(1) drifts_eqs(1)[OF d(2)] by (auto simp: file_content_Some)
  then have "run me (reclaimOne pl path cfg) [] w = (True, [], del_name path (bump_fd w1))"
    using r[OF drifts_refl] r[OF d(1)] st(1) \<open>st\<close> by (simp add: reclaimOne_def reclaim_again_def)
  moreover have "effect (bump_fd w1) ((file_content (bump_fd w1))(path := None)) (del_name path (bump_fd w1))"
    using wf \<open>lookup (bump_fd w1) path = Some (FileEntry i)\<close> by (auto simp: effect_def is_dir_def)
  ultimately show ?thesis
    using effect_trans[OF drifts_effect[OF d(2) assms(2)]] drifts_eqs(2)[OF d(2)] by auto
qed

lemma run_reclaim_spared:
  assumes "quiet_platform pl" "wf_world w" "spared pl me cfg w path" "\<not> is_dir w path"
  shows "\<exists>w'. run me (reclaimOne pl path cfg) [] w = (False, [], w') \<and> drifts w w'"
proof -
  obtain d w1 where d: "run me (readMarker path) [] w = (d, [], w1)" "drifts w w1"
      "\<And>m. d = Inr m \<longleftrightarrow> (\<exists>s. file_content w path = Some s \<and> parse_marker s = Inr m)"
    using run_readMarker_quiet[OF assms(2,4)] by blast
  show ?thesis
  proof (cases d)
    case (Inl e)
    then show ?thesis using d by (auto simp: reclaimOne_def)
  next
    case (Inr m)
    obtain st w2 where st: "run me (isStale pl m cfg) [] w1 = (st, [], w2)" "drifts w1 w2"
      using reads_only_isStale[OF assms(1)] drifts_wf[OF d(2) assms(2)] unfolding reads_only_def by blast
    have "\<not> st"
      using assms(3) d(3)[of m] Inr st(1) sweeps_drifts[OF d(2) assms(2)] unfolding spared_def by fastforce
    then show ?thesis using d(1,2) Inr st drifts_trans by (auto simp: reclaimOne_def)
  qed
qed

section \<open>The loop\<close>

lemma sweepable_not_spared: "wf_world w \<Longrightarrow> sweepable pl me cfg w p \<Longrightarrow> \<not> spared pl me cfg w p"
  using sweeps_refl unfolding sweepable_def spared_def by blast

lemma sweepable_kept:
  assumes "sweeps w w'" "file_content w' p = file_content w p" "sweepable pl me cfg w p \<or> spared pl me cfg w p"
  shows "sweepable pl me cfg w' p = sweepable pl me cfg w p"
    "sweepable pl me cfg w' p \<or> spared pl me cfg w' p"
  using assms sweeps_keep[OF assms(1,2)] sweepable_not_spared[OF sweepsD(1)[OF assms(1)]] by blast+

definition gone :: "platform \<Rightarrow> int \<Rightarrow> fl_config \<Rightarrow> world \<Rightarrow> string \<times> bool \<Rightarrow> bool" where
  "gone pl me cfg w e \<longleftrightarrow> \<not> snd e \<and> suffix ''.lock'' (fst e) \<and> sweepable pl me cfg w (path_join (fc_dir cfg) (fst e))"

definition settled :: "platform \<Rightarrow> int \<Rightarrow> fl_config \<Rightarrow> world \<Rightarrow> string \<times> bool \<Rightarrow> bool" where
  "settled pl me cfg w e \<longleftrightarrow> CHR ''/'' \<notin> set (fst e) \<and>
     (\<not> snd e \<longrightarrow> suffix ''.lock'' (fst e) \<longrightarrow>
        \<not> is_dir w (path_join (fc_dir cfg) (fst e)) \<and>
        (sweepable pl me cfg w (path_join (fc_dir cfg) (fst e)) \<or> spared pl me cfg w (path_join (fc_dir cfg) (fst e))))"

lemma lock_name_path:
  assumes "CHR ''/'' \<notin> set n" "suffix ''.lock'' n"
  shows "path_join dir n = join_prefix dir @ n" "lockish (path_join dir n)"
proof -
  obtain x where "n = x @ ''.lock''" "CHR ''/'' \<notin> set x" using assms by (auto simp: suffix_def)
  then show "path_join dir n = join_prefix dir @ n" using path_join_plain[OF plain_ext(1)] by simp
  with assms(2) show "lockish (path_join dir n)" by (simp add: lockish_def suffix_append)
qed

lemma run_reclaim:
  assumes "quiet_platform pl" "wf_world w" "\<not> is_dir w p" "sweepable pl me cfg w p \<or> spared pl me cfg w p"
  obtains w1 where "run me (reclaimOne pl p cfg) [] w = (sweepable pl me cfg w p, [], w1)"
    "effect w ((file_content w)(p := if sweepable pl me cfg w p then None else file_content w p)) w1"
proof (cases "sweepable pl me cfg w p")
  case True
  obtain w1 where "run me (reclaimOne pl p cfg) [] w = (True, [], w1)" "effect w ((file_content w)(p := None)) w1"
    using run_reclaim_stale[OF assms(1,2) True] by blast
  with True show ?thesis by (intro that[of w1]) simp_all
next
  case False
  then obtain w1 where w1: "run me (reclaimOne pl p cfg) [] w = (False, [], w1)" "drifts w w1"
    using assms(4) run_reclaim_spared[OF assms(1,2) _ assms(3)] by blast
  have "effect w (file_content w) w1" using drifts_effect[OF w1(2) assms(2)] .
  with w1(1) False show ?thesis by (intro that[of w1]) simp_all
qed

text \<open>What becomes of one lock file leaves the verdict on the other entries as it was.\<close>

lemma settled_rest:
  assumes "effect w ((file_content w)(path_join (fc_dir cfg) n := v)) w1" "v = None \<or> v = file_content w (path_join (fc_dir cfg) n)"
    and "CHR ''/'' \<notin> set n" "suffix ''.lock'' n" "settled pl me cfg w e" "fst e \<noteq> n"
  shows "settled pl me cfg w1 e" "gone pl me cfg w1 e = gone pl me cfg w e"
proof -
  let ?p = "path_join (fc_dir cfg) n" and ?q = "path_join (fc_dir cfg) (fst e)"
  have sw: "sweeps w w1"
    unfolding sweeps_def
    by (rule exI, rule conjI, rule assms(1)) (use lock_name_path(2)[OF assms(3,4)] assms(2) in \<open>auto split: if_splits\<close>)
  have "settled pl me cfg w1 e \<and> gone pl me cfg w1 e = gone pl me cfg w e"
  proof (cases "\<not> snd e \<and> suffix ''.lock'' (fst e)")
    case False
    then show ?thesis using assms(5) by (auto simp: settled_def gone_def)
  next
    case True
    have "?q \<noteq> ?p"
      using assms(5,6) lock_name_path(1)[OF assms(3,4)] lock_name_path(1)[of "fst e" "fc_dir cfg"] True by (auto simp: settled_def)
    then have "file_content w1 ?q = file_content w ?q" using effectD(2)[OF assms(1)] by simp
    moreover have "sweepable pl me cfg w ?q \<or> spared pl me cfg w ?q" using True assms(5) by (auto simp: settled_def)
    ultimately show ?thesis using sweepable_kept[OF sw] True sweepsD(2)[OF sw] assms(5) by (simp add: settled_def gone_def)
  qed
  then show "settled pl me cfg w1 e" "gone pl me cfg w1 e = gone pl me cfg w e" by blast+
qed

text \<open>The files once the entries \<open>es\<close> have been looked at.\<close>

definition swept :: "platform \<Rightarrow> int \<Rightarrow> fl_config \<Rightarrow> world \<Rightarrow> (string \<times> bool) list \<Rightarrow> string \<Rightarrow> string option" where
  "swept pl me cfg w es p =
     (if \<exists>e \<in> set es. gone pl me cfg w e \<and> p = path_join (fc_dir cfg) (fst e) then None else file_content w p)"

lemma run_sweep_loop:
  assumes "quiet_platform pl" "wf_world w" "ctx_err w = None" "distinct (map fst es)"
    and "\<forall>e \<in> set es. settled pl me cfg w e"
  shows "\<exists>w'. run me (sweep_loop pl cfg k es) [] w = ((k + length (filter (gone pl me cfg w) es), None), [], w') \<and>
    effect w (swept pl me cfg w es) w'"
  using assms(2-)
proof (induction es arbitrary: k w)
  case Nil
  then show ?case by (simp add: effect_def swept_def fun_eq_iff)
next
  case (Cons x es)
  obtain n d where x: "x = (n, d)" by fastforce
  let ?p = "path_join (fc_dir cfg) n"
  have here: "settled pl me cfg w (n, d)" and rest: "\<forall>e \<in> set es. settled pl me cfg w e"
    and dist: "n \<notin> fst ` set es" "distinct (map fst es)"
    using Cons.prems x by auto
  show ?case
  proof (cases "\<not> d \<and> suffix ''.lock'' n")
    case False
    then have g: "\<not> gone pl me cfg w (n, d)" by (auto simp: gone_def)
    then have "swept pl me cfg w (x # es) = swept pl me cfg w es" by (simp add: swept_def fun_eq_iff x)
    with Cons.IH[OF Cons.prems(1,2) dist(2) rest, of k] g False x Cons.prems(2) show ?thesis by auto
  next
    case True
    have n: "CHR ''/'' \<notin> set n" "\<not> is_dir w ?p" "sweepable pl me cfg w ?p \<or> spared pl me cfg w ?p"
      using here True by (auto simp: settled_def)
    let ?b = "sweepable pl me cfg w ?p" and ?v = "if sweepable pl me cfg w ?p then None else file_content w ?p"
    obtain w1 where b: "run me (reclaimOne pl ?p cfg) [] w = (?b, [], w1)" "effect w ((file_content w)(?p := ?v)) w1"
      using run_reclaim[OF assms(1) Cons.prems(1) n(2,3)] .
    have v: "?v = None \<or> ?v = file_content w ?p" by simp
    have st: "settled pl me cfg w1 e" "gone pl me cfg w1 e = gone pl me cfg w e" if "e \<in> set es" for e
      using settled_rest[OF b(2) v n(1), where e = e] True rest dist(1) that by (auto simp: image_iff)
    have ctx1: "ctx_err w1 = None" using effectD(8)[OF b(2)] Cons.prems(2) by simp
    let ?k = "if ?b then k + 1 else k"
    obtain w' where w': "run me (sweep_loop pl cfg ?k es) [] w1 = ((?k + length (filter (gone pl me cfg w1) es), None), [], w')"
      "effect w1 (swept pl me cfg w1 es) w'"
      using Cons.IH[OF effectD(1)[OF b(2)] ctx1 dist(2), of ?k] st(1) by blast
    have f: "filter (gone pl me cfg w1) es = filter (gone pl me cfg w) es" using st(2) by (intro filter_cong) simp_all
    have g: "gone pl me cfg w x = ?b" using True x by (simp add: gone_def)
    have "run me (sweep_loop pl cfg k (x # es)) [] w = ((k + length (filter (gone pl me cfg w) (x # es)), None), [], w')"
      using True b(1) w'(1) x g f Cons.prems(2) by simp
    moreover have "swept pl me cfg w1 es = swept pl me cfg w (x # es)"
      using effectD(2)[OF b(2)] g x st(2) by (auto simp: fun_eq_iff swept_def)
    ultimately show ?thesis using effect_trans[OF b(2) w'(2)] by auto
  qed
qed

section \<open>The directory\<close>

text \<open>A directory whose entries are listed once each, under their own names.\<close>

definition tidy :: "string \<Rightarrow> world \<Rightarrow> bool" where
  "tidy dir w \<longleftrightarrow> distinct (map fst (names w)) \<and>
     (\<forall>p \<in> fst ` set (dir_entries w (path_clean dir)). \<exists>n. p = join_prefix dir @ n \<and> CHR ''/'' \<notin> set n)"

definition lock_files :: "string \<Rightarrow> world \<Rightarrow> string set" where
  "lock_files dir w = {p. \<exists>n. CHR ''/'' \<notin> set n \<and> p = markerPath dir n \<and> file_content w p \<noteq> None}"

lemma mset_insert_entry: "mset (insert_entry x ys) = mset (x # ys)"
  by (induction ys) auto

lemma mset_sorted_entries: "mset (foldr insert_entry xs []) = mset xs"
  by (induction xs) (simp_all add: mset_insert_entry)

lemma join_prefix_end: "join_prefix dir = [] \<or> last (join_prefix dir) = CHR ''/''"
  unfolding join_prefix_def
  by (cases "rev (clean_stack dir)" rule: rev_cases) auto

lemma base_name_join: "CHR ''/'' \<notin> set n \<Longrightarrow> base_name (join_prefix dir @ n) = n"
proof -
  assume n: "CHR ''/'' \<notin> set n"
  have "takeWhile (\<lambda>c. c \<noteq> CHR ''/'') (rev n @ rev (join_prefix dir)) = rev n @ takeWhile (\<lambda>c. c \<noteq> CHR ''/'') (rev (join_prefix dir))"
    using n by (intro takeWhile_append2) auto
  moreover have "takeWhile (\<lambda>c. c \<noteq> CHR ''/'') (rev (join_prefix dir)) = []"
    using join_prefix_end[of dir] by (cases "join_prefix dir" rule: rev_cases) auto
  ultimately show ?thesis by (simp add: base_name_def)
qed

abbreviation listing :: "string \<Rightarrow> world \<Rightarrow> (string \<times> bool) list" where
  "listing dir w \<equiv> foldr insert_entry
     (map (\<lambda>(p, e). (base_name p, e = DirEntry)) (dir_entries w (path_clean dir))) []"

lemma set_listing: "set (listing dir w) = (\<lambda>(p, e). (base_name p, e = DirEntry)) ` set (dir_entries w (path_clean dir))"
proof -
  have "set (foldr insert_entry xs []) = set xs" for xs
    using arg_cong[OF mset_sorted_entries[of xs], of set_mset] by simp
  then show ?thesis by (simp only: set_map)
qed

lemma listing_distinct:
  assumes "tidy dir w"
  shows "distinct (map fst (listing dir w))"
proof -
  let ?L = "dir_entries w (path_clean dir)"
  have "distinct (map fst ?L)"
    using assms unfolding tidy_def dir_entries_def by (auto intro: distinct_map_filter)
  moreover have "inj_on base_name (set (map fst ?L))"
  proof (rule inj_onI)
    fix p q assume pq: "p \<in> set (map fst ?L)" "q \<in> set (map fst ?L)" "base_name p = base_name q"
    then obtain m n where "p = join_prefix dir @ m" "CHR ''/'' \<notin> set m" "q = join_prefix dir @ n" "CHR ''/'' \<notin> set n"
      using assms unfolding tidy_def set_map by blast
    with pq(3) show "p = q" by (simp add: base_name_join)
  qed
  ultimately have "distinct (map base_name (map fst ?L))" by (simp only: distinct_map[of base_name "map fst ?L"])
  moreover have "map base_name (map fst ?L) = map fst (map (\<lambda>(p, e). (base_name p, e = DirEntry)) ?L)"
    by (simp add: case_prod_beta)
  moreover have "mset (map fst (listing dir w)) = mset (map fst (map (\<lambda>(p, e). (base_name p, e = DirEntry)) ?L))"
    by (simp only: mset_map mset_sorted_entries)
  ultimately show ?thesis by (metis mset_eq_imp_distinct_iff)
qed

lemma listing_lookup:
  assumes "tidy dir w" "(n, d) \<in> set (listing dir w)"
  shows "CHR ''/'' \<notin> set n" "lookup w (join_prefix dir @ n) = Some (if d then DirEntry else the (lookup w (join_prefix dir @ n)))"
    "d \<longleftrightarrow> is_dir w (join_prefix dir @ n)"
proof -
  obtain p e where pe: "(p, e) \<in> set (dir_entries w (path_clean dir))" "n = base_name p" "d \<longleftrightarrow> e = DirEntry"
    using assms(2) by (auto simp: set_listing)
  then obtain m where m: "p = join_prefix dir @ m" "CHR ''/'' \<notin> set m"
    using assms(1) unfolding tidy_def by force
  then have "n = m" using pe(2) base_name_join by simp
  have "lookup w p = Some e"
    using pe(1) assms(1) by (auto simp: lookup_def tidy_def dir_entries_def)
  then show "CHR ''/'' \<notin> set n" "lookup w (join_prefix dir @ n) = Some (if d then DirEntry else the (lookup w (join_prefix dir @ n)))"
    "d \<longleftrightarrow> is_dir w (join_prefix dir @ n)"
    using m \<open>n = m\<close> pe(3) by (auto simp: is_dir_def)
qed

lemma listed_lock:
  assumes "tidy dir w" "dir \<noteq> []" "is_dir w (path_clean dir)"
  shows "p \<in> lock_files dir w \<longleftrightarrow> (\<exists>n. (n, False) \<in> set (listing dir w) \<and> suffix ''.lock'' n \<and> p = path_join dir n)"
proof
  assume "p \<in> lock_files dir w"
  then obtain n i where n: "CHR ''/'' \<notin> set n" "p = markerPath dir n" "lookup w p = Some (FileEntry i)"
    by (auto simp: lock_files_def file_content_Some)
  have "(p, FileEntry i) \<in> set (dir_entries w (path_clean dir))"
    using n assms(3) markerPath_dir[OF assms(2) n(1)] map_of_SomeD[of "names w" p "FileEntry i"]
    by (auto simp: dir_entries_def lookup_def is_dir_def)
  then have "(base_name p, False) \<in> set (listing dir w)" by (force simp: set_listing)
  moreover have "base_name p = n @ ''.lock''"
    using n(1,2) markerPath_eq[of n dir] base_name_join[of "n @ ''.lock''" dir] by simp
  ultimately show "\<exists>n. (n, False) \<in> set (listing dir w) \<and> suffix ''.lock'' n \<and> p = path_join dir n"
    using n(2) by (intro exI[of _ "n @ ''.lock''"]) (auto simp: markerPath_def suffix_def)
next
  assume "\<exists>n. (n, False) \<in> set (listing dir w) \<and> suffix ''.lock'' n \<and> p = path_join dir n"
  then obtain n where n: "(n, False) \<in> set (listing dir w)" "suffix ''.lock'' n" "p = path_join dir n" by blast
  note l = listing_lookup[OF assms(1) n(1)]
  obtain x where x: "n = x @ ''.lock''" using n(2) by (auto simp: suffix_def)
  have "lookup w p \<noteq> None" "\<not> is_dir w p"
    using l(2,3) lock_name_path(1)[OF l(1) n(2), of dir] n(3) by auto
  then show "p \<in> lock_files dir w"
    using x l(1) n(3) by (auto simp: lock_files_def markerPath_def lookup_None_iff intro!: exI[of _ x])
qed

lemma listing_settled:
  assumes "tidy dir w" "dir \<noteq> []" "is_dir w (path_clean dir)" "fc_dir cfg = dir" "e \<in> set (listing dir w)"
    and "\<forall>p \<in> lock_files dir w. sweepable pl me cfg w p \<or> spared pl me cfg w p"
  shows "settled pl me cfg w e"
proof -
  obtain n d where nd: "e = (n, d)" by fastforce
  note l = listing_lookup[OF assms(1) assms(5)[unfolded nd]]
  show ?thesis
    unfolding settled_def nd fst_conv snd_conv assms(4)
  proof (intro conjI impI)
    show "CHR ''/'' \<notin> set n" by (rule l(1))
    assume a: "\<not> d" "suffix ''.lock'' n"
    then show "\<not> is_dir w (path_join dir n)" using l(1,3) lock_name_path(1) by simp
    have "path_join dir n \<in> lock_files dir w"
    unfolding listed_lock[OF assms(1-3)] using a assms(5) nd by (intro exI[of _ n]) simp
    then show "sweepable pl me cfg w (path_join dir n) \<or> spared pl me cfg w (path_join dir n)"
      using assms(6) by blast
  qed
qed

text \<open>The entries that go are the stale lock files, each listed once.\<close>

lemma gone_paths:
  assumes "tidy dir w" "dir \<noteq> []" "is_dir w (path_clean dir)" "fc_dir cfg = dir"
  shows "(\<exists>e \<in> set (listing dir w). gone pl me cfg w e \<and> p = path_join dir (fst e)) \<longleftrightarrow>
    p \<in> lock_files dir w \<and> sweepable pl me cfg w p"
  unfolding listed_lock[OF assms(1-3)] gone_def assms(4) by force

lemma gone_inject:
  assumes "tidy dir w" "e \<in> set (listing dir w)" "e' \<in> set (listing dir w)" "gone pl me cfg w e" "gone pl me cfg w e'"
    and "path_join dir (fst e) = path_join dir (fst e')"
  shows "e = e'"
proof -
  obtain n d n' d' where nd: "e = (n, d)" "e' = (n', d')" by fastforce
  have m: "(n, d) \<in> set (listing dir w)" "(n', d') \<in> set (listing dir w)" "suffix ''.lock'' n" "suffix ''.lock'' n'" "\<not> d" "\<not> d'"
    using assms(2-5) unfolding nd gone_def fst_conv snd_conv by blast+
  have "path_join dir n = path_join dir n'" using assms(6) nd by simp
  then have "n = n'"
    using lock_name_path(1)[OF listing_lookup(1)[OF assms(1) m(1)] m(3), of dir]
      lock_name_path(1)[OF listing_lookup(1)[OF assms(1) m(2)] m(4), of dir] by simp
  then show ?thesis using m(5,6) nd by simp
qed

lemma gone_count:
  assumes "tidy dir w" "dir \<noteq> []" "is_dir w (path_clean dir)" "fc_dir cfg = dir"
  shows "length (filter (gone pl me cfg w) (listing dir w)) = card {p \<in> lock_files dir w. sweepable pl me cfg w p}"
proof -
  let ?L = "filter (gone pl me cfg w) (listing dir w)"
  have "inj_on (\<lambda>e. path_join dir (fst e)) (set ?L)"
  proof (rule inj_onI)
    fix e e'
    assume "e \<in> set ?L" "e' \<in> set ?L" "path_join dir (fst e) = path_join dir (fst e')"
    then show "e = e'" unfolding set_filter mem_Collect_eq by (elim conjE) (rule gone_inject[OF assms(1)])
  qed
  moreover have "distinct ?L" using iffD1[OF distinct_map listing_distinct[OF assms(1)]] by (intro distinct_filter) (rule conjunct1)
  ultimately have "length ?L = card ((\<lambda>e. path_join dir (fst e)) ` set ?L)"
    by (simp only: card_image distinct_card)
  moreover have "(\<lambda>e. path_join dir (fst e)) ` set ?L = {p. \<exists>e \<in> set (listing dir w). gone pl me cfg w e \<and> p = path_join dir (fst e)}"
    unfolding set_filter by blast
  ultimately show ?thesis unfolding gone_paths[OF assms] by simp
qed

lemma run_Sweep:
  assumes "quiet_platform pl" "wf_world w" "ctx_err w = None" "fc_dir (fl_defaults f) = dir" "dir \<noteq> []"
    and "is_dir w (path_clean dir)" "tidy dir w"
    and "\<forall>p \<in> lock_files dir w. sweepable pl me (fl_defaults f) w p \<or> spared pl me (fl_defaults f) w p"
  shows "\<exists>w'. run me (fl_Sweep pl f) [] w =
      ((card {p \<in> lock_files dir w. sweepable pl me (fl_defaults f) w p}, None), [], w') \<and>
    effect w (\<lambda>p. if p \<in> lock_files dir w \<and> sweepable pl me (fl_defaults f) w p then None
      else file_content w p) w'"
proof -
  let ?cfg = "fl_defaults f" and ?L = "listing dir w"
  have st: "\<forall>e \<in> set ?L. settled pl me ?cfg w e"
    using listing_settled[OF assms(7,5,6,4) _ assms(8)] by blast
  have r: "run me (fl_Sweep pl f) [] w = run me (sweep_loop pl ?cfg 0 ?L) [] w"
    using assms(4,6) by (simp add: fl_Sweep_def Let_def sys_read_dir_def is_dir_def)
  from run_sweep_loop[OF assms(1-3) listing_distinct[OF assms(7)] st, of 0]
  obtain w' where w': "run me (sweep_loop pl ?cfg 0 ?L) [] w = ((0 + length (filter (gone pl me ?cfg w) ?L), None), [], w')"
    "effect w (swept pl me ?cfg w ?L) w'" by (elim exE conjE)
  have "swept pl me ?cfg w ?L = (\<lambda>p. if p \<in> lock_files dir w \<and> sweepable pl me ?cfg w p then None else file_content w p)"
    unfolding swept_def fun_eq_iff assms(4) gone_paths[OF assms(7,5,6,4)] by (rule allI) (rule refl)
  with r w' show ?thesis unfolding gone_count[OF assms(7,5,6,4)] add_0 by (intro exI[of _ w']) (simp only: simp_thms)
qed

section \<open>Under interference\<close>

text \<open>Programs that only read: they leave every marker where it is.\<close>

primrec reading :: "'a prog \<Rightarrow> bool" where
  "reading (Ret a) = True"
| "reading (Getpid k) = (\<forall>r. reading (k r))"
| "reading (CtxErr k) = (\<forall>r. reading (k r))"
| "reading (Now k) = (\<forall>r. reading (k r))"
| "reading (Hostname k) = (\<forall>r. reading (k r))"
| "reading (BootOnce k) = (\<forall>r. reading (k r))"
| "reading (SetBoot x k) = reading k"
| "reading (Kill0 x k) = (\<forall>r. reading (k r))"
| "reading (MkdirAll d k) = False"
| "reading (OpenExcl p k) = False"
| "reading (OpenRW p k) = False"
| "reading (OpenRd p k) = (\<forall>r. reading (k r))"
| "reading (CreateTemp d p k) = False"
| "reading (ReadAll fd k) = (\<forall>r. reading (k r))"
| "reading (WriteFd fd s k) = False"
| "reading (CloseFd fd k) = (\<forall>r. reading (k r))"
| "reading (RemovePath p k) = False"
| "reading (RenamePath p q k) = False"
| "reading (FlockNB fd k) = False"
| "reading (ReadDir d k) = (\<forall>r. reading (k r))"

lemma reading_bind [simp]: "reading p \<Longrightarrow> (\<And>a. reading (c a)) \<Longrightarrow> reading (bind p c)"
  by (induction p) simp_all

lemma live_reads:
  assumes "live_inv path i s pid w"
  shows "live_inv path i s pid (fst (sys_open_rd me p f w))" "live_inv path i s pid (fst (sys_read_all fd f w))"
    "live_inv path i s pid (fst (sys_read_dir d f w))" "live_inv path i s pid (fst (sys_kill q f w))"
    "live_inv path i s pid (w\<lparr>boot_cache := bc\<rparr>)"
  using assms
  by (auto simp: sys_open_rd_def sys_read_all_def sys_read_dir_def sys_kill_def open_fd_def live_inv_def lookup_def
      split: option.splits entry.splits)

lemma wp_reading:
  "reading p \<Longrightarrow> live_inv path i s pid w \<Longrightarrow>
     wp (spares me path i s pid) me p (\<lambda>_ w'. live_inv path i s pid w') w"
proof (induction p arbitrary: w)
  case (SetBoot r k)
  have "live_inv path i s pid ((g w)\<lparr>boot_cache := (boot_cache (g w))(me := Some r)\<rparr>)"
    if "(g, f) \<in> steps (spares me path i s pid)" for g f
    using live_reads(5)[OF step_live[OF that SetBoot.prems(2)]] .
  then show ?case using SetBoot by auto
next
  case (Kill0 q k)
  from Kill0.prems show ?case
    using live_reads(4)[OF step_live[OF _ Kill0.prems(2)]] Kill0.IH[OF rangeI] by (auto simp: case_prod_beta)
next
  case (OpenRd q k)
  from OpenRd.prems show ?case
    using live_reads(1)[OF step_live[OF _ OpenRd.prems(2)]] OpenRd.IH[OF rangeI] by (auto simp: case_prod_beta)
next
  case (ReadAll fd k)
  from ReadAll.prems show ?case
    using live_reads(2)[OF step_live[OF _ ReadAll.prems(2)]] ReadAll.IH[OF rangeI] by (auto simp: case_prod_beta)
next
  case (CloseFd fd k)
  from CloseFd.prems show ?case
    using live_close[OF step_live[OF _ CloseFd.prems(2)]] CloseFd.IH[OF rangeI] by (auto simp: case_prod_beta)
next
  case (ReadDir d k)
  from ReadDir.prems show ?case
    using live_reads(3)[OF step_live[OF _ ReadDir.prems(2)]] ReadDir.IH[OF rangeI] by (auto simp: case_prod_beta)
qed (auto simp: case_prod_beta dest: step_live)

lemma reading_readFile [simp]: "reading (readFile p)"
  by (simp add: readFile_def split: sum.split)

lemma reading_readMarker [simp]: "reading (readMarker p)"
  by (simp add: readMarker_def Let_def split: sum.split)

lemma reading_platforms [simp]:
  "reading (isAlive_unix pid)" "reading (isAlive_windows pid)" "reading (startTime_other pid)" "reading bootTime"
  "reading (startTime_linux pid)"
  by (auto simp: isAlive_unix_def isAlive_windows_def startTime_other_def startTime_linux_def bootTime_def Let_def
      split: option.split sum.split)

lemma reading_isStale:
  assumes "pl \<in> {linux, darwin, windows}"
  shows "reading (isStale pl m cfg)"
  using assms
  by (auto simp: isStale_def probeMarker_def probePID_def hostname_def timeExpired_def linux_def darwin_def windows_def
      split: StaleStrategy.split probeResult.split)

text \<open>One path of the sweep: the live marker itself, or another.\<close>

lemma wp_reclaim_live:
  assumes "live_inv path i s (m_pid m) w" "parse_marker s = Inr m" "trusts_pid cfg" "start_unknown pl m"
  shows "wp (spares me path i s (m_pid m)) me (reclaimOne pl path cfg)
    (\<lambda>b w'. live_inv path i s (m_pid m) w') w"
  unfolding reclaimOne_def wp_bind[of _ _ "readMarker path"]
proof (rule wp_mono[OF wp_readMarker_live[OF assms(1)]], elim conjE)
  fix d w' assume I: "live_inv path i s (m_pid m) w'" and d: "\<forall>m. d = Inr m \<longrightarrow> parse_marker s = Inr m"
  have "wp (spares me path i s (m_pid m)) me
      (bind (isStale pl m cfg) (\<lambda>stale. if \<not> stale then Ret False else reclaim_again path m))
      (\<lambda>b w'. live_inv path i s (m_pid m) w') w'"
    unfolding wp_bind by (rule wp_mono[OF wp_isStale_live[OF I assms(3,4)]]) simp
  with d assms(2) I show "wp (spares me path i s (m_pid m)) me (case d of
       Inl err \<Rightarrow> Ret False
     | Inr m1 \<Rightarrow>
         bind (isStale pl m1 cfg) (\<lambda>stale. if \<not> stale then Ret False else reclaim_again path m1))
      (\<lambda>b w'. live_inv path i s (m_pid m) w') w'"
    by (cases d) (simp_all del: wp_bind)
qed

lemma live_remove: "p \<noteq> path \<Longrightarrow> live_inv path i s pid w \<Longrightarrow> live_inv path i s pid (fst (sys_remove p f w))"
  by (auto simp: sys_remove_def live_inv_def lookup_def split: option.split entry.split)

lemma wp_again_other:
  assumes "live_inv path i s pid w" "p \<noteq> path"
  shows "wp (spares me path i s pid) me (reclaim_again p m1) (\<lambda>b w'. live_inv path i s pid w') w"
  unfolding reclaim_again_def wp_bind
proof (rule wp_mono[OF wp_reading[OF reading_readMarker assms(1)]])
  fix d w' assume I: "live_inv path i s pid w'"
  have "live_inv path i s pid (fst (sys_remove p f (g w')))" if "(g, f) \<in> steps (spares me path i s pid)" for g f
    using live_remove[OF assms(2) step_live[OF that I]] .
  with I show "wp (spares me path i s pid) me (case d of Inl err \<Rightarrow> Ret False
     | Inr m2 \<Rightarrow>
         if m_acquired m2 \<noteq> m_acquired m1 \<or> m_pid m2 \<noteq> m_pid m1 then Ret False
         else RemovePath p (\<lambda>r. case r of
           Some e \<Rightarrow> Ret False
         | None \<Rightarrow> Ret True)) (\<lambda>b w'. live_inv path i s pid w') w'"
    by (auto simp: case_prod_beta split: sum.split option.split)
qed

lemma wp_reclaim_other:
  assumes "live_inv path i s pid w" "p \<noteq> path" "pl \<in> {linux, darwin, windows}"
  shows "wp (spares me path i s pid) me (reclaimOne pl p cfg) (\<lambda>b w'. live_inv path i s pid w') w"
  unfolding reclaimOne_def wp_bind[of _ _ "readMarker p"]
proof (rule wp_mono[OF wp_reading[OF reading_readMarker assms(1)]])
  fix d w' assume I: "live_inv path i s pid w'"
  have "wp (spares me path i s pid) me
      (bind (isStale pl m1 cfg) (\<lambda>stale. if \<not> stale then Ret False else reclaim_again p m1))
      (\<lambda>b w'. live_inv path i s pid w') w'" for m1
    unfolding wp_bind
    by (rule wp_mono[OF wp_reading[OF reading_isStale[OF assms(3)] I]]) (use wp_again_other[OF _ assms(2)] in auto)
  with I show "wp (spares me path i s pid) me (case d of Inl err \<Rightarrow> Ret False
     | Inr m1 \<Rightarrow> bind (isStale pl m1 cfg) (\<lambda>stale. if \<not> stale then Ret False else reclaim_again p m1))
      (\<lambda>b w'. live_inv path i s pid w') w'"
    by (cases d) (simp_all del: wp_bind)
qed

lemma wp_sweep_loop:
  assumes "live_inv path i s (m_pid m) w" "parse_marker s = Inr m" "trusts_pid cfg" "start_unknown pl m"
    and "pl \<in> {linux, darwin, windows}"
  shows "wp (spares me path i s (m_pid m)) me (sweep_loop pl cfg k es) (\<lambda>_ w'. live_inv path i s (m_pid m) w') w"
  using assms(1)
proof (induction es arbitrary: k w)
  case (Cons x es)
  obtain n d where x: "x = (n, d)" by fastforce
  let ?E = "spares me path i s (m_pid m)" and ?I = "live_inv path i s (m_pid m)"
  have r: "wp ?E me (reclaimOne pl (path_join (fc_dir cfg) n) cfg) (\<lambda>b. ?I) w'" if "?I w'" for w'
    using wp_reclaim_live[OF that assms(2-4)] wp_reclaim_other[OF that _ assms(5)] by metis
  have "wp ?E me (bind (reclaimOne pl (path_join (fc_dir cfg) n) cfg)
      (\<lambda>b. sweep_loop pl cfg (if b then k + 1 else k) es)) (\<lambda>_. ?I) w'" if "?I w'" for w'
    unfolding wp_bind by (rule wp_mono, rule r[OF that]) (rule Cons.IH)
  then show ?case
    using step_live[OF _ Cons.prems] Cons.IH x by (auto simp del: wp_bind split: option.split)
qed simp

section \<open>Properties\<close>

text \<open>C26: Undisturbed, \<open>Sweep\<close> removes exactly the lock files of the directory whose marker is
  stale, answers how many they were, and changes no other file; markers that do not parse and
  files that are no markers stay.\<close>

theorem sweep_removes_stale:
  assumes "quiet_platform pl" "wf_world w" "ctx_err w = None" "fc_dir (fl_defaults f) = dir" "dir \<noteq> []"
    and "is_dir w (path_clean dir)" "tidy dir w"
    and "\<forall>p \<in> lock_files dir w. sweepable pl me (fl_defaults f) w p \<or> spared pl me (fl_defaults f) w p"
  shows "\<exists>w'. run me (fl_Sweep pl f) [] w =
      ((card {p \<in> lock_files dir w. sweepable pl me (fl_defaults f) w p}, None), [], w') \<and>
    effect w (\<lambda>p. if p \<in> lock_files dir w \<and> sweepable pl me (fl_defaults f) w p then None
      else file_content w p) w'"
  by (rule run_Sweep[OF assms])

lemma sweepable_dead:
  assumes "quiet_platform pl" "pl_isAlive pl = isAlive_unix"
    and "file_content w path = Some s" "parse_marker s = Inr m" "0 < m_pid m" "same_host w m"
    and "kill_res w (m_pid m) = Some ESRCH" "fc_strategy cfg \<in> {StaleStrategyPIDFirst, StaleStrategyPIDOnly}"
  shows "sweepable pl me cfg w path"
  unfolding sweepable_def
proof (intro exI conjI allI impI)
  fix w' assume "sweeps w w'"
  note d = sweepsD[OF this]
  have "known_dead w' t m" for t
    using assms(5-7) d(3) by (auto simp: known_dead_def same_host_def local_host_def same_env_def)
  then show "fst (run me (isStale pl m cfg) [] w')"
    using assms(8) isStale_table[OF assms(1,2) d(1), of me m cfg] by (auto simp: Let_def)
qed (use assms(3,4) in auto)

theorem sweep_removes_stale_witness:
  "\<exists>w'. run 7 (fl_Sweep darwin (fl_NewFactory ''/locks'' [])) [] (held_world 99) = ((1, None), [], w') \<and>
     file_content w' ''/locks/job.lock'' = None"
proof -
  let ?f = "fl_NewFactory ''/locks'' []" and ?w = "held_world 99"
  have f: "fl_defaults ?f = fl_defaultConfig ''/locks''" by (simp add: fl_NewFactory_def)
  have d: "fc_dir (fl_defaults ?f) = ''/locks''" by (simp add: f fl_defaultConfig_def)
  have names: "names ?w = [(''/'', DirEntry), (''/locks'', DirEntry), (''/locks/job.lock'', FileEntry 1)]"
    by (simp add: held_world_def put_file_def host_world_def)
  have pd: "path_dir ''/'' = ''/''" "path_dir ''/locks'' = ''/''" "path_dir ''/locks/job.lock'' = ''/locks''"
    "path_clean ''/locks'' = ''/locks''"
    by (simp_all add: path_dir_def path_clean_def clean_stack_def clean_step_def rooted_def)
  have t: "tidy ''/locks'' ?w"
    by (simp add: tidy_def names dir_entries_def pd)
  have l: "lock_files ''/locks'' ?w = {''/locks/job.lock''}"
  proof -
    have "(file_content ?w p \<noteq> None) = (p = ''/locks/job.lock'')" for p
      by (simp add: file_content_def lookup_def names)
    moreover have "\<exists>n. CHR ''/'' \<notin> set n \<and> ''/locks/job.lock'' = markerPath ''/locks'' n"
      by (rule exI[of _ "''job''"]) simp
    ultimately show ?thesis by (auto simp: lock_files_def)
  qed
  have st: "sweepable darwin 7 (fl_defaults ?f) ?w ''/locks/job.lock''"
    by (rule sweepable_dead[where m = "host_marker 99" and s = "marker_text (host_marker 99)"])
      (simp_all add: f int64_range_def same_host_def local_host_def held_world_def fl_defaultConfig_def)
  have c: "{p \<in> lock_files ''/locks'' ?w. sweepable darwin 7 (fl_defaults ?f) ?w p} = {''/locks/job.lock''}"
    using l st by auto
  have all: "\<forall>p \<in> lock_files ''/locks'' ?w. sweepable darwin 7 (fl_defaults ?f) ?w p \<or> spared darwin 7 (fl_defaults ?f) ?w p"
    using l st by simp
  have dir: "is_dir ?w (path_clean ''/locks'')" "''/locks'' \<noteq> []" by (simp_all add: pd)
  obtain w' where w': "run 7 (fl_Sweep darwin ?f) [] ?w = ((card {''/locks/job.lock''}, None), [], w')"
    "effect ?w (\<lambda>p. if p \<in> lock_files ''/locks'' ?w \<and> sweepable darwin 7 (fl_defaults ?f) ?w p then None
      else file_content ?w p) w'"
    using sweep_removes_stale[OF quiet_platforms(2) held_world_simps(3,2) d dir(2,1) t all] unfolding c by blast
  then have "file_content w' ''/locks/job.lock'' = None" using l st by (simp add: effectD(2))
  with w'(1) show ?thesis by simp
qed



text \<open>A sweep whose removal is preceded by a change \<open>g\<close> of the world removes what is there after it.\<close>

lemma run_late_reclaim:
  assumes "left_dead cfg name s m w" "lookup (g (bump_fd (bump_fd w))) (markerPath (fc_dir cfg) name) = Some (FileEntry i)"
  shows "run a (reclaimOne darwin (markerPath (fc_dir cfg) name) cfg) (replicate 8 (id, None) @ [(g, None)]) w =
    (True, [], del_name (markerPath (fc_dir cfg) name) (g (bump_fd (bump_fd w))))"
proof -
  let ?p = "markerPath (fc_dir cfg) name" and ?es = "replicate 8 (id, None) @ [(g, None)] :: env"
  have f: "wf_world w" "wf_world (bump_fd w)" "file_content w ?p = Some s" "file_content (bump_fd w) ?p = Some s" "parse_marker s = Inr m"
    using assms(1) readyD(1) by (auto simp: left_dead_def)
  have rm: "run a (RemovePath ?p (\<lambda>r. case r of Some e \<Rightarrow> Ret False | None \<Rightarrow> Ret True)) [(g, None)] (bump_fd (bump_fd w)) =
      (True, [], del_name ?p (g (bump_fd (bump_fd w))))"
    by (subst run_last_tick) (simp_all add: is_ret_def assms(2))
  have c3: "calm 3 ?es" "skip 3 ?es = [(id, None), (id, None), (id, None), (id, None), (id, None), (g, None)]"
    "calm 3 [(id, None), (id, None), (id, None), (g, None)]" "skip 3 [(id, None), (id, None), (id, None), (g, None)] = [(g, None)]"
    by (simp_all add: eval_nat_numeral)
  show ?thesis
    using run_readMarker[OF c3(1) f(1,3), of a] run_readMarker[OF c3(3) f(2,4), of a] f(5) rm isStale_dead[OF left_dead_bump[OF assms(1)], of a]
    by (simp add: reclaimOne_def reclaim_again_def c3(2,4))
qed

text \<open>C28: The second reading of the marker and its removal are not one step.  If a contender takes
  the stale marker over in between, the sweep deletes the contender's fresh marker and counts it,
  and a third process then acquires the lock while the contender still holds it.\<close>

theorem sweep_removes_fresh_marker:
  assumes "ready (fc_dir cfg) w" "ctx_err w = None" "CHR ''/'' \<notin> set name"
    and "\<not> is_dir w (fencePath (fc_dir cfg) name)" "fc_maxConcurrent cfg \<le> 1"
    and "file_content w (markerPath (fc_dir cfg) name) = Some s" "parse_marker s = Inr m" "0 < m_pid m" "same_host w m"
    and "kill_res w (m_pid m) = Some ESRCH" "fc_strategy cfg \<in> {StaleStrategyPIDFirst, StaleStrategyPIDOnly}"
    and "g = (\<lambda>w1. snd (snd (run b (fl_acquire darwin cb name cfg) [] w1)))"
  shows "\<exists>hB evB hC evC w'. fst (run b (fl_acquire darwin cb name cfg) [] (bump_fd (bump_fd w))) = (Inr hB, evB) \<and>
    run a (reclaimOne darwin (markerPath (fc_dir cfg) name) cfg) (replicate 8 (id, None) @ [(g, None)]) w = (True, [], w') \<and>
    fst (run c (fl_acquire darwin cc name cfg) [] w') = (Inr hC, evC) \<and>
    fh_path hB = markerPath (fc_dir cfg) name \<and> fh_path hC = fh_path hB"
proof -
  let ?p = "markerPath (fc_dir cfg) name" and ?w = "bump_fd (bump_fd w)"
  have dead: "left_dead cfg name s m w" using assms by (simp add: left_dead_def)
  note sl = left_dead_slots[OF dead]
  obtain hB evB wB i where B: "run b (fl_acquire darwin cb name cfg) [] ?w = ((Inr hB, evB), [], wB)"
      "fh_path hB = ?p" "ready (fc_dir cfg) wB" "ctx_err wB = None" "\<not> is_dir wB (fencePath (fc_dir cfg) name)"
      "lookup wB ?p = Some (FileEntry i)"
    using left_dead_won[OF left_dead_bump[OF left_dead_bump[OF dead]]] by metis
  have "g ?w = wB" by (simp add: assms(12) B(1))
  then have A: "run a (reclaimOne darwin ?p cfg) (replicate 8 (id, None) @ [(g, None)]) w = (True, [], del_name ?p wB)"
    using run_late_reclaim[OF dead] B(6) by simp
  have e: "effect wB ((file_content wB)(?p := None)) (del_name ?p wB)"
    using readyD(1)[OF B(3)] B(6) by (auto simp: effect_def is_dir_def)
  have rC: "ready (fc_dir cfg) (del_name ?p wB)" by (rule ready_effect[OF B(3) e]) (use sl in auto)
  have "\<not> is_dir (del_name ?p wB) (fencePath (fc_dir cfg) name)" "ctx_err (del_name ?p wB) = None" "lookup (del_name ?p wB) ?p = None"
    using effectD(3,8)[OF e] B(4,5) by simp_all
  then have "won_slot darwin c cc name cfg (- 1) (del_name ?p wB)"
    using acquire_free_slot[OF _ rC _ assms(3) _ sl(1), of darwin c cc] sl(2) by simp
  then obtain hC evC wC where "run c (fl_acquire darwin cc name cfg) [] (del_name ?p wB) = ((Inr hC, evC), [], wC)" "fh_path hC = ?p"
    by (elim won_slotE) (simp add: sl)
  then show ?thesis using A B(1,2) by auto
qed

theorem sweep_removes_fresh_marker_witness:
  "\<exists>hB evB hC evC w'. fst (run 8 (fl_acquire darwin (\<lambda>_. None) ''job'' (fl_defaultConfig ''/locks'')) [] (bump_fd (bump_fd (held_world 99)))) = (Inr hB, evB) \<and>
     run 7 (reclaimOne darwin ''/locks/job.lock'' (fl_defaultConfig ''/locks'')) (replicate 8 (id, None) @
       [(\<lambda>w1. snd (snd (run 8 (fl_acquire darwin (\<lambda>_. None) ''job'' (fl_defaultConfig ''/locks'')) [] w1)), None)]) (held_world 99)
       = (True, [], w') \<and>
     fst (run 9 (fl_acquire darwin (\<lambda>_. None) ''job'' (fl_defaultConfig ''/locks'')) [] w') = (Inr hC, evC) \<and> fh_path hC = fh_path hB"
proof -
  have a: "fc_dir (fl_defaultConfig ''/locks'') = ''/locks''" by (simp add: fl_defaultConfig_def)
  have p: "parse_marker (marker_text (host_marker 99)) = Inr (host_marker 99)" by (simp add: int64_range_def)
  have h: "same_host (held_world 99) (host_marker 99)" "kill_res (held_world 99) (m_pid (host_marker 99)) = Some ESRCH"
    "ctx_err (held_world 99) = None" "\<not> is_dir (held_world 99) (fencePath (fc_dir (fl_defaultConfig ''/locks'')) ''job'')"
    by (simp_all add: same_host_def local_host_def held_world_def is_dir_def fl_defaultConfig_def)
  have c: "CHR ''/'' \<notin> set ''job''" "fc_maxConcurrent (fl_defaultConfig ''/locks'') \<le> 1" "0 < m_pid (host_marker 99)"
    "fc_strategy (fl_defaultConfig ''/locks'') \<in> {StaleStrategyPIDFirst, StaleStrategyPIDOnly}"
    by (simp_all add: fl_defaultConfig_def)
  have r: "ready (fc_dir (fl_defaultConfig ''/locks'')) (held_world 99)" and
    m: "file_content (held_world 99) (markerPath (fc_dir (fl_defaultConfig ''/locks'')) ''job'') = Some (marker_text (host_marker 99))"
    and j: "markerPath (fc_dir (fl_defaultConfig ''/locks'')) ''job'' = ''/locks/job.lock''"
    by (simp_all add: a)
  show ?thesis
    using sweep_removes_fresh_marker[OF r h(3) c(1) h(4) c(2) m p c(3) h(1,2) c(4) refl, of 8 "\<lambda>_. None" 7 9 "\<lambda>_. None"]
    unfolding j by metis
qed

text \<open>A directory that cannot be read ends the sweep with that error and nothing removed; a
  cancelled context ends it before the next entry with the context's error, keeping the count.\<close>

theorem sweep_errors:
  assumes "ctx_err w = Some e"
  shows "run me (fl_Sweep pl f) [(id, Some n)] w = ((0, Some (Wrap ''filelock: sweep readdir'' (Errno n))), [], w) \<and>
    run me (sweep_loop pl cfg k (x # es)) [] w = ((k, Some e), [], w)"
  using assms by (cases x) (simp add: fl_Sweep_def Let_def)

theorem sweep_errors_witness:
  "run 7 (sweep_loop darwin (fl_defaultConfig ''/locks'') 2 [(''job.lock'', False)]) []
     (host_world\<lparr>ctx_err := Some context_Canceled\<rparr>) = ((2, Some context_Canceled), [], host_world\<lparr>ctx_err := Some context_Canceled\<rparr>)"
  by (rule conjunct2[OF sweep_errors]) simp

end
