(* ===== verification/Kernel_Calls.thy ===== *)
theory Kernel_Calls
  imports Kernel_Facts
begin

text \<open>
  How long a program takes: a bound on its system calls that holds whatever the calls answer, and the program
  pursued call by call against an endless schedule.
\<close>

section \<open>A bound on the calls\<close>

primrec within :: "'a prog \<Rightarrow> nat \<Rightarrow> bool" where
  "within (Ret a) n = True"
| "within (Getpid k) n = (case n of 0 \<Rightarrow> False | Suc m \<Rightarrow> \<forall>r. within (k r) m)"
| "within (CtxErr k) n = (case n of 0 \<Rightarrow> False | Suc m \<Rightarrow> \<forall>r. within (k r) m)"
| "within (Now k) n = (case n of 0 \<Rightarrow> False | Suc m \<Rightarrow> \<forall>r. within (k r) m)"
| "within (Hostname k) n = (case n of 0 \<Rightarrow> False | Suc m \<Rightarrow> \<forall>r. within (k r) m)"
| "within (BootOnce k) n = (case n of 0 \<Rightarrow> False | Suc m \<Rightarrow> \<forall>r. within (k r) m)"
| "within (SetBoot x k) n = (case n of 0 \<Rightarrow> False | Suc m \<Rightarrow> within k m)"
| "within (Kill0 pid k) n = (case n of 0 \<Rightarrow> False | Suc m \<Rightarrow> \<forall>r. within (k r) m)"
| "within (MkdirAll d k) n = (case n of 0 \<Rightarrow> False | Suc m \<Rightarrow> \<forall>r. within (k r) m)"
| "within (OpenExcl p k) n = (case n of 0 \<Rightarrow> False | Suc m \<Rightarrow> \<forall>r. within (k r) m)"
| "within (OpenRW p k) n = (case n of 0 \<Rightarrow> False | Suc m \<Rightarrow> \<forall>r. within (k r) m)"
| "within (OpenRd p k) n = (case n of 0 \<Rightarrow> False | Suc m \<Rightarrow> \<forall>r. within (k r) m)"
| "within (CreateTemp d p k) n = (case n of 0 \<Rightarrow> False | Suc m \<Rightarrow> \<forall>r. within (k r) m)"
| "within (ReadAll fd k) n = (case n of 0 \<Rightarrow> False | Suc m \<Rightarrow> \<forall>r. within (k r) m)"
| "within (WriteFd fd s k) n = (case n of 0 \<Rightarrow> False | Suc m \<Rightarrow> \<forall>r. within (k r) m)"
| "within (CloseFd fd k) n = (case n of 0 \<Rightarrow> False | Suc m \<Rightarrow> \<forall>r. within (k r) m)"
| "within (RemovePath p k) n = (case n of 0 \<Rightarrow> False | Suc m \<Rightarrow> \<forall>r. within (k r) m)"
| "within (RenamePath p q k) n = (case n of 0 \<Rightarrow> False | Suc m \<Rightarrow> \<forall>r. within (k r) m)"
| "within (FlockNB fd k) n = (case n of 0 \<Rightarrow> False | Suc m \<Rightarrow> \<forall>r. within (k r) m)"
| "within (ReadDir d k) n = (case n of 0 \<Rightarrow> False | Suc m \<Rightarrow> \<forall>r. within (k r) m)"

lemma step_mono:
  "(case m of 0 \<Rightarrow> False | Suc i \<Rightarrow> P i) \<Longrightarrow> m \<le> n \<Longrightarrow> (\<And>i j. P i \<Longrightarrow> i \<le> j \<Longrightarrow> Q j) \<Longrightarrow>
     (case n of 0 \<Rightarrow> False | Suc j \<Rightarrow> Q j)"
  by (cases m; cases n) auto

lemma step_bind:
  "(case m of 0 \<Rightarrow> False | Suc i \<Rightarrow> P i) \<Longrightarrow> (\<And>i. P i \<Longrightarrow> Q (i + n)) \<Longrightarrow>
     (case m + n of 0 \<Rightarrow> False | Suc j \<Rightarrow> Q j)"
  by (cases m) auto

lemma within_mono: "within p m \<Longrightarrow> m \<le> n \<Longrightarrow> within p n"
  by (induction p arbitrary: m n) (unfold within.simps, blast, (erule (1) step_mono, blast)+)

lemma within_bind: "within p m \<Longrightarrow> (\<And>a. within (c a) n) \<Longrightarrow> within (bind p c) (m + n)"
proof (induction p arbitrary: m)
  case (Ret a)
  then show ?case using within_mono[of "c a" n "m + n"] by simp
qed (unfold within.simps bind.simps, (erule step_bind, blast)+)

lemma bind_assoc: "bind (bind p c) d = bind p (\<lambda>a. bind (c a) d)"
  by (induction p) simp_all

lemma bind_Ret [simp]: "bind p Ret = p"
  by (induction p) simp_all

lemma within_0: "within p 0 \<Longrightarrow> is_ret p"
  by (cases p) (simp_all add: is_ret_def)

lemma is_ret_within: "is_ret p \<Longrightarrow> within p n"
  by (cases p) (simp_all add: is_ret_def)

lemma within_exec1: "within p n \<Longrightarrow> within (snd (exec1 me p f w)) (n - 1)"
  by (cases p; cases n) (simp_all add: case_prod_beta)

section \<open>Pursuing a program\<close>

text \<open>
  \<open>\<sigma> i\<close> is what the environment does before the \<open>i\<close>-th call and the fault of that call; \<open>pursue me \<sigma> n\<close> makes \<open>n\<close>
  calls, or fewer if the program returns earlier.
\<close>

primrec pursue :: "int \<Rightarrow> (nat \<Rightarrow> (world \<Rightarrow> world) \<times> fault) \<Rightarrow> nat \<Rightarrow> 'a prog \<Rightarrow> world \<Rightarrow> 'a prog \<times> world" where
  "pursue me \<sigma> 0 p w = (p, w)"
| "pursue me \<sigma> (Suc n) p w =
     (case pursue me \<sigma> n p w of (p', w') \<Rightarrow>
        if is_ret p' then (p', w')
        else (case exec1 me p' (snd (\<sigma> n)) (fst (\<sigma> n) w') of (w'', p'') \<Rightarrow> (p'', w'')))"

lemma within_pursue: "within p n \<Longrightarrow> within (fst (pursue me \<sigma> i p w)) (n - i)"
proof (induction i)
  case (Suc i)
  obtain p' w' where p': "pursue me \<sigma> i p w = (p', w')" by fastforce
  with Suc have "within p' (n - i)" by simp
  from this within_exec1[OF this, of me "snd (\<sigma> i)" "fst (\<sigma> i) w'"] within_mono[of p' "n - i" "n - Suc i"] show ?case
    by (cases "is_ret p'") (auto simp: p' is_ret_within case_prod_beta)
qed simp

lemma pursue_returns:
  assumes "within p n"
  shows "\<exists>a w'. pursue me \<sigma> n p w = (Ret a, w')"
proof -
  have "is_ret (fst (pursue me \<sigma> n p w))" using within_pursue[OF assms, of me \<sigma> n w] within_0 by simp
  then show ?thesis by (cases "pursue me \<sigma> n p w") (auto simp: is_ret_def split: prog.splits)
qed

text \<open>What is left to do after \<open>i\<close> calls, done at once, is what the whole program does at once.\<close>

lemma run_pursue:
  "i \<le> n \<Longrightarrow> (case pursue me \<sigma> i p w of (p', w') \<Rightarrow> fst (run me p' (map \<sigma> [i..<n]) w')) = fst (run me p (map \<sigma> [0..<n]) w)"
proof (induction i)
  case (Suc i)
  obtain p' w' where p': "pursue me \<sigma> i p w = (p', w')" by fastforce
  have es: "map \<sigma> [i..<n] = \<sigma> i # map \<sigma> [Suc i..<n]" using Suc.prems by (simp add: upt_conv_Cons)
  show ?case
  proof (cases "is_ret p'")
    case True
    then show ?thesis using Suc p' by (auto simp: is_ret_def split: prog.splits)
  next
    case False
    then show ?thesis using Suc p' run_exec1[OF False, of me "map \<sigma> [i..<n]" w']
      by (cases "\<sigma> i") (auto simp: es case_prod_beta)
  qed
qed simp

text \<open>The answer does not depend on how it is waited for.\<close>

lemma pursue_answer:
  assumes "within p n"
  shows "fst (pursue me \<sigma> n p w) = Ret (fst (run me p (map \<sigma> [0..<n]) w))"
proof -
  obtain a w' where a: "pursue me \<sigma> n p w = (Ret a, w')" using pursue_returns[OF assms] by blast
  from run_pursue[of n n me \<sigma> p w] a show ?thesis by simp
qed

end
