(* ===== verification/Flock_Calls.thy ===== *)
theory Flock_Calls
  imports Flock_Props Kernel_Calls
begin

text \<open>
  The calls of \<open>flock\<close> that never wait: how many system calls an acquire and a release make at most, whatever the
  calls answer and whatever other processes do in between.
\<close>

lemma within_fence: "within (fk_bumpFence dir name) 8"
proof -
  have r: "within (fk_readFence p) 3" for p
    unfolding fk_readFence_def readFence_def readFile_def by (simp split: sum.split)
  have w: "within (fk_writeFence p v) 5" for p v
    unfolding fk_writeFence_def writeFence_def by (simp split: sum.split option.split prod.split)
  have "within (bind (fk_readFence p) (\<lambda>prev. bind (fk_writeFence p (prev + 1)) (\<lambda>e. Ret (k e prev)))) (3 + (5 + 0))" for p k
    by (intro within_bind r w) simp
  then show ?thesis unfolding fk_bumpFence_def Let_def by simp
qed

text \<open>A slot that is locked costs three calls, and the one that is had costs ten and ends the loop.\<close>

lemma within_slot:
  assumes "native_lock tlk" "\<And>e. within (c (Inl e)) n" "\<And>h. within (c (Inr h)) 0" "7 \<le> n"
  shows "within (bind (fk_acquireSlot tlk name cfg slot) c) (3 + n)"
proof -
  have fence: "within (bind (bind (fk_bumpFence (kc_dir cfg) name) k) c) (Suc n)"
    if "\<And>t. \<exists>h. k t = Ret (Inr h)" for k
  proof -
    have "within (bind (k t) c) 0" for t using that[of t] assms(3) by auto
    then have "within (bind (fk_bumpFence (kc_dir cfg) name) (\<lambda>t. bind (k t) c)) (8 + 0)"
      by (intro within_bind within_fence)
    then show ?thesis unfolding bind_assoc using assms(4) by (elim within_mono) simp
  qed
  have e: "within (c (Inl e)) m" if "n \<le> m" for e m by (rule within_mono[OF assms(2) that])
  show ?thesis
    using assms(1)
    by (auto simp: native_lock_def tryLock_unix_def tryLock_windows_def fk_acquireSlot_def Let_def numeral_3_eq_3
        split: sum.split option.split intro!: fence e)
qed

lemma within_slots:
  assumes "native_lock tlk"
  shows "within (fk_acquire_slots tlk name cfg is) (3 * length is + 7)"
proof (induction "is")
  case (Cons i "is")
  have "within (fk_acquire_slots tlk name cfg (i # is)) (3 + (3 * length is + 7))"
    unfolding fk_acquire_slots.simps by (rule within_slot[OF assms]) (use Cons.IH in auto)
  then show ?case by (simp add: algebra_simps)
qed simp

lemma within_acquire_body:
  assumes "native_lock tlk"
  shows "within (fk_acquire_body tlk name cfg) (Suc (Suc (3 * length (fk_slots_of cfg) + 7)))"
proof -
  define m where "m = 3 * length (fk_slots_of cfg) + 7"
  have "within (fk_acquireSlot tlk name cfg i) (3 + 7)" for i
    using within_slot[OF assms, of Ret 7 name cfg i] by simp
  then have "within (fk_acquireSlot tlk name cfg i) m" if "kc_maxConcurrent cfg \<le> 1" for i
    using that by (simp add: m_def fk_slots_of_def)
  moreover have "within (fk_acquire_slots tlk name cfg (fk_slots_of cfg)) m"
    unfolding m_def by (rule within_slots[OF assms])
  ultimately have "within (fk_acquire_body tlk name cfg) (Suc (Suc m))"
    by (auto simp: fk_acquire_body_def fk_slots_of_def split: option.split)
  then show ?thesis by (simp only: m_def)
qed

lemma within_acquire:
  assumes "native_lock tlk"
  shows "within (fk_acquire tlk c name cfg) (3 * length (fk_slots_of cfg) + 12)"
proof -
  let ?n = "Suc (Suc (3 * length (fk_slots_of cfg) + 7))"
  have "within (fk_acquire tlk c name cfg) (Suc (?n + 2))"
    unfolding fk_acquire_def Let_def within.simps nat.case
    by (intro allI within_bind within_acquire_body assms) (simp add: numeral_2_eq_2 split: sum.split)
  then show ?thesis by (rule within_mono) simp
qed

lemma within_Release: "within (fk_Release h) 3"
  unfolding fk_Release_def Let_def by (simp add: numeral_3_eq_3)

section \<open>Properties\<close>

text \<open>C12: \<open>Acquire\<close> of \<open>flock\<close> never waits: pursued call by call against an endless schedule, in which other processes do
  anything they like between its calls and any call may fail, it has returned after at most twelve system calls and
  three for each slot, with the answer that the run of the whole program gives; and \<open>Release\<close> of what it answered
  returns after three.\<close>

theorem flock_acquire_never_waits:
  assumes "native_lock tlk" "n = 3 * length (fk_slots_of cfg) + 12"
  shows "\<exists>r evs w'. pursue me \<sigma> n (fk_acquire tlk c name cfg) w = (Ret (r, evs), w') \<and>
    fst (run me (fk_acquire tlk c name cfg) (map \<sigma> [0..<n]) w) = (r, evs) \<and>
    (\<forall>h \<tau>. r = Inr h \<longrightarrow> (\<exists>x w''. pursue me \<tau> 3 (fk_Release h) w' = (Ret x, w'')))"
proof -
  have a: "within (fk_acquire tlk c name cfg) n" unfolding assms(2) by (rule within_acquire[OF assms(1)])
  obtain r evs w' where r: "pursue me \<sigma> n (fk_acquire tlk c name cfg) w = (Ret (r, evs), w')"
    using pursue_returns[OF a, of me \<sigma> w] by auto
  moreover have "\<exists>x w''. pursue me \<tau> 3 (fk_Release h) w' = (Ret x, w'')" for h \<tau>
    by (rule pursue_returns[OF within_Release])
  ultimately show ?thesis using pursue_answer[OF a, of me \<sigma> w]
    by (intro exI[of _ r] exI[of _ evs] exI[of _ w']) simp
qed

theorem flock_acquire_never_waits_witness:
  "\<exists>r evs w'. pursue 7 (\<lambda>i. (id, if i = 3 then Some EIO else None)) 15
     (fk_acquire tryLock_unix (\<lambda>_. None) ''job'' (fk_defaultConfig ''/locks'')) locked_world = (Ret (r, evs), w')"
  using flock_acquire_never_waits[OF native_locks(1), of 15 "fk_defaultConfig ''/locks''" 7
      "\<lambda>i. (id, if i = 3 then Some EIO else None)" "\<lambda>_. None" "''job''" locked_world] by auto

end
