(* ===== verification/Etcdlock_Config.thy ===== *)
theory Etcdlock_Config
  imports Etcdlock_Props
begin

text \<open>
  The configurations of \<open>etcdlock\<close> that its options can make, and the key space they give: whole
  seconds of lease, and slots that do not meet under etcd's key order.
\<close>

section \<open>Options\<close>

definition et_options :: "et_option set" where
  "et_options = insert None (range et_WithTTL \<union> range et_WithKeyPrefix \<union> range et_WithMaxConcurrent \<union>
     range et_WithMetrics \<union> range et_WithSpanStarter \<union> range et_WithLogger \<union> range et_WithTraceIDExtractor)"

definition et_well_formed :: "et_config \<Rightarrow> bool" where
  "et_well_formed cfg \<longleftrightarrow> 5 * second \<le> ec_ttl cfg \<and> 1 \<le> ec_maxConcurrent cfg"

lemma et_default_well_formed [simp]: "et_well_formed et_defaultConfig"
  by (simp add: et_well_formed_def et_defaultConfig_def second_def)

lemma et_option_well_formed: "Some f \<in> et_options \<Longrightarrow> et_well_formed cfg \<Longrightarrow> et_well_formed (f cfg)"
  by (auto simp: et_options_def et_well_formed_def cfg_simps)

lemma et_apply_well_formed:
  "set opts \<subseteq> et_options \<Longrightarrow> et_well_formed cfg \<Longrightarrow> et_well_formed (et_applyOptions cfg opts)"
  by (induction cfg opts rule: et_applyOptions.induct) (auto intro: et_option_well_formed)

section \<open>Slots\<close>

lemma et_ttl_whole:
  assumes "5 * second \<le> d"
  shows "5 \<le> ttl_seconds d \<and> second * ttl_seconds d \<le> d \<and> d < second * (ttl_seconds d + 1)"
proof -
  have s: "0 < second" by (simp add: second_def)
  then have "5 \<le> d div second" "0 \<le> d" using zdiv_mono1[OF assms s] assms by simp_all
  then have "ttl_seconds d = d div second" by (simp add: ttl_seconds_def)
  moreover have "second * (d div second) + d mod second = d" "0 \<le> d mod second" "d mod second < second"
    using s by simp_all
  ultimately show ?thesis using \<open>5 \<le> d div second\<close> by (intro conjI; simp only: distrib_left mult_1_right)
qed

lemma et_slots:
  "length (slots_of m) = nat (max 1 m)" "i \<in> set (slots_of m) \<Longrightarrow> m \<le> 1 \<and> i = - 1 \<or> 1 < m \<and> 0 \<le> i"
  by (auto simp: slots_of_def split: if_splits)

lemma itoa_no_slash: "CHR ''/'' \<notin> set (itoa i)"
  using itoa_chars[of "CHR ''/''" i] by (auto simp: is_digit_def)

lemma et_slots_apart:
  assumes "0 \<le> i" "0 \<le> j" "i \<noteq> j"
  shows "\<not> under (et_slot_prefix cfg name i) (et_slot_prefix cfg name j)"
proof
  assume "under (et_slot_prefix cfg name i) (et_slot_prefix cfg name j)"
  then have "itoa j = itoa i \<or> prefix (itoa i @ ''/'') (itoa j)"
    using assms(1,2) by (auto simp: under_def et_slot_prefix_def prefix_def)
  moreover have "\<not> prefix (itoa i @ ''/'') (itoa j)" using itoa_no_slash[of j] by (auto simp: prefix_def)
  ultimately show False using assms itoa_inject_nonneg[of j i] by simp
qed



end
