(* ===== verification/Spec2Isabelle.thy ===== *)
theory Spec2Isabelle
  imports Memlock_Drain Backends Filelock_Sweep Filelock_Safety Flock_Calls Flock_Safety Etcdlock_Config
begin

text \<open>
  A verification library for \<open>ubgo/lock\<close>, a family of named locks in Go.

  The repository has one package per mechanism: \<open>memlock\<close> (in memory), \<open>filelock\<close> (a marker
  file per lock), \<open>flock\<close> (an advisory lock on a file), \<open>redislock\<close>, \<open>pglock\<close> and
  \<open>etcdlock\<close> (a server), a root package with the shared interface, and \<open>contrib/gocronlock\<close>.
  All have the same shape: a factory resolves options into a configuration, \<open>Acquire\<close> answers
  a holder or an error (the sentinel \<open>ErrLocked\<close> when every slot is held), \<open>Release\<close> gives the
  slot back once, \<open>WithLock\<close> wraps a function in the two, an adapter translates the package's
  sentinel to the shared one, and observability hooks see every attempt and every release.

  \<^bold>\<open>How the code is modelled.\<close>  In-memory state is a record threaded through functions; what
  goes on between two critical sections is a step relation.  Code that calls the operating
  system is a program, a tree of system calls (\<open>Kernel\<close>); \<open>run\<close> executes it against a
  schedule in which, before every call, the environment may change the state of the machine and
  the call may be made to fail; the empty schedule is the undisturbed run.  Errors are values of
  \<open>gerr\<close>, with \<open>errors.Is\<close> as a function; results are a sum of an error and a value.  Fencing
  tokens are 64-bit words and wrap around.  Durations and times are integers (nanoseconds), with
  the saturation of \<open>Time.Sub\<close> written out.  Strings are byte lists.  Code that talks to a server
  through a client library is a program of the state monad; the library is a record of operations
  on a state of any type, and what the proofs need of it is stated over a view of that state.

  \<^bold>\<open>Theories.\<close>

    \<^item> \<open>Prelude\<close>, \<open>GoStrings\<close>, \<open>GoTime\<close>, \<open>GoPath\<close>: errors and results, and what the code
      uses of the packages \<open>strings\<close>, \<open>strconv\<close>, \<open>bufio\<close>, \<open>time\<close> and \<open>path/filepath\<close>.
    \<^item> \<open>Kernel\<close>, \<open>Kernel_Facts\<close>: the machine, the system calls, programs; runs, weakest
      preconditions over adversarial schedules (\<open>wp\<close>), facts under any responses (\<open>always\<close>).  \<open>Kernel_Calls\<close>:
      bounds on the system calls of a program that hold under any responses (\<open>within\<close>), and programs pursued
      call by call against an endless schedule (\<open>pursue\<close>).
    \<^item> \<open>LockApi\<close>: \<open>lock.go\<close> and \<open>observe.go\<close>; the events of the hooks; the contract of a
      named lock as the locale \<open>named_lock\<close>, with mutual exclusion and the effect of
      \<open>WithLock\<close> proved from the contract.
    \<^item> \<open>Memlock\<close>: \<open>memlock/memlock.go\<close>; interprets \<open>named_lock\<close>; all interleavings of the
      critical sections and the atomic operations of any number of goroutines.  \<open>Memlock_Drain\<close>:
      without new calls every schedule ends, with no slot taken.
    \<^item> \<open>Lock_Table\<close>: \<open>lock.Locker\<close> and \<open>lock.Holder\<close> as a record of operations, and the full contract of
      named locks, as the locales \<open>lock_table\<close> and \<open>locker_table\<close>: a request may be served by any of a list of
      slots, gets the first free one, and every answer is the one a table of who holds which slot gives.  Locks with
      any \<open>MaxConcurrent\<close> are of this shape, a mutex being the case of one slot.
    \<^item> \<open>Gocronlock\<close>: \<open>contrib/gocronlock/gocronlock.go\<close> over any \<open>lock.Locker\<close>; over one that keeps the
      contract of \<open>locker_table\<close> it keeps that contract itself (a \<open>sublocale\<close>).
    \<^item> \<open>Handle_Table\<close>: the contract of \<open>Lock_Table\<close> from what single calls do to the world, as the locale
      \<open>client_lock\<close>; \<open>Host_Table\<close> (programs of processes on one machine, locale \<open>host_lock\<close>) and \<open>Server_Table\<close>
      (calls to a server, locale \<open>server_lock\<close>) give it from facts about their runs.
    \<^item> \<open>Memlock_Table\<close>, \<open>Filelock_Table\<close>, \<open>Flock_Table\<close>, \<open>Redislock_Table\<close>, \<open>Pglock_Table\<close>, \<open>Etcdlock_Table\<close>: every
      backend keeps the contract of \<open>Lock_Table\<close> as long as its calls do not overlap and nothing fails, for any
      number of slots (the adapter of \<open>memlock\<close> passes on no options, so it has one), and so does the scheduler's
      adapter over it.  What overlapping calls and failures can do is in the theories of the backends.
    \<^item> \<open>Backends\<close>: the backends as \<open>lock.Locker\<close> side by side; under the scheduler's adapter, configured for the same
      number of holders, they give the same answers to every sequence of calls.
    \<^item> \<open>Filelock_Config\<close>: \<open>options.go\<close>, \<open>strategy.go\<close>, \<open>observe.go\<close>, \<open>filelock.go\<close>.
    \<^item> \<open>Filelock_Marker\<close>: \<open>marker.go\<close>; the reader inverts the writer.
    \<^item> \<open>Filelock_Probe\<close>: \<open>probe*.go\<close>, \<open>starttime_*.go\<close>, \<open>identity.go\<close>, \<open>stale.go\<close>.
    \<^item> \<open>Fence\<close>: \<open>fence.go\<close>, the same code in \<open>filelock\<close> and \<open>flock\<close> but for a prefix.
    \<^item> \<open>Filelock\<close>: \<open>lock.go\<close>, \<open>holder.go\<close>, \<open>factory.go\<close>, \<open>locker_adapter.go\<close>; its
      undisturbed runs are in \<open>Filelock_Spec\<close> and \<open>Filelock_Props\<close>, its runs under
      interference in \<open>Filelock_Safety\<close>; \<open>Filelock_Sweep\<close>: \<open>sweep.go\<close>.
    \<^item> \<open>Flock_Config\<close>, \<open>Flock\<close>: the package \<open>flock\<close>, both build-tagged \<open>tryLock\<close> included; the
      kernel's advisory lock is part of the machine of \<open>Kernel\<close> (a lock belongs to an open
      file and goes when it is closed or its process ends).  Undisturbed runs are in
      \<open>Flock_Spec\<close> and \<open>Flock_Props\<close>, mutual exclusion under interference and the race of
      release with two acquires in \<open>Flock_Safety\<close>; that no call waits, and how many system calls it makes at most,
      in \<open>Flock_Calls\<close>.
    \<^item> \<open>Server_Api\<close>: what the three server backends share: the loop over the slots, the hooks
      around an acquire, \<open>WithLock\<close>; postconditions of programs (\<open>after\<close>); what it means that an
      operation takes effect at one moment among the steps of others (\<open>serves\<close>).
    \<^item> \<open>Redislock\<close>: the package \<open>redislock\<close>, its two Lua scripts as trees of Redis calls;
      \<open>Redislock_Props\<close>: what Redis documents, mutual exclusion while leases run, release and
      extend; \<open>Redislock_Quiet\<close>: acquire and release with nobody interfering, and two defects.
    \<^item> \<open>Pglock\<close>: the package \<open>pglock\<close>, with the FNV-1a hash of names; \<open>Pglock_Props\<close>: what Postgres
      and the pool document, mutual exclusion, and that no connection is lost; \<open>Pglock_Quiet\<close>:
      acquire and release with nobody interfering, a failing unlock, the keys of slots.
    \<^item> \<open>Etcdlock\<close>: the package \<open>etcdlock\<close>; \<open>Etcdlock_Props\<close>: what etcd and its concurrency library
      document, mutual exclusion, and that no session is left; \<open>Etcdlock_Quiet\<close>: acquire and
      release with nobody interfering, and fencing tokens under interference; \<open>Etcdlock_Config\<close>:
      the configurations and slots its options can make.

  \<^bold>\<open>Bounds.\<close>  No definition uses fuel.  The candidate names of \<open>os.CreateTemp\<close> are bounded by
  10000 attempts, as in Go, within one system call of the model; a scanner line by 64 KiB; the write buffer of the marker is 4096 bytes.

  \<^bold>\<open>Not modelled.\<close>  File permissions, symbolic links and short writes; the memory model below
  the sequentially consistent atomics; the text of errors made by the standard library beyond
  what \<open>errors.Is\<close> sees.  Redis, Postgres, etcd and their client libraries are parameters: the
  theorems about them name what is relied on as \<open>redis_laws\<close>, \<open>pg_laws\<close> and \<open>et_laws\<close>, and
  each of these has an instance in memory on which the witnesses run.  The seconds that
  \<open>etcdlock\<close> asks for are computed with integers; the code's \<open>float64\<close> truncates to the same number
  below \<open>2^23\<close> seconds.  That an etcd session ends with the context it was opened under is not
  modelled.
\<close>

end
